(* ===== verification/Prelude.thy ===== *)
theory Prelude
  imports Complex_Main "HOL-Library.Word" "HOL-Library.Multiset"
begin

text \<open>
  What the components share: names for the machine integer types, the errors of the
  library as values, and generic facts on strictly ascending lists, on duplicate removal
  and on multisets that several components use.
\<close>

unbundle bit_operations_syntax

section \<open>Machine integers and errors\<close>

type_synonym u8 = "8 word"
type_synonym u16 = "16 word"
type_synonym u32 = "32 word"
type_synonym u64 = "64 word"
type_synonym u128 = "128 word"

text \<open>
  The exceptions the code throws: \<^verbatim>\<open>std::invalid_argument\<close> with its message,
  \<^verbatim>\<open>datasketches::cuda::cuda_error\<close> for a failed CUDA call, and the exception of a
  memory resource that cannot allocate. An operation that may throw returns a sum with the
  exception on the left.
\<close>

datatype error = Invalid_argument string | Cuda_error | Alloc_error

type_synonym 'a result = "error + 'a"

fun bind_result :: "'a result \<Rightarrow> ('a \<Rightarrow> 'b result) \<Rightarrow> 'b result" where
  "bind_result (Inl e) f = Inl e"
| "bind_result (Inr x) f = f x"

lemma bind_result_Inr [simp]:
  "bind_result r f = Inr y \<longleftrightarrow> (\<exists>x. r = Inr x \<and> f x = Inr y)"
  by (cases r) auto

named_theorems word_nat_simps \<open>moving word comparisons to the naturals\<close>

section \<open>Strictly ascending lists\<close>

abbreviation ascending :: "'a::linorder list \<Rightarrow> bool" where
  "ascending xs \<equiv> sorted_wrt (<) xs"

lemma ascending_iff: "ascending xs \<longleftrightarrow> sorted xs \<and> distinct xs"
  by (rule strict_sorted_iff)

lemma ascending_unique:
  "ascending xs \<Longrightarrow> ascending ys \<Longrightarrow> set xs = set ys \<Longrightarrow> xs = ys"
  by (simp add: strict_sorted_equal)

lemma ascending_remdups_adj: "sorted xs \<Longrightarrow> ascending (remdups_adj xs)"
proof (induction xs rule: remdups_adj.induct)
  case (3 x y xs)
  show ?case
  proof (cases "x = y")
    case True
    with 3 show ?thesis by simp
  next
    case False
    with 3 have asc: "ascending (remdups_adj (y # xs))" by simp
    have "\<forall>z \<in> set (y # xs). x < z"
      using "3.prems" False by force
    with asc False show ?thesis by simp
  qed
qed simp_all

lemma ascending_filter: "ascending xs \<Longrightarrow> ascending (filter P xs)"
  by (rule sorted_wrt_filter)

lemma ascending_take: "ascending xs \<Longrightarrow> ascending (take n xs)"
  by (simp add: sorted_wrt_take)

lemma ascending_length: "ascending xs \<Longrightarrow> length xs = card (set xs)"
  by (simp add: ascending_iff distinct_card)

text \<open>Cutting an ascending list at an index selects the elements below the one there.\<close>

lemma ascending_take_set:
  assumes "ascending xs" and "n < length xs"
  shows "set (take n xs) = {x \<in> set xs. x < xs ! n}"
proof (intro set_eqI iffI)
  fix x assume "x \<in> set (take n xs)"
  then obtain i where i: "i < n" "x = xs ! i"
    using assms(2) by (auto simp: in_set_conv_nth)
  with assms show "x \<in> {x \<in> set xs. x < xs ! n}"
    by (auto simp: sorted_wrt_iff_nth_less)
next
  fix x assume "x \<in> {x \<in> set xs. x < xs ! n}"
  then obtain i where i: "i < length xs" "x = xs ! i" and lt: "xs ! i < xs ! n"
    by (auto simp: in_set_conv_nth)
  have "i < n"
  proof (rule ccontr)
    assume "\<not> i < n"
    then have "n = i \<or> xs ! n < xs ! i"
      using assms(1) i(1) unfolding sorted_wrt_iff_nth_less
      by (meson linorder_neqE_nat)
    with lt show False by auto
  qed
  with i assms(2) show "x \<in> set (take n xs)"
    by (force simp: in_set_conv_nth)
qed

section \<open>Multisets\<close>

lemma sum_list_update_mset:
  fixes f :: "'a \<Rightarrow> 'b multiset"
  assumes "k < length xs"
  shows "sum_list (map f (xs[k := x])) + f (xs ! k) = sum_list (map f xs) + f x"
  using assms
proof (induction xs arbitrary: k)
  case (Cons a xs)
  then show ?case
    by (cases k) (auto simp: ac_simps)
qed simp

lemma mem_sum_list_mset: "x \<in># sum_list (map f xs) \<longleftrightarrow> (\<exists>a \<in> set xs. x \<in># f a)"
  by (induction xs) auto

lemma filter_neq_subset_mset: "mset (filter P xs) \<subseteq># mset xs"
  by (simp add: mset_filter)

end
