(* ===== verification/Sketch_Contract.thy ===== *)
theory Sketch_Contract
  imports Prelude
begin

text \<open>
  The contracts of the sketches as two locales, with what follows from them proved once: a
  sketch under set operations stands for the set its expression denotes, and a mergeable
  summary depends on its input only as a set. The Theta sketch interprets both, the HLL sketch
  the second.
\<close>

section \<open>Set expressions over sketches\<close>

datatype 'b set_expr =
    Batch 'b
  | Union_of "'b set_expr" "'b set_expr"
  | Inter_of "'b set_expr" "'b set_expr"
  | Diff_of "'b set_expr" "'b set_expr"

fun denotes :: "('b \<Rightarrow> 'h set) \<Rightarrow> 'b set_expr \<Rightarrow> 'h set" where
  "denotes elems (Batch b) = elems b"
| "denotes elems (Union_of e f) = denotes elems e \<union> denotes elems f"
| "denotes elems (Inter_of e f) = denotes elems e \<inter> denotes elems f"
| "denotes elems (Diff_of e f) = denotes elems e - denotes elems f"

text \<open>
  \<open>rep s H\<close>: the sketch \<open>s\<close> stands for the set \<open>H\<close>. The other parameters are the successful
  runs: \<open>build b s\<close> makes a sketch of a batch, and the operations change their first
  argument by their second into the third.
\<close>

locale set_sketch =
  fixes rep :: "'s \<Rightarrow> 'h set \<Rightarrow> bool" and elems :: "'b \<Rightarrow> 'h set"
    and build :: "'b \<Rightarrow> 's \<Rightarrow> bool"
    and unite :: "'s \<Rightarrow> 's \<Rightarrow> 's \<Rightarrow> bool" and meet :: "'s \<Rightarrow> 's \<Rightarrow> 's \<Rightarrow> bool"
    and subtract :: "'s \<Rightarrow> 's \<Rightarrow> 's \<Rightarrow> bool"
  assumes rep_build: "build b s \<Longrightarrow> rep s (elems b)"
    and rep_unite: "rep s A \<Longrightarrow> rep t B \<Longrightarrow> unite s t s' \<Longrightarrow> rep s' (A \<union> B)"
    and rep_meet: "rep s A \<Longrightarrow> rep t B \<Longrightarrow> meet s t s' \<Longrightarrow> rep s' (A \<inter> B)"
    and rep_subtract: "rep s A \<Longrightarrow> rep t B \<Longrightarrow> subtract s t s' \<Longrightarrow> rep s' (A - B)"
begin

inductive evaluates :: "'b set_expr \<Rightarrow> 's \<Rightarrow> bool" where
  batch: "build b s \<Longrightarrow> evaluates (Batch b) s"
| union_of: "evaluates e s \<Longrightarrow> evaluates f t \<Longrightarrow> unite s t s' \<Longrightarrow> evaluates (Union_of e f) s'"
| inter_of: "evaluates e s \<Longrightarrow> evaluates f t \<Longrightarrow> meet s t s' \<Longrightarrow> evaluates (Inter_of e f) s'"
| diff_of: "evaluates e s \<Longrightarrow> evaluates f t \<Longrightarrow> subtract s t s' \<Longrightarrow> evaluates (Diff_of e f) s'"

lemma evaluates_rep: "evaluates e s \<Longrightarrow> rep s (denotes elems e)"
  by (induction rule: evaluates.induct) (auto intro: rep_build rep_unite rep_meet rep_subtract)

end

section \<open>Mergeable summaries\<close>

text \<open>
  \<open>canon s H\<close>: \<open>s\<close> is in the canonical state for \<open>H\<close>, and canonical states for one set agree
  in what can be observed of them. \<open>feed\<close> and \<open>join\<close> are the successful updates and merges.
\<close>

locale mergeable =
  fixes canon :: "'s \<Rightarrow> 'h set \<Rightarrow> bool" and observe :: "'s \<Rightarrow> 'o"
    and feed :: "'s \<Rightarrow> 'h set \<Rightarrow> 's \<Rightarrow> bool" and join :: "'s \<Rightarrow> 's \<Rightarrow> 's \<Rightarrow> bool"
  assumes canon_observe: "canon s H \<Longrightarrow> canon t H \<Longrightarrow> observe s = observe t"
    and canon_feed: "canon s H \<Longrightarrow> feed s K s' \<Longrightarrow> canon s' (H \<union> K)"
    and canon_join: "canon s H \<Longrightarrow> canon t K \<Longrightarrow> join s t s' \<Longrightarrow> canon s' (H \<union> K)"
begin

inductive feeds :: "'s \<Rightarrow> 'h set list \<Rightarrow> 's \<Rightarrow> bool" where
  Nil: "feeds s [] s"
| Cons: "feed s K s' \<Longrightarrow> feeds s' Ks s'' \<Longrightarrow> feeds s (K # Ks) s''"

lemma canon_feeds: "feeds s Ks s' \<Longrightarrow> canon s H \<Longrightarrow> canon s' (H \<union> \<Union> (set Ks))"
proof (induction arbitrary: H rule: feeds.induct)
  case (Cons s K s' Ks s'')
  then have "canon s'' ((H \<union> K) \<union> \<Union> (set Ks))" using canon_feed by blast
  then show ?case by (simp add: Un_assoc)
qed simp

text \<open>How the input was cut into batches, and their order, cannot be observed.\<close>

lemma batches_irrelevant:
  assumes "canon s H" and "canon t H" and "\<Union> (set Ks) = \<Union> (set Ls)"
    and "feeds s Ks s'" and "feeds t Ls t'"
  shows "observe s' = observe t'"
  using canon_feeds [OF assms(4,1)] canon_feeds [OF assms(5,2)] assms(3) canon_observe by metis

text \<open>Merging the summaries of two inputs gives the summary of both together.\<close>

lemma join_as_feed:
  assumes "canon s H" and "canon t {}" and "feed t K t'" and "join s t' s'" and "feed s K u"
  shows "observe s' = observe u"
proof -
  have "canon t' K" using canon_feed [OF assms(2,3)] by simp
  from canon_observe [OF canon_join [OF assms(1) this assms(4)] canon_feed [OF assms(1,5)]]
  show ?thesis .
qed

lemma join_commute:
  assumes "canon s H" and "canon t K" and "join s t s'" and "join t s t'"
  shows "observe s' = observe t'"
proof (rule canon_observe)
  show "canon s' (H \<union> K)" using canon_join [OF assms(1,2,3)] .
  show "canon t' (H \<union> K)" using canon_join [OF assms(2,1,4)] by (simp only: Un_commute)
qed

lemma join_assoc:
  assumes "canon s H" and "canon t K" and "canon u L"
    and "join s t v" and "join v u v'" and "join t u x" and "join s x x'"
  shows "observe v' = observe x'"
proof (rule canon_observe)
  show "canon v' (H \<union> (K \<union> L))"
    using canon_join [OF canon_join [OF assms(1,2,4)] assms(3,5)] by (simp only: Un_assoc)
  show "canon x' (H \<union> (K \<union> L))" using canon_join [OF assms(1) canon_join [OF assms(2,3,6)] assms(7)] .
qed

lemma join_idem:
  assumes "canon s H" and "join s s s'" shows "observe s' = observe s"
proof (rule canon_observe)
  show "canon s' H" using canon_join [OF assms(1,1,2)] by simp
qed (rule assms(1))

end

end
