(* ===== verification/Device.thy ===== *)
theory Device
  imports Prelude
begin

text \<open>
  The CUDA device as the host code sees it. Every CUDA runtime call, CUB call, allocation
  and synchronisation may fail, and the code turns a failure into an exception
  (\<^verbatim>\<open>DATASKETCHES_CUDA_TRY\<close>, \<^verbatim>\<open>detail/common/error.hpp\<close>). The world carries the outcomes
  of the calls to come and the thread schedules of the kernel launches to come, so a host
  operation is a function from the world to a result and the world left over. The CUB
  algorithms, the hash functions and the contents of uninitialised buffers are third-party:
  they are the fields of the record \<open>platform\<close>, and the laws their documentation gives
  are the predicate \<open>cub_ok\<close>.
\<close>

section \<open>The world and the device monad\<close>

record world =
  faults :: "bool list"
  scheds :: "(nat \<Rightarrow> nat) list"

type_synonym 'a dev = "world \<Rightarrow> 'a result \<times> world"

definition dreturn :: "'a \<Rightarrow> 'a dev" where
  "dreturn x w = (Inr x, w)"

definition dthrow :: "error \<Rightarrow> 'a dev" where
  "dthrow e w = (Inl e, w)"

definition dbind :: "'a dev \<Rightarrow> ('a \<Rightarrow> 'b dev) \<Rightarrow> 'b dev" where
  "dbind m f w = (case m w of (Inl e, w') \<Rightarrow> (Inl e, w') | (Inr x, w') \<Rightarrow> f x w')"

definition next_fault :: "world \<Rightarrow> bool \<times> world" where
  "next_fault w =
     (case faults w of [] \<Rightarrow> (False, w) | b # bs \<Rightarrow> (b, w\<lparr>faults := bs\<rparr>))"

text \<open>\<^verbatim>\<open>DATASKETCHES_CUDA_TRY(call)\<close>: a status other than \<^verbatim>\<open>cudaSuccess\<close> is thrown.\<close>

definition cuda_try :: "unit dev" where
  "cuda_try w =
     (case next_fault w of (failed, w') \<Rightarrow> (if failed then Inl Cuda_error else Inr (), w'))"

definition next_sched :: "world \<Rightarrow> (nat \<Rightarrow> nat) \<times> world" where
  "next_sched w =
     (case scheds w of [] \<Rightarrow> (\<lambda>_. 0, w) | s # ss \<Rightarrow> (s, w\<lparr>scheds := ss\<rparr>))"

text \<open>A kernel launch runs under the next schedule.\<close>

definition take_sched :: "(nat \<Rightarrow> nat) dev" where
  "take_sched w = (case next_sched w of (sched, w') \<Rightarrow> (Inr sched, w'))"

lemma dthrow_eq [simp]: "dthrow e w = (r, w') \<longleftrightarrow> r = Inl e \<and> w' = w"
  by (auto simp: dthrow_def)

lemma dreturn_Inr [simp]: "dreturn x w = (Inr y, w') \<longleftrightarrow> y = x \<and> w' = w"
  by (auto simp: dreturn_def)

lemma dreturn_Inl [simp]: "dreturn x w \<noteq> (Inl e, w')"
  by (simp add: dreturn_def)

lemma dbind_Inr [simp]:
  "dbind m f w = (Inr y, w') \<longleftrightarrow> (\<exists>x w1. m w = (Inr x, w1) \<and> f x w1 = (Inr y, w'))"
  by (auto simp: dbind_def split: prod.splits sum.splits)

lemma dbind_Inl:
  "dbind m f w = (Inl e, w') \<longleftrightarrow>
     m w = (Inl e, w') \<or> (\<exists>x w1. m w = (Inr x, w1) \<and> f x w1 = (Inl e, w'))"
  by (auto simp: dbind_def split: prod.splits sum.splits)

section \<open>Fault-free runs\<close>

definition no_faults :: "world \<Rightarrow> bool" where
  "no_faults w \<longleftrightarrow> faults w = []"

lemma cuda_try_no_faults: "no_faults w \<Longrightarrow> cuda_try w = (Inr (), w)"
  by (simp add: no_faults_def cuda_try_def next_fault_def)

lemma no_faults_next_sched: "no_faults w \<Longrightarrow> no_faults (snd (next_sched w))"
  by (auto simp: no_faults_def next_sched_def split: list.splits)

text \<open>
  \<open>total m\<close>: with no faults to come, \<open>m\<close> returns a value and leaves no faults behind.
  The device operations keep it, so a host operation built from them returns whenever the
  device does not fail.
\<close>

definition total :: "'a dev \<Rightarrow> bool" where
  "total m \<longleftrightarrow> (\<forall>w. no_faults w \<longrightarrow> (\<exists>x w'. m w = (Inr x, w') \<and> no_faults w'))"

lemma total_dreturn [intro]: "total (dreturn x)"
  by (simp add: total_def dreturn_def)

lemma total_cuda_try [intro]: "total cuda_try"
  by (simp add: total_def cuda_try_no_faults)

lemma total_take_sched [intro]: "total take_sched"
  unfolding total_def take_sched_def by (metis (no_types, lifting) case_prod_unfold no_faults_next_sched)

lemma total_dbind [intro]: "total m \<Longrightarrow> (\<And>x. total (f x)) \<Longrightarrow> total (dbind m f)"
  unfolding total_def dbind_def by (metis (no_types, lifting) case_prod_conv sum.case(2))

section \<open>Third-party code the sketches call\<close>

text \<open>
  \<open>murmur\<close> is cudax's \<^verbatim>\<open>hash<uint64_t, murmurhash3_x64_128>\<close> (seed, then the canonical key),
  \<open>compute_seed_hash\<close> is datasketches-cpp's, the next four are CUB's device-wide
  algorithms on 64-bit hashes, and \<open>no_init\<close> gives the contents of a buffer allocated
  with \<^verbatim>\<open>cuda::no_init\<close>.
\<close>

record platform =
  murmur :: "u64 \<Rightarrow> u64 \<Rightarrow> u128"
  compute_seed_hash :: "u64 \<Rightarrow> u16"
  select_if :: "(u64 \<Rightarrow> bool) \<Rightarrow> u64 list \<Rightarrow> u64 list"
  select_unique :: "u64 list \<Rightarrow> u64 list"
  sort_keys :: "nat \<Rightarrow> nat \<Rightarrow> u64 list \<Rightarrow> u64 list"
  merge_keys :: "u64 list \<Rightarrow> u64 list \<Rightarrow> u64 list"
  no_init :: "nat \<Rightarrow> u64"

text \<open>
  The documented contracts. \<^verbatim>\<open>DeviceSelect::If\<close> keeps the selected items in input order,
  \<^verbatim>\<open>DeviceSelect::Unique\<close> keeps the first of every run of equal items,
  \<^verbatim>\<open>DeviceRadixSort::SortKeys\<close> permutes the keys so that the bits in \<open>[lo, hi)\<close> ascend
  (the other bits are not looked at), and \<^verbatim>\<open>DeviceMerge::MergeKeys\<close> merges two sorted ranges.
\<close>

definition cub_ok :: "platform \<Rightarrow> bool" where
  "cub_ok pf \<longleftrightarrow>
     (\<forall>P xs. select_if pf P xs = filter P xs) \<and>
     (\<forall>xs. select_unique pf xs = remdups_adj xs) \<and>
     (\<forall>lo hi xs. mset (sort_keys pf lo hi xs) = mset xs \<and>
        sorted (map (\<lambda>x. drop_bit lo (take_bit hi x)) (sort_keys pf lo hi xs))) \<and>
     (\<forall>xs ys. sorted xs \<longrightarrow> sorted ys \<longrightarrow>
        sorted (merge_keys pf xs ys) \<and> mset (merge_keys pf xs ys) = mset xs + mset ys)"

lemma cub_okD:
  assumes "cub_ok pf"
  shows "select_if pf P xs = filter P xs" and "select_unique pf xs = remdups_adj xs"
    and "mset (sort_keys pf lo hi xs) = mset xs"
    and "sorted (map (\<lambda>x. drop_bit lo (take_bit hi x)) (sort_keys pf lo hi xs))"
    and "sorted xs \<Longrightarrow> sorted ys \<Longrightarrow> sorted (merge_keys pf xs ys)"
    and "sorted xs \<Longrightarrow> sorted ys \<Longrightarrow> mset (merge_keys pf xs ys) = mset xs + mset ys"
  using assms by (auto simp: cub_ok_def)

text \<open>
  A reference platform that meets the contracts, with executable list functions: it shows
  that the contracts can hold together.
\<close>

definition reference_platform :: platform where
  "reference_platform =
     \<lparr>murmur = (\<lambda>seed key. push_bit 64 (ucast (NOT key)) OR ucast (key * 0x9e3779b97f4a7c15 + seed)),
      compute_seed_hash = (\<lambda>seed. ucast seed),
      select_if = filter,
      select_unique = remdups_adj,
      sort_keys = (\<lambda>lo hi. sort_key (\<lambda>x. drop_bit lo (take_bit hi x))),
      merge_keys = (\<lambda>xs ys. sort (xs @ ys)),
      no_init = (\<lambda>_. 0xcdcdcdcdcdcdcdcd)\<rparr>"

lemma cub_ok_reference: "cub_ok reference_platform"
  by (simp add: cub_ok_def reference_platform_def)

end
