(* ===== verification/Floating.thy ===== *)
theory Floating
  imports Prelude
begin

text \<open>
  IEEE-754 binary64 arithmetic, round to nearest with ties to even, as C++ \<^verbatim>\<open>double\<close>
  computes it. A double is a datatype value: NaN, an infinity, negative zero, or a finite
  rational (\<open>Fin 0\<close> is positive zero). Each operation computes the exact rational result
  and rounds it to 53 significant bits with gradual underflow and overflow to infinity.
  \<open>decode64\<close> and \<open>encode64\<close> go between the values and their 64-bit patterns, which is
  what \<^verbatim>\<open>memcpy\<close> and \<^verbatim>\<open>bit_cast\<close> of a double see; \<open>float_to_double\<close> is the conversion
  from binary32 patterns. No fused multiply-add is assumed.
\<close>

section \<open>Bit width and binary exponent\<close>

fun bit_width :: "nat \<Rightarrow> nat" where
  "bit_width n = (if n = 0 then 0 else Suc (bit_width (n div 2)))"

declare bit_width.simps [simp del]

lemma bit_width_0 [simp]: "bit_width 0 = 0"
  by (subst bit_width.simps) simp

lemma bit_width_le_iff: "bit_width n \<le> k \<longleftrightarrow> n < 2 ^ k"
proof (induction n arbitrary: k rule: bit_width.induct)
  case (1 n)
  show ?case
  proof (cases "n = 0")
    case False
    then show ?thesis
    proof (cases k)
      case 0
      with False show ?thesis by (subst bit_width.simps) simp
    next
      case (Suc j)
      have "bit_width n \<le> k \<longleftrightarrow> n div 2 < 2 ^ j"
        using False Suc "1.IH" by (subst bit_width.simps) simp
      also have "\<dots> \<longleftrightarrow> n < 2 ^ k"
        by (auto simp: Suc div_less_iff_less_mult mult.commute)
      finally show ?thesis .
    qed
  qed simp
qed

lemma less_bit_width_iff: "k < bit_width n \<longleftrightarrow> 2 ^ k \<le> n"
  using bit_width_le_iff [of n k] by (simp add: not_le [symmetric])

lemma bit_width_pos_iff [simp]: "0 < bit_width n \<longleftrightarrow> 0 < n"
  using less_bit_width_iff [of 0 n] by auto

text \<open>The exponent \<open>k\<close> with \<open>2^k \<le> a < 2^(k+1)\<close>, for a positive rational.\<close>

definition ilog2 :: "rat \<Rightarrow> int" where
  "ilog2 a = (if 1 \<le> a then int (bit_width (nat \<lfloor>a\<rfloor>)) - 1
              else - int (bit_width (nat (\<lceil>1 / a\<rceil> - 1))))"

lemma ilog2_ge:
  assumes "0 < a" shows "2 powi ilog2 a \<le> a"
proof (cases "1 \<le> a")
  case True
  then have pos: "0 < nat \<lfloor>a\<rfloor>" by (simp add: le_floor_iff)
  let ?w = "bit_width (nat \<lfloor>a\<rfloor>)"
  from pos have w: "0 < ?w" by simp
  have "2 ^ (?w - 1) \<le> nat \<lfloor>a\<rfloor>"
    using w less_bit_width_iff [of "?w - 1" "nat \<lfloor>a\<rfloor>"] by simp
  then have "(2::int) ^ (?w - 1) \<le> \<lfloor>a\<rfloor>"
    by (metis True int_ops(1) le_nat_iff nat_le_iff of_nat_numeral of_nat_power pos
        zero_less_nat_eq order_less_imp_le)
  then have "(2::rat) ^ (?w - 1) \<le> a"
    by (simp add: le_floor_iff)
  moreover have "(2::rat) powi ilog2 a = 2 ^ (?w - 1)"
    using True w by (simp add: ilog2_def power_int_def nat_diff_distrib)
  ultimately show ?thesis by simp
next
  case False
  let ?c = "nat (\<lceil>1 / a\<rceil> - 1)" and ?w = "bit_width (nat (\<lceil>1 / a\<rceil> - 1))"
  have "?c < 2 ^ ?w" by (simp add: bit_width_le_iff [symmetric])
  moreover have "1 < \<lceil>1 / a\<rceil>" using False assms by (simp add: less_ceiling_iff)
  ultimately have "\<lceil>1 / a\<rceil> \<le> (2::int) ^ ?w"
    by (simp add: nat_less_iff)
  then have "1 / a \<le> 2 ^ ?w"
    by (simp add: ceiling_le_iff)
  then have "1 / 2 ^ ?w \<le> a"
    using assms by (simp add: field_simps)
  then show ?thesis
    using False by (simp add: ilog2_def power_int_minus divide_inverse)
qed

lemma ilog2_less:
  assumes "0 < a" shows "a < 2 powi (ilog2 a + 1)"
proof (cases "1 \<le> a")
  case True
  let ?w = "bit_width (nat \<lfloor>a\<rfloor>)"
  have "nat \<lfloor>a\<rfloor> < 2 ^ ?w" by (simp add: bit_width_le_iff [symmetric])
  then have "\<lfloor>a\<rfloor> < (2::int) ^ ?w"
    using True by (simp add: nat_less_iff le_floor_iff)
  then have "a < (2::rat) ^ ?w"
    by (simp add: floor_less_iff)
  then show ?thesis
    using True by (simp add: ilog2_def)
next
  case False
  let ?c = "nat (\<lceil>1 / a\<rceil> - 1)" and ?w = "bit_width (nat (\<lceil>1 / a\<rceil> - 1))"
  have c: "1 < \<lceil>1 / a\<rceil>" using False assms by (simp add: less_ceiling_iff)
  then have w: "0 < ?w" by simp
  have "2 ^ (?w - 1) \<le> ?c"
    using w less_bit_width_iff [of "?w - 1" ?c] by simp
  then have "(2::int) ^ (?w - 1) < \<lceil>1 / a\<rceil>"
    using c by (simp add: le_nat_iff)
  then have "(2::rat) ^ (?w - 1) < 1 / a"
    by (simp add: less_ceiling_iff)
  then have "a < 1 / 2 ^ (?w - 1)"
    using assms by (simp add: field_simps)
  moreover have "ilog2 a + 1 = - int (?w - 1)"
    using False w by (simp add: ilog2_def of_nat_diff Suc_leI del: bit_width_pos_iff)
  ultimately show ?thesis
    by (simp add: power_int_minus divide_inverse)
qed

lemma ilog2_le_iff:
  assumes "0 < a" shows "ilog2 a < k \<longleftrightarrow> a < 2 powi k"
proof
  assume "ilog2 a < k"
  then have "(2::rat) powi (ilog2 a + 1) \<le> 2 powi k"
    by (intro power_int_increasing) auto
  with ilog2_less [OF assms] show "a < 2 powi k" by simp
next
  assume a: "a < 2 powi k"
  show "ilog2 a < k"
  proof (rule ccontr)
    assume "\<not> ilog2 a < k"
    then have "(2::rat) powi k \<le> 2 powi ilog2 a"
      by (intro power_int_increasing) auto
    with ilog2_ge [OF assms] a show False by simp
  qed
qed

section \<open>Rounding to binary64\<close>

definition round_half_even :: "rat \<Rightarrow> int" where
  "round_half_even q =
     (let f = \<lfloor>q\<rfloor>; r = q - of_int f
      in if r < 1 / 2 then f else if 1 / 2 < r then f + 1 else if even f then f else f + 1)"

text \<open>
  The unit in the last place of a value with binary exponent \<open>k\<close> is \<open>2^(k-52)\<close>, but never
  less than \<open>2^-1074\<close>, the spacing of the subnormal numbers.
\<close>

definition ulp_exp :: "rat \<Rightarrow> int" where
  "ulp_exp x = max (ilog2 \<bar>x\<bar> - 52) (- 1074)"

definition rnd64 :: "rat \<Rightarrow> rat" where
  "rnd64 x = (if x = 0 then 0
     else of_int (round_half_even (x / 2 powi ulp_exp x)) * 2 powi ulp_exp x)"

definition representable :: "rat \<Rightarrow> bool" where
  "representable x \<longleftrightarrow> (\<exists>m e. x = of_int m * 2 powi e \<and> \<bar>m\<bar> < 2 ^ 53 \<and> - 1074 \<le> e)"

lemma round_half_even_of_int [simp]: "round_half_even (of_int n) = n"
  by (simp add: round_half_even_def)

lemma round_half_even_error: "\<bar>of_int (round_half_even q) - q\<bar> \<le> 1 / 2"
  using floor_correct [of q] by (auto simp: round_half_even_def Let_def abs_le_iff)

lemma rnd64_0 [simp]: "rnd64 0 = 0"
  by (simp add: rnd64_def)

lemma rnd64_error:
  assumes "x \<noteq> 0" shows "\<bar>rnd64 x - x\<bar> \<le> 2 powi ulp_exp x / 2"
proof -
  let ?u = "(2::rat) powi ulp_exp x"
  have u: "0 < ?u" by simp
  have "rnd64 x - x = (of_int (round_half_even (x / ?u)) - x / ?u) * ?u"
    using assms u by (simp add: rnd64_def field_simps)
  then have "\<bar>rnd64 x - x\<bar> = \<bar>of_int (round_half_even (x / ?u)) - x / ?u\<bar> * ?u"
    using u by (simp add: abs_mult)
  also have "\<dots> \<le> 1 / 2 * ?u"
    using u round_half_even_error by (intro mult_right_mono) auto
  finally show ?thesis by simp
qed

text \<open>A representable value is its own rounding: no operation changes an exact result.\<close>

lemma rnd64_multiple:
  assumes "x = of_int m * 2 powi e" and "ulp_exp x \<le> e"
  shows "rnd64 x = x"
proof (cases "x = 0")
  case False
  let ?u = "(2::rat) powi ulp_exp x"
  have "x / ?u = of_int m * 2 powi (e - ulp_exp x)"
    using assms(1) by (simp add: power_int_diff)
  also have "\<dots> = of_int (m * 2 ^ nat (e - ulp_exp x))"
    using assms(2) by (simp add: power_int_def)
  finally have "round_half_even (x / ?u) = m * 2 ^ nat (e - ulp_exp x)"
    by (simp only: round_half_even_of_int)
  then have "rnd64 x = of_int m * (2 powi (e - ulp_exp x) * ?u)"
    using False assms(2) by (simp add: rnd64_def power_int_def)
  also have "2 powi (e - ulp_exp x) * ?u = 2 powi e"
    by (simp flip: power_int_add)
  finally show ?thesis using assms(1) by simp
qed simp

lemma rnd64_representable:
  assumes "representable x" shows "rnd64 x = x"
proof (cases "x = 0")
  case False
  from assms obtain m e where x: "x = of_int m * 2 powi e" and m: "\<bar>m\<bar> < 2 ^ 53"
    and e: "- 1074 \<le> e" by (auto simp: representable_def)
  have "\<bar>x\<bar> = of_int \<bar>m\<bar> * 2 powi e"
    by (simp add: x abs_mult)
  also have "\<dots> < of_int (2 ^ 53) * 2 powi e"
    using m by (intro mult_strict_right_mono) (auto simp del: of_int_power)
  also have "\<dots> = 2 powi (e + 53)"
    by (simp add: power_int_add)
  finally have "ilog2 \<bar>x\<bar> < e + 53"
    using False by (simp add: ilog2_le_iff)
  with e have "ulp_exp x \<le> e"
    by (simp add: ulp_exp_def)
  with x show ?thesis by (rule rnd64_multiple)
qed simp

lemma representable_0 [simp]: "representable 0"
  unfolding representable_def by (intro exI [of _ 0]) auto

lemma representable_of_int: "\<bar>n\<bar> < 2 ^ 53 \<Longrightarrow> representable (of_int n)"
  unfolding representable_def by (intro exI [of _ n] exI [of _ 0]) simp

lemma representable_of_nat:
  assumes "n < 2 ^ 53" shows "representable (of_nat n)"
proof -
  have "int n < 2 ^ 53"
    using assms by (metis of_nat_less_iff of_nat_numeral of_nat_power)
  then show ?thesis
    using representable_of_int [of "int n"] by simp
qed

lemma representable_power: "- 1074 \<le> e \<Longrightarrow> representable (2 powi e)"
  unfolding representable_def by (intro exI [of _ 1] exI [of _ e]) simp

end
