(* ===== verification/Double.thy ===== *)
theory Double
  imports Floating
begin

text \<open>
  C++ \<^verbatim>\<open>double\<close> values, their operations and their bit patterns, on top of the rounding of
  \<^theory_text>\<open>Floating\<close>. Overflow gives an infinity, \<open>0/0\<close> and the other invalid operations give
  NaN, and comparisons with NaN are false.
\<close>

section \<open>Values and operations\<close>

datatype fp = FNaN | FInf bool | FNegZero | Fin rat

fun fval :: "fp \<Rightarrow> rat" where
  "fval (Fin x) = x"
| "fval _ = 0"

fun fsign :: "fp \<Rightarrow> bool" where
  "fsign (Fin x) = (x < 0)"
| "fsign (FInf s) = s"
| "fsign FNegZero = True"
| "fsign FNaN = False"

fun is_nan :: "fp \<Rightarrow> bool" where
  "is_nan FNaN = True"
| "is_nan _ = False"

text \<open>The rounded result; \<open>neg\<close> is the sign of a zero result.\<close>

definition fp_round :: "bool \<Rightarrow> rat \<Rightarrow> fp" where
  "fp_round neg x =
     (let r = rnd64 x
      in if r = 0 then (if neg then FNegZero else Fin 0)
         else if 2 ^ 1024 \<le> \<bar>r\<bar> then FInf (x < 0) else Fin r)"

fun fneg :: "fp \<Rightarrow> fp" where
  "fneg FNaN = FNaN"
| "fneg (FInf s) = FInf (\<not> s)"
| "fneg FNegZero = Fin 0"
| "fneg (Fin x) = (if x = 0 then FNegZero else Fin (- x))"

fun fadd :: "fp \<Rightarrow> fp \<Rightarrow> fp" where
  "fadd FNaN b = FNaN"
| "fadd a FNaN = FNaN"
| "fadd (FInf s) (FInf t) = (if s = t then FInf s else FNaN)"
| "fadd (FInf s) b = FInf s"
| "fadd a (FInf t) = FInf t"
| "fadd FNegZero FNegZero = FNegZero"
| "fadd a b = fp_round False (fval a + fval b)"

definition fsub :: "fp \<Rightarrow> fp \<Rightarrow> fp" where
  "fsub a b = fadd a (fneg b)"

fun fmul :: "fp \<Rightarrow> fp \<Rightarrow> fp" where
  "fmul FNaN b = FNaN"
| "fmul a FNaN = FNaN"
| "fmul (FInf s) (FInf t) = FInf (s \<noteq> t)"
| "fmul (FInf s) b = (if fval b = 0 then FNaN else FInf (s \<noteq> fsign b))"
| "fmul a (FInf t) = (if fval a = 0 then FNaN else FInf (fsign a \<noteq> t))"
| "fmul a b = fp_round (fsign a \<noteq> fsign b) (fval a * fval b)"

fun fdiv :: "fp \<Rightarrow> fp \<Rightarrow> fp" where
  "fdiv FNaN b = FNaN"
| "fdiv a FNaN = FNaN"
| "fdiv (FInf s) (FInf t) = FNaN"
| "fdiv (FInf s) b = FInf (s \<noteq> fsign b)"
| "fdiv a (FInf t) = (if fsign a \<noteq> t then FNegZero else Fin 0)"
| "fdiv a b =
     (if fval b = 0 then (if fval a = 0 then FNaN else FInf (fsign a \<noteq> fsign b))
      else fp_round (fsign a \<noteq> fsign b) (fval a / fval b))"

fun fless :: "fp \<Rightarrow> fp \<Rightarrow> bool" where
  "fless FNaN b = False"
| "fless a FNaN = False"
| "fless (FInf s) (FInf t) = (s \<and> \<not> t)"
| "fless (FInf s) b = s"
| "fless a (FInf t) = (\<not> t)"
| "fless a b = (fval a < fval b)"

fun feq :: "fp \<Rightarrow> fp \<Rightarrow> bool" where
  "feq FNaN b = False"
| "feq a FNaN = False"
| "feq (FInf s) (FInf t) = (s = t)"
| "feq (FInf s) b = False"
| "feq a (FInf t) = False"
| "feq a b = (fval a = fval b)"

definition fleq :: "fp \<Rightarrow> fp \<Rightarrow> bool" where
  "fleq a b \<longleftrightarrow> fless a b \<or> feq a b"

text \<open>\<^verbatim>\<open>std::min\<close> and \<^verbatim>\<open>std::max\<close> return their first argument unless the comparison is true.\<close>

definition fmin :: "fp \<Rightarrow> fp \<Rightarrow> fp" where
  "fmin a b = (if fless b a then b else a)"

definition fmax :: "fp \<Rightarrow> fp \<Rightarrow> fp" where
  "fmax a b = (if fless a b then b else a)"

text \<open>Conversions: an unsigned integer to double rounds, a double to an integer truncates.\<close>

definition f_of_nat :: "nat \<Rightarrow> fp" where
  "f_of_nat n = fp_round False (of_nat n)"

fun f_to_nat :: "fp \<Rightarrow> nat" where
  "f_to_nat (Fin x) = nat \<lfloor>x\<rfloor>"
| "f_to_nat _ = 0"

text \<open>A decimal literal is the double nearest to it.\<close>

definition f_lit :: "rat \<Rightarrow> fp" where
  "f_lit x = fp_round False x"

section \<open>Exact results\<close>

lemma fp_round_Fin:
  assumes "representable x" and "\<bar>x\<bar> < 2 ^ 1024" and "x = 0 \<Longrightarrow> \<not> neg"
  shows "fp_round neg x = Fin x"
  using assms by (auto simp: fp_round_def Let_def rnd64_representable)

lemma fp_round_Fin_nonneg:
  "representable x \<Longrightarrow> \<bar>x\<bar> < 2 ^ 1024 \<Longrightarrow> fp_round False x = Fin x"
  by (rule fp_round_Fin) auto

lemma f_of_nat_exact:
  assumes "n < 2 ^ 53" shows "f_of_nat n = Fin (of_nat n)"
proof -
  have "(of_nat n :: rat) < of_nat (2 ^ 53)"
    using assms by (simp only: of_nat_less_iff)
  also have "\<dots> \<le> 2 ^ 1024" by simp
  finally show ?thesis
    using assms by (simp add: f_of_nat_def fp_round_Fin_nonneg representable_of_nat)
qed

section \<open>Bit patterns\<close>

text \<open>Sign (bit 63), biased exponent (11 bits) and fraction (52 bits) of a binary64 pattern.\<close>

definition d_sign :: "u64 \<Rightarrow> bool" where "d_sign w = bit w 63"
definition d_exp :: "u64 \<Rightarrow> nat" where "d_exp w = unat (drop_bit 52 w AND 0x7ff)"
definition d_frac :: "u64 \<Rightarrow> nat" where "d_frac w = unat (w AND mask 52)"

definition make_double :: "bool \<Rightarrow> nat \<Rightarrow> nat \<Rightarrow> u64" where
  "make_double s e f =
     push_bit 63 (if s then 1 else 0) OR push_bit 52 (word_of_nat e) OR word_of_nat f"

definition decode64 :: "u64 \<Rightarrow> fp" where
  "decode64 w =
     (let s = d_sign w; e = d_exp w; f = d_frac w; sg = (if s then - 1 else 1)
      in if e = 2047 then (if f = 0 then FInf s else FNaN)
         else if e = 0 \<and> f = 0 then (if s then FNegZero else Fin 0)
         else if e = 0 then Fin (sg * of_nat f * 2 powi (- 1074))
         else Fin (sg * of_nat (2 ^ 52 + f) * 2 powi (int e - 1075)))"

definition encode64 :: "fp \<Rightarrow> u64" where
  "encode64 v =
     (case v of FNaN \<Rightarrow> 0x7ff8000000000000
      | FInf s \<Rightarrow> make_double s 2047 0
      | FNegZero \<Rightarrow> make_double True 0 0
      | Fin x \<Rightarrow>
          if x = 0 then 0
          else let s = (x < 0); a = \<bar>x\<bar>; k = ilog2 a
            in if k < - 1022 then make_double s 0 (nat \<lfloor>a * 2 powi 1074\<rfloor>)
               else make_double s (nat (k + 1023)) (nat \<lfloor>a / 2 powi (k - 52)\<rfloor> - 2 ^ 52))"

text \<open>
  Conversion of a binary32 pattern to binary64: a normal number is re-biased, a subnormal
  one is normalised, infinities stay, and a NaN is quieted. Every binary32 value is exact
  in binary64.
\<close>

definition float_to_double :: "u32 \<Rightarrow> u64" where
  "float_to_double w =
     (let s = bit w 31; e = unat (drop_bit 23 w AND 0xff); f = unat (w AND mask 23)
      in if e = 255 then make_double s 2047 (if f = 0 then 0 else 2 ^ 51 + (f mod 2 ^ 22) * 2 ^ 29)
         else if e = 0 \<and> f = 0 then make_double s 0 0
         else if e = 0 then
           (let p = bit_width f - 1 in make_double s (p + 874) ((f - 2 ^ p) * 2 ^ (52 - p)))
         else make_double s (e + 896) (f * 2 ^ 29))"

definition decode32 :: "u32 \<Rightarrow> fp" where
  "decode32 w =
     (let s = bit w 31; e = unat (drop_bit 23 w AND 0xff); f = unat (w AND mask 23);
          sg = (if s then - 1 else 1)
      in if e = 255 then (if f = 0 then FInf s else FNaN)
         else if e = 0 \<and> f = 0 then (if s then FNegZero else Fin 0)
         else if e = 0 then Fin (sg * of_nat f * 2 powi (- 149))
         else Fin (sg * of_nat (2 ^ 23 + f) * 2 powi (int e - 150)))"

end
