(* ===== verification/Normalizing_Hasher.thy ===== *)
theory Normalizing_Hasher
  imports Device Double
begin

text \<open>
  \<^verbatim>\<open>detail/common/normalizing_hasher.cuh\<close>: every supported key type is reduced to a
  canonical 64-bit pattern, which MurmurHash3 then hashes. A key is a value of the datatype
  \<open>key\<close>, one constructor per supported C++ type, holding the bits of the key.
\<close>

definition default_seed :: u64 where
  "default_seed = 9001"

datatype key =
    Key_u64 u64 | Key_i64 u64
  | Key_i32 u32 | Key_i16 u16 | Key_i8 u8
  | Key_u32 u32 | Key_u16 u16 | Key_u8 u8
  | Key_float u32 | Key_double u64

text \<open>\<^verbatim>\<open>isnan\<close> and \<^verbatim>\<open>== 0.0\<close> on the bits of a double.\<close>

definition double_isnan :: "u64 \<Rightarrow> bool" where
  "double_isnan d = is_nan (decode64 d)"

definition double_is_zero :: "u64 \<Rightarrow> bool" where
  "double_is_zero d = feq (decode64 d) (Fin 0)"

definition canonical_double :: "u64 \<Rightarrow> u64" where
  "canonical_double d =
     (if double_isnan d then 0x7ff8000000000000
      else if double_is_zero d then 0 else d)"

fun canonicalize :: "key \<Rightarrow> u64" where
  "canonicalize (Key_u64 k) = k"
| "canonicalize (Key_i64 k) = k"
| "canonicalize (Key_i32 k) = scast k"
| "canonicalize (Key_i16 k) = scast k"
| "canonicalize (Key_i8 k) = scast k"
| "canonicalize (Key_u32 k) = scast k"
| "canonicalize (Key_u16 k) = scast k"
| "canonicalize (Key_u8 k) = scast k"
| "canonicalize (Key_float k) = canonical_double (float_to_double k)"
| "canonicalize (Key_double k) = canonical_double k"

text \<open>\<^verbatim>\<open>normalizing_hasher<Key>{seed}(key)\<close>: the 128-bit hash.\<close>

definition normalizing_hash :: "platform \<Rightarrow> u64 \<Rightarrow> key \<Rightarrow> u128" where
  "normalizing_hash pf seed k = murmur pf seed (canonicalize k)"

end
