(* ===== verification/Theta_Policy.thy ===== *)
theory Theta_Policy
  imports Normalizing_Hasher
begin

text \<open>
  \<^verbatim>\<open>detail/theta/policy.cuh\<close> and \<^verbatim>\<open>detail/theta/tuning.cuh\<close>: the constants of the Theta
  sketch, its hash, the two device predicates that screen hashes, and the launch geometry.
\<close>

section \<open>Constants\<close>

definition max_theta :: u64 where "max_theta = 0x7fffffffffffffff"
definition min_lg_k :: u8 where "min_lg_k = 5"
definition max_lg_k :: u8 where "max_lg_k = 26"
definition default_lg_k :: u8 where "default_lg_k = 12"

definition block_threads :: nat where "block_threads = 256"
definition items_per_thread :: nat where "items_per_thread = 8"
definition filter_slots :: nat where "filter_slots = 1024"
definition tile_keys :: nat where "tile_keys = block_threads * items_per_thread"
definition chunk_target_multiple :: nat where "chunk_target_multiple = 16"
definition min_chunk_keys :: nat where "min_chunk_keys = 2 ^ 20"
definition min_survivor_budget :: nat where "min_survivor_budget = 2 ^ 22"
definition max_chunk_growth :: nat where "max_chunk_growth = 64"
definition budget_margin :: fp where "budget_margin = f_lit (11 / 10)"
definition duplicate_hedge :: fp where "duplicate_hedge = f_lit 2"

text \<open>The number of blocks that covers \<open>n\<close> keys, one tile each, in 64-bit arithmetic.\<close>

definition grid_size :: "nat \<Rightarrow> u32" where
  "grid_size n =
     (let max_blocks = 0x7fffffff; blocks = (n + tile_keys - 1) mod 2 ^ 64 div tile_keys
      in word_of_nat (if blocks < max_blocks then blocks else max_blocks))"

section \<open>Hash and predicates\<close>

text \<open>The low word of the 128-bit hash, shifted right by one.\<close>

definition theta_hash :: "platform \<Rightarrow> u64 \<Rightarrow> key \<Rightarrow> u64" where
  "theta_hash pf seed k = drop_bit 1 (ucast (normalizing_hash pf seed k))"

definition screen_hash :: "u64 \<Rightarrow> u64 \<Rightarrow> bool" where
  "screen_hash theta hash \<longleftrightarrow> hash \<noteq> 0 \<and> hash < theta"

text \<open>
  \<^verbatim>\<open>cuda::std::binary_search\<close> on a buffer: the halving loop of \<^verbatim>\<open>lower_bound\<close>, then the
  comparison with the element found.
\<close>

function lower_bound :: "u64 list \<Rightarrow> nat \<Rightarrow> nat \<Rightarrow> u64 \<Rightarrow> nat" where
  "lower_bound xs first len v =
     (if len = 0 then first
      else let half = len div 2; middle = first + half
        in if xs ! middle < v then lower_bound xs (middle + 1) (len - half - 1) v
           else lower_bound xs first half v)"
  by pat_completeness auto
termination
  by (relation "measure (\<lambda>(xs, first, len, v). len)") auto

declare lower_bound.simps [simp del]

definition binary_search :: "u64 list \<Rightarrow> u64 \<Rightarrow> bool" where
  "binary_search xs v =
     (let i = lower_bound xs 0 (length xs) v in i < length xs \<and> \<not> v < xs ! i)"

definition membership_filter :: "u64 list \<Rightarrow> u64 \<Rightarrow> bool \<Rightarrow> u64 \<Rightarrow> bool" where
  "membership_filter other theta keep_matches hash =
     (if \<not> screen_hash theta hash then False
      else binary_search other hash = keep_matches)"

section \<open>Facts\<close>

lemma theta_hash_le_max: "theta_hash pf seed k \<le> max_theta"
proof -
  have "drop_bit 1 w \<le> (0x7fffffffffffffff :: u64)" for w :: u64
    using unsigned_less [of w, where ?'a = nat]
    by (simp add: word_le_nat_alt drop_bit_Suc unat_div_distrib)
  then show ?thesis by (simp add: theta_hash_def max_theta_def)
qed

text \<open>
  The loop keeps the boundary: below \<open>first\<close> everything is less than \<open>v\<close>, at and above
  \<open>first + len\<close> nothing is.
\<close>

lemma lower_bound_boundary:
  assumes "sorted xs" and "first + len \<le> length xs"
    and "\<And>i. i < first \<Longrightarrow> xs ! i < v"
    and "\<And>i. first + len \<le> i \<Longrightarrow> i < length xs \<Longrightarrow> v \<le> xs ! i"
  shows "lower_bound xs first len v \<le> length xs
    \<and> (\<forall>i < lower_bound xs first len v. xs ! i < v)
    \<and> (\<forall>i < length xs. lower_bound xs first len v \<le> i \<longrightarrow> v \<le> xs ! i)"
  using assms
proof (induction xs first len v rule: lower_bound.induct)
  case (1 xs first len v)
  show ?case
  proof (cases "len = 0")
    case True
    with "1.prems" show ?thesis by (auto simp: lower_bound.simps [of xs first 0 v])
  next
    case False
    let ?h = "len div 2" and ?m = "first + len div 2"
    have m: "?m < length xs" using False "1.prems"(2) by linarith
    show ?thesis
    proof (cases "xs ! ?m < v")
      case True
      have less: "xs ! i < v" if "i < ?m + 1" for i
      proof -
        have "xs ! i \<le> xs ! ?m"
          using that m "1.prems"(1) by (intro sorted_nth_mono) auto
        with True show ?thesis by simp
      qed
      have eq: "lower_bound xs first len v = lower_bound xs (?m + 1) (len - ?h - 1) v"
        using False True by (subst lower_bound.simps) (simp add: Let_def)
      have len: "?m + 1 + (len - ?h - 1) = first + len" using False by simp
      show ?thesis
        unfolding eq
        by (rule "1.IH"(1) [OF False refl refl True "1.prems"(1)])
          (use "1.prems" less in \<open>simp_all only: len\<close>)
    next
      case ge: False
      have "v \<le> xs ! i" if "?m \<le> i" "i < length xs" for i
      proof -
        have "xs ! ?m \<le> xs ! i" using that "1.prems"(1) by (intro sorted_nth_mono) auto
        with ge show ?thesis by simp
      qed
      moreover have eq: "lower_bound xs first len v = lower_bound xs first ?h v"
        using False ge by (subst lower_bound.simps) (simp add: Let_def)
      ultimately show ?thesis
        unfolding eq using "1.prems" m
        by (intro "1.IH"(2) [OF False refl refl ge "1.prems"(1)]) auto
    qed
  qed
qed

lemma binary_search_iff:
  assumes "sorted xs" shows "binary_search xs v \<longleftrightarrow> v \<in> set xs"
proof -
  let ?i = "lower_bound xs 0 (length xs) v"
  have b: "(\<forall>i < ?i. xs ! i < v) \<and> (\<forall>i < length xs. ?i \<le> i \<longrightarrow> v \<le> xs ! i)"
    using lower_bound_boundary [of xs 0 "length xs" v] assms by simp
  show ?thesis
  proof
    assume "binary_search xs v"
    then have "?i < length xs" and "\<not> v < xs ! ?i" by (auto simp: binary_search_def Let_def)
    moreover from b have "v \<le> xs ! ?i" using \<open>?i < length xs\<close> by blast
    ultimately have "xs ! ?i = v" by simp
    with \<open>?i < length xs\<close> show "v \<in> set xs" by (metis nth_mem)
  next
    assume "v \<in> set xs"
    then obtain j where j: "j < length xs" "xs ! j = v" by (auto simp: in_set_conv_nth)
    with b have le: "?i \<le> j" by (meson leI less_irrefl)
    then have "xs ! ?i \<le> xs ! j" using j assms by (intro sorted_nth_mono) auto
    with j le show "binary_search xs v" by (auto simp: binary_search_def Let_def)
  qed
qed

lemma membership_filter_iff:
  "sorted other \<Longrightarrow> membership_filter other theta keep hash \<longleftrightarrow>
     hash \<noteq> 0 \<and> hash < theta \<and> (hash \<in> set other \<longleftrightarrow> keep)"
  by (auto simp: membership_filter_def screen_hash_def binary_search_iff)

lemma tile_keys_eq: "tile_keys = 2048"
  by (simp add: tile_keys_def block_threads_def items_per_thread_def)

text \<open>With fewer than \<open>2^42\<close> keys or not, the grid is never empty and never too large.\<close>

lemma grid_size_bounds:
  assumes "0 < n" and "n < 2 ^ 63"
  shows "0 < unat (grid_size n)" and "unat (grid_size n) \<le> 0x7fffffff"
    and "unat (grid_size n) = min ((n + 2047) div 2048) 0x7fffffff"
proof -
  let ?b = "(n + 2047) div 2048"
  have "grid_size n = word_of_nat (min ?b 0x7fffffff)"
    using assms by (simp add: grid_size_def tile_keys_eq Let_def min_def add.commute)
  moreover have "min ?b 0x7fffffff < (2::nat) ^ 32" by simp
  ultimately show *: "unat (grid_size n) = min ?b 0x7fffffff"
    by (simp add: unat_of_nat min_def)
  show "0 < unat (grid_size n)" using assms(1) by (simp add: * div_greater_zero_iff)
  show "unat (grid_size n) \<le> 0x7fffffff" by (simp add: *)
qed

end
