(* ===== verification/Theta_Kernel.thy ===== *)
theory Theta_Kernel
  imports Theta_Policy
begin

text \<open>
  \<^verbatim>\<open>detail/theta/screen.cuh\<close>: the CUDA kernel that hashes, screens and compacts the keys.
  The kernel is a transition system. A state holds the global output buffer and its atomic
  counter, the shared duplicate filter of every block, and the control state of every warp.
  A warp moves as one at the warp-wide primitives (\<^verbatim>\<open>__match_any_sync\<close>, the warp scan, the
  \<^verbatim>\<open>fetch_add\<close> with its \<^verbatim>\<open>__shfl_sync\<close>); the filter loads, the filter stores and the guarded
  output writes of its lanes are separate steps that interleave freely with every other
  lane, warp and block. The filter atomics are relaxed, so a load may observe any value the
  cell has held: a cell is the list of its values. A schedule resolves every choice, and
  \<open>screen_kernel\<close> runs the launch under a schedule.
\<close>

section \<open>Launch parameters and states\<close>

definition warp_width :: nat where "warp_width = 32"
definition block_warps :: nat where "block_warps = block_threads div warp_width"

record 'k launch =
  l_keys :: "'k list"
  l_hasher :: "'k \<Rightarrow> u64"
  l_theta :: u64
  l_capacity :: nat
  l_grid :: nat

text \<open>
  Control state of a warp: about to run item \<open>i\<close> of its tile; inside item \<open>i\<close> with the
  leader lanes that have yet to load their filter cell and those that have yet to store;
  after the last item; with output writes (index, hash) outstanding; out of the loop.
\<close>

datatype phase =
    Item nat
  | Lanes nat "nat list" "nat list"
  | Reserve
  | Write "(nat \<times> u64) list"
  | Done

record warp =
  w_block :: nat
  w_id :: nat
  w_base :: nat
  w_hashes :: "nat \<Rightarrow> nat \<Rightarrow> u64"
  w_phase :: phase

record kstate =
  k_out :: "u64 list"
  k_count :: nat
  k_filter :: "nat \<Rightarrow> nat \<Rightarrow> u64 list"
  k_warps :: "warp list"

section \<open>What a lane computes\<close>

definition stride :: "'k launch \<Rightarrow> nat" where
  "stride L = l_grid L * tile_keys"

definition lane_index :: "warp \<Rightarrow> nat \<Rightarrow> nat \<Rightarrow> nat" where
  "lane_index w i lane = w_base w + i * block_threads + (w_id w * warp_width + lane)"

definition lane_hash :: "'k launch \<Rightarrow> warp \<Rightarrow> nat \<Rightarrow> nat \<Rightarrow> u64" where
  "lane_hash L w i lane =
     (let idx = lane_index w i lane
      in if idx < length (l_keys L) then l_hasher L (l_keys L ! idx) else 0)"

definition survives :: "'k launch \<Rightarrow> warp \<Rightarrow> nat \<Rightarrow> nat \<Rightarrow> bool" where
  "survives L w i lane = screen_hash (l_theta L) (lane_hash L w i lane)"

definition match_value :: "'k launch \<Rightarrow> warp \<Rightarrow> nat \<Rightarrow> nat \<Rightarrow> u64" where
  "match_value L w i lane = (if survives L w i lane then lane_hash L w i lane else 0)"

text \<open>\<^verbatim>\<open>__match_any_sync\<close>: the lanes of the warp with the same value; \<^verbatim>\<open>__ffs\<close> picks the first.\<close>

definition peers :: "'k launch \<Rightarrow> warp \<Rightarrow> nat \<Rightarrow> nat \<Rightarrow> nat list" where
  "peers L w i lane =
     filter (\<lambda>m. match_value L w i m = match_value L w i lane) [0..<warp_width]"

definition leader :: "'k launch \<Rightarrow> warp \<Rightarrow> nat \<Rightarrow> nat \<Rightarrow> bool" where
  "leader L w i lane \<longleftrightarrow> survives L w i lane \<and> hd (peers L w i lane) = lane"

definition leaders :: "'k launch \<Rightarrow> warp \<Rightarrow> nat \<Rightarrow> nat list" where
  "leaders L w i = filter (leader L w i) [0..<warp_width]"

definition slot :: "u64 \<Rightarrow> nat" where
  "slot h = unat h mod filter_slots"

text \<open>The hashes a lane keeps in its register array, the count it scans, and its cursor.\<close>

definition kept :: "warp \<Rightarrow> nat \<Rightarrow> nat \<Rightarrow> u64 list" where
  "kept w n lane = filter (\<lambda>h. h \<noteq> 0) (map (w_hashes w lane) [0..<n])"

definition mine :: "warp \<Rightarrow> nat \<Rightarrow> nat" where
  "mine w lane = length (kept w items_per_thread lane)"

definition scan :: "warp \<Rightarrow> nat \<Rightarrow> nat" where
  "scan w lane = (\<Sum>m < lane. mine w m)"

definition warp_total :: "warp \<Rightarrow> nat" where
  "warp_total w = (\<Sum>m < warp_width. mine w m)"

definition lane_writes :: "warp \<Rightarrow> nat \<Rightarrow> nat \<Rightarrow> (nat \<times> u64) list" where
  "lane_writes w warp_base lane =
     (let ks = kept w items_per_thread lane; cursor = warp_base + scan w lane
      in zip [cursor ..< cursor + length ks] ks)"

definition warp_writes :: "warp \<Rightarrow> nat \<Rightarrow> (nat \<times> u64) list" where
  "warp_writes w warp_base = concat (map (lane_writes w warp_base) [0..<warp_width])"

section \<open>Steps\<close>

text \<open>The next turn of the grid-stride loop.\<close>

definition next_tile :: "'k launch \<Rightarrow> warp \<Rightarrow> warp" where
  "next_tile L w =
     (let b = w_base w + stride L
      in w\<lparr>w_base := b, w_phase := (if b < length (l_keys L) then Item 0 else Done)\<rparr>)"

datatype event =
    Warp_step nat
  | Load nat nat u64
  | Store nat nat
  | Put nat nat

definition enabled_warp :: "'k launch \<Rightarrow> kstate \<Rightarrow> nat \<Rightarrow> event list" where
  "enabled_warp L st k =
     (let w = k_warps st ! k in
      case w_phase w of
        Item i \<Rightarrow> [Warp_step k]
      | Lanes i to_load to_store \<Rightarrow>
          (if to_load = [] \<and> to_store = [] then [Warp_step k]
           else concat (map (\<lambda>lane. map (Load k lane)
                    (k_filter st (w_block w) (slot (lane_hash L w i lane)))) to_load)
             @ map (Store k) to_store)
      | Reserve \<Rightarrow> [Warp_step k]
      | Write ws \<Rightarrow> (if ws = [] then [Warp_step k] else map (Put k) [0..<length ws])
      | Done \<Rightarrow> [])"

definition enabled :: "'k launch \<Rightarrow> kstate \<Rightarrow> event list" where
  "enabled L st = concat (map (enabled_warp L st) [0..<length (k_warps st)])"

definition set_warp :: "kstate \<Rightarrow> nat \<Rightarrow> warp \<Rightarrow> kstate" where
  "set_warp st k w = st\<lparr>k_warps := (k_warps st)[k := w]\<rparr>"

text \<open>
  A warp-wide step. Item \<open>i\<close> clears \<open>hashes[i]\<close> of every lane and elects the leaders; when
  the leaders are through, the next item starts, or after the last one the scan; with a
  zero total the warp goes on to its next tile, else lane 0 adds the total to the global
  counter and the lanes write from the old value on.
\<close>

definition warp_step :: "'k launch \<Rightarrow> kstate \<Rightarrow> nat \<Rightarrow> kstate" where
  "warp_step L st k =
     (let w = k_warps st ! k in
      case w_phase w of
        Item i \<Rightarrow>
          set_warp st k
            (w\<lparr>w_hashes := (\<lambda>lane j. if j = i then 0 else w_hashes w lane j),
               w_phase := Lanes i (leaders L w i) []\<rparr>)
      | Lanes i to_load to_store \<Rightarrow>
          set_warp st k
            (w\<lparr>w_phase := (if i + 1 < items_per_thread then Item (i + 1) else Reserve)\<rparr>)
      | Reserve \<Rightarrow>
          (if warp_total w = 0 then set_warp st k (next_tile L w)
           else set_warp (st\<lparr>k_count := k_count st + warp_total w\<rparr>) k
                  (w\<lparr>w_phase := Write (warp_writes w (k_count st))\<rparr>))
      | Write ws \<Rightarrow> set_warp st k (next_tile L w)
      | Done \<Rightarrow> st)"

text \<open>A leader that observes its own hash is done; another one goes on to store.\<close>

definition load_step :: "'k launch \<Rightarrow> kstate \<Rightarrow> nat \<Rightarrow> nat \<Rightarrow> u64 \<Rightarrow> kstate" where
  "load_step L st k lane seen =
     (let w = k_warps st ! k in
      case w_phase w of
        Lanes i to_load to_store \<Rightarrow>
          set_warp st k
            (w\<lparr>w_phase := Lanes i (remove1 lane to_load)
                 (if seen \<noteq> lane_hash L w i lane then to_store @ [lane] else to_store)\<rparr>)
      | _ \<Rightarrow> st)"

definition store_step :: "'k launch \<Rightarrow> kstate \<Rightarrow> nat \<Rightarrow> nat \<Rightarrow> kstate" where
  "store_step L st k lane =
     (let w = k_warps st ! k in
      case w_phase w of
        Lanes i to_load to_store \<Rightarrow>
          (let h = lane_hash L w i lane; b = w_block w; s = slot h in
           set_warp
             (st\<lparr>k_filter := (k_filter st)(b := (k_filter st b)(s := h # k_filter st b s))\<rparr>) k
             (w\<lparr>w_hashes := (w_hashes w)(lane := (w_hashes w lane)(i := h)),
                w_phase := Lanes i to_load (remove1 lane to_store)\<rparr>))
      | _ \<Rightarrow> st)"

definition put_step :: "'k launch \<Rightarrow> kstate \<Rightarrow> nat \<Rightarrow> nat \<Rightarrow> kstate" where
  "put_step L st k n =
     (let w = k_warps st ! k in
      case w_phase w of
        Write ws \<Rightarrow>
          (let (cursor, h) = ws ! n in
           set_warp
             (if cursor < l_capacity L then st\<lparr>k_out := (k_out st)[cursor := h]\<rparr> else st) k
             (w\<lparr>w_phase := Write (take n ws @ drop (Suc n) ws)\<rparr>))
      | _ \<Rightarrow> st)"

fun apply_event :: "'k launch \<Rightarrow> kstate \<Rightarrow> event \<Rightarrow> kstate" where
  "apply_event L st (Warp_step k) = warp_step L st k"
| "apply_event L st (Load k lane seen) = load_step L st k lane seen"
| "apply_event L st (Store k lane) = store_step L st k lane"
| "apply_event L st (Put k n) = put_step L st k n"

text \<open>The step relation: any enabled event may be next.\<close>

inductive kstep :: "'k launch \<Rightarrow> kstate \<Rightarrow> kstate \<Rightarrow> bool" for L where
  fire: "ev \<in> set (enabled L st) \<Longrightarrow> kstep L st (apply_event L st ev)"

section \<open>Initial states\<close>

text \<open>
  After the barrier that follows the clearing of the filter, every cell holds zero and each
  warp of block \<open>b\<close> enters the loop at \<open>base = b * tile_keys\<close>, if that is inside the input.
\<close>

definition init_warp :: "'k launch \<Rightarrow> nat \<Rightarrow> nat \<Rightarrow> warp" where
  "init_warp L b wid =
     \<lparr>w_block = b, w_id = wid, w_base = b * tile_keys, w_hashes = (\<lambda>_ _. 0),
      w_phase = (if b * tile_keys < length (l_keys L) then Item 0 else Done)\<rparr>"

definition init_kstate :: "'k launch \<Rightarrow> u64 list \<Rightarrow> kstate" where
  "init_kstate L out =
     \<lparr>k_out = out, k_count = 0, k_filter = (\<lambda>_ _. [0]),
      k_warps = concat (map (\<lambda>b. map (init_warp L b) [0..<block_warps]) [0..<l_grid L])\<rparr>"

text \<open>The loop that clears the filter: thread \<open>t\<close> of the block takes slots \<open>t, t + 256, \<dots>\<close>.\<close>

definition cleared_by :: "nat \<Rightarrow> nat list" where
  "cleared_by t = map (\<lambda>n. t + n * block_threads)
     [0..<(filter_slots - t + block_threads - 1) div block_threads]"

end
