(* ===== verification/Theta_Screen.thy ===== *)
theory Theta_Screen
  imports Theta_Kernel
begin

text \<open>
  Correctness of the screen kernel for every schedule: the grid-stride loop gives every key
  to exactly one lane of one item, the duplicate filters drop a hash only while another
  copy of it is still on its way out, and the reserved output runs are disjoint. The
  invariant \<open>kinv\<close> says so for a state in the middle of a launch, and is kept by every
  event. \<open>krank\<close> falls with every event, and a state without events has every warp out of
  its loop, so each launch ends, with the survivors in the output.
\<close>

section \<open>Geometry: which keys a warp is responsible for\<close>

definition owns :: "'k launch \<Rightarrow> warp \<Rightarrow> nat \<Rightarrow> bool" where
  "owns L w idx \<longleftrightarrow> (idx div tile_keys) mod l_grid L = w_block w
     \<and> (idx mod block_threads) div warp_width = w_id w"

definition base_ok :: "'k launch \<Rightarrow> warp \<Rightarrow> bool" where
  "base_ok L w \<longleftrightarrow> w_block w < l_grid L \<and> w_id w < block_warps
     \<and> (\<exists>t. w_base w = (w_block w + t * l_grid L) * tile_keys)"

lemmas geometry_defs = tile_keys_eq block_threads_def items_per_thread_def warp_width_def
  block_warps_def

lemma lane_index_owned:
  assumes "base_ok L w" and "i < items_per_thread" and "lane < warp_width"
  shows "owns L w (lane_index w i lane)"
proof -
  from assms(1) obtain t where t: "w_base w = (w_block w + t * l_grid L) * 2048"
    and w: "w_block w < l_grid L" "w_id w < 8"
    by (auto simp: base_ok_def geometry_defs)
  let ?r = "w_id w * 32 + lane"
  have r: "?r < 256" using w(2) assms(3) by (simp add: warp_width_def)
  have idx: "lane_index w i lane = (w_block w + t * l_grid L) * 2048 + (i * 256 + ?r)"
    by (simp add: lane_index_def t geometry_defs)
  have off: "i * 256 + ?r < 2048" using assms(2) r by (simp add: items_per_thread_def)
  have "lane_index w i lane div 2048 = w_block w + t * l_grid L"
    unfolding idx using off by simp
  moreover have "lane_index w i lane mod 256 = ?r"
  proof -
    have "lane_index w i lane = ((w_block w + t * l_grid L) * 8 + i) * 256 + ?r"
      by (simp add: idx)
    then show ?thesis using r by (metis mod_less mod_mult_self3)
  qed
  ultimately show ?thesis
    using w assms(3) by (simp add: owns_def geometry_defs)
qed

lemma lane_index_range:
  assumes "w_id w < block_warps" and "lane < warp_width"
  shows "w_base w + i * block_threads \<le> lane_index w i lane"
    and "lane_index w i lane < w_base w + (i + 1) * block_threads"
  using assms by (auto simp: lane_index_def geometry_defs)

lemma owned_is_lane:
  assumes "base_ok L w" and "owns L w idx" and "i < items_per_thread"
    and "w_base w + i * block_threads \<le> idx" and "idx < w_base w + (i + 1) * block_threads"
  shows "\<exists>lane < warp_width. idx = lane_index w i lane"
proof -
  from assms(1) obtain t where t: "w_base w = (w_block w + t * l_grid L) * 2048"
    by (auto simp: base_ok_def geometry_defs)
  define r where "r = idx - (w_base w + i * 256)"
  have r: "r < 256" and idx: "idx = ((w_block w + t * l_grid L) * 8 + i) * 256 + r"
    using assms(4,5) by (auto simp: r_def t block_threads_def)
  have "idx mod 256 = r" unfolding idx using r by (metis mod_less mod_mult_self3)
  then have "r div 32 = w_id w" using assms(2) by (simp add: owns_def geometry_defs)
  then have "r = w_id w * 32 + r mod 32" by (metis div_mult_mod_eq)
  moreover have "idx = w_base w + i * 256 + r" using idx by (simp add: t)
  ultimately have "idx = lane_index w i (r mod 32)"
    by (simp add: lane_index_def geometry_defs)
  then show ?thesis by (intro exI [of _ "r mod 32"]) (simp add: warp_width_def)
qed

text \<open>Between the end of a tile and the next tile of the same block, a warp owns nothing.\<close>

lemma owned_gap:
  assumes "base_ok L w" and "owns L w idx" and "w_base w + tile_keys \<le> idx"
  shows "w_base w + stride L \<le> idx"
proof -
  from assms(1) obtain t where t: "w_base w = (w_block w + t * l_grid L) * tile_keys"
    and b: "w_block w < l_grid L"
    by (auto simp: base_ok_def)
  let ?B = "w_block w + t * l_grid L" and ?C = "idx div tile_keys"
  have pos: "0 < tile_keys" by (simp add: tile_keys_eq)
  have "(?B + 1) * tile_keys \<le> idx" using assms(3) t by simp
  then have "?B + 1 \<le> ?C" using pos by (simp add: less_eq_div_iff_mult_less_eq)
  moreover have "?C mod l_grid L = ?B mod l_grid L"
    using assms(2) b by (simp add: owns_def)
  ultimately have "l_grid L \<le> ?C - ?B"
    by (metis Suc_eq_plus1 Suc_le_lessD dvd_imp_le mod_eq_dvd_iff_nat less_imp_le zero_less_diff)
  with \<open>?B + 1 \<le> ?C\<close> have "?B + l_grid L \<le> ?C" by simp
  then have "(?B + l_grid L) * tile_keys \<le> idx"
    using pos by (simp add: less_eq_div_iff_mult_less_eq)
  then show ?thesis by (simp add: t stride_def algebra_simps)
qed

lemma base_ok_next_tile: "base_ok L w \<Longrightarrow> base_ok L (next_tile L w)"
proof -
  assume "base_ok L w"
  then obtain t where "w_base w = (w_block w + t * l_grid L) * tile_keys"
    and "w_block w < l_grid L" "w_id w < block_warps" by (auto simp: base_ok_def)
  then show ?thesis
    by (auto simp: base_ok_def next_tile_def Let_def stride_def algebra_simps intro!: exI [of _ "Suc t"])
qed

section \<open>The hashes a warp is still responsible for\<close>

fun done_items :: "phase \<Rightarrow> nat" where
  "done_items (Item i) = i"
| "done_items (Lanes i to_load to_store) = i + 1"
| "done_items Reserve = items_per_thread"
| "done_items (Write ws) = items_per_thread"
| "done_items Done = 0"

fun kept_items :: "phase \<Rightarrow> nat" where
  "kept_items (Item i) = i"
| "kept_items (Lanes i to_load to_store) = i + 1"
| "kept_items Reserve = items_per_thread"
| "kept_items (Write ws) = 0"
| "kept_items Done = 0"

definition idx_hash :: "'k launch \<Rightarrow> nat \<Rightarrow> u64" where
  "idx_hash L idx = l_hasher L (l_keys L ! idx)"

definition surv_idx :: "'k launch \<Rightarrow> nat set" where
  "surv_idx L = {idx. idx < length (l_keys L) \<and> screen_hash (l_theta L) (idx_hash L idx)}"

definition survivors :: "'k launch \<Rightarrow> u64 multiset" where
  "survivors L = image_mset (idx_hash L) (mset_set (surv_idx L))"

definition owned_from :: "'k launch \<Rightarrow> warp \<Rightarrow> nat \<Rightarrow> nat set" where
  "owned_from L w n = {idx \<in> surv_idx L. owns L w idx \<and> n \<le> idx}"

definition todo :: "'k launch \<Rightarrow> warp \<Rightarrow> u64 multiset" where
  "todo L w = image_mset (idx_hash L)
     (mset_set (owned_from L w (w_base w + done_items (w_phase w) * block_threads)))"

fun pending :: "'k launch \<Rightarrow> warp \<Rightarrow> phase \<Rightarrow> u64 multiset" where
  "pending L w (Lanes i to_load to_store) = mset (map (lane_hash L w i) (to_load @ to_store))"
| "pending L w _ = {#}"

definition kept_all :: "warp \<Rightarrow> nat \<Rightarrow> u64 list" where
  "kept_all w n = concat (map (kept w n) [0..<warp_width])"

definition held :: "warp \<Rightarrow> u64 multiset" where
  "held w = mset (kept_all w (kept_items (w_phase w)))"

definition load :: "'k launch \<Rightarrow> warp \<Rightarrow> u64 multiset" where
  "load L w = held w + pending L w (w_phase w) + todo L w"

lemma finite_surv_idx [simp]: "finite (surv_idx L)"
  by (simp add: surv_idx_def)

lemma finite_owned_from [simp]: "finite (owned_from L w n)"
  by (simp add: owned_from_def)

lemma survivors_mset:
  "survivors L = mset (filter (screen_hash (l_theta L)) (map (l_hasher L) (l_keys L)))"
proof -
  let ?P = "\<lambda>idx. screen_hash (l_theta L) (idx_hash L idx)"
  have "surv_idx L = set (filter ?P [0..<length (l_keys L)])"
    by (auto simp: surv_idx_def)
  then have "survivors L = mset (map (idx_hash L) (filter ?P [0..<length (l_keys L)]))"
    unfolding survivors_def by (simp only: mset_map mset_set_set distinct_filter distinct_upt)
  also have "map (idx_hash L) (filter ?P [0..<length (l_keys L)])
      = filter (screen_hash (l_theta L)) (map (idx_hash L) [0..<length (l_keys L)])"
    by (simp add: filter_map comp_def)
  also have "map (idx_hash L) [0..<length (l_keys L)] = map (l_hasher L) (l_keys L)"
    by (rule nth_equalityI) (simp_all add: idx_hash_def)
  finally show ?thesis .
qed

lemma survives_iff:
  "survives L w i lane \<longleftrightarrow> lane_index w i lane \<in> surv_idx L"
  by (auto simp: survives_def lane_hash_def surv_idx_def idx_hash_def Let_def screen_hash_def)

lemma survives_hash:
  "survives L w i lane \<Longrightarrow> lane_hash L w i lane = idx_hash L (lane_index w i lane)
     \<and> lane_hash L w i lane \<noteq> 0"
  by (auto simp: survives_iff surv_idx_def lane_hash_def idx_hash_def screen_hash_def)

lemma inj_lane_index: "inj_on (lane_index w i) A"
  by (auto simp: inj_on_def lane_index_def)

text \<open>One item of a tile takes exactly the surviving lanes' keys off the warp's list.\<close>

lemma todo_item:
  assumes "base_ok L w" and "i < items_per_thread"
  shows "image_mset (idx_hash L) (mset_set (owned_from L w (w_base w + i * block_threads))) =
    image_mset (idx_hash L) (mset_set (owned_from L w (w_base w + (i + 1) * block_threads))) +
    image_mset (lane_hash L w i) (mset_set {lane \<in> {..<warp_width}. survives L w i lane})"
proof -
  let ?A = "{lane \<in> {..<warp_width}. survives L w i lane}"
  let ?F = "\<lambda>n. owned_from L w (w_base w + n * block_threads)"
  from assms(1) have id: "w_id w < block_warps" by (simp add: base_ok_def)
  have split: "?F i = ?F (i + 1) \<union> lane_index w i ` ?A"
  proof (intro set_eqI iffI)
    fix idx assume idx: "idx \<in> ?F i"
    show "idx \<in> ?F (i + 1) \<union> lane_index w i ` ?A"
    proof (cases "w_base w + (i + 1) * block_threads \<le> idx")
      case True
      with idx show ?thesis by (simp add: owned_from_def)
    next
      case False
      with idx owned_is_lane [OF assms(1) _ assms(2), of idx] obtain lane
        where "lane < warp_width" "idx = lane_index w i lane"
        by (auto simp: owned_from_def)
      with idx show ?thesis by (auto simp: owned_from_def survives_iff)
    qed
  next
    fix idx assume "idx \<in> ?F (i + 1) \<union> lane_index w i ` ?A"
    then show "idx \<in> ?F i"
      using lane_index_owned [OF assms] lane_index_range(1) [OF id]
      by (auto simp: owned_from_def survives_iff)
  qed
  have disj: "?F (i + 1) \<inter> lane_index w i ` ?A = {}"
  proof -
    have "\<not> w_base w + (i + 1) * block_threads \<le> lane_index w i lane"
      if "lane < warp_width" for lane
      using lane_index_range(2) [OF id that, of i] by simp
    then show ?thesis by (auto simp: owned_from_def)
  qed
  have "image_mset (idx_hash L) (mset_set (lane_index w i ` ?A))
      = image_mset (lane_hash L w i) (mset_set ?A)"
    by (auto simp: image_mset_mset_set [OF inj_lane_index, symmetric] multiset.map_comp
        intro!: image_mset_cong simp: survives_hash [THEN conjunct1])
  moreover have "mset_set (?F (i + 1) \<union> lane_index w i ` ?A)
      = mset_set (?F (i + 1)) + mset_set (lane_index w i ` ?A)"
    by (rule mset_set_Union) (use disj in auto)
  ultimately show ?thesis
    unfolding split by (simp only: image_mset_union)
qed

lemma leaders_survive: "lane \<in> set (leaders L w i) \<Longrightarrow> lane < warp_width \<and> survives L w i lane"
  by (auto simp: leaders_def leader_def)

lemma distinct_leaders: "distinct (leaders L w i)"
  by (simp add: leaders_def)

text \<open>Every surviving hash of the warp has a leader with the same hash.\<close>

lemma leader_exists:
  assumes "survives L w i lane" and "lane < warp_width"
  shows "\<exists>l \<in> set (leaders L w i). lane_hash L w i l = lane_hash L w i lane"
proof -
  let ?ps = "peers L w i lane" let ?l = "hd ?ps"
  have "lane \<in> set ?ps" using assms(2) by (simp add: peers_def)
  then have l: "?l \<in> set ?ps" by (metis empty_iff empty_set hd_in_set)
  then have mv: "match_value L w i ?l = match_value L w i lane" and "?l < warp_width"
    by (auto simp: peers_def)
  have "lane_hash L w i lane \<noteq> 0" using assms(1) survives_hash by blast
  then have sl: "survives L w i ?l" and eq: "lane_hash L w i ?l = lane_hash L w i lane"
    using mv assms(1) by (auto simp: match_value_def split: if_splits)
  have "peers L w i ?l = ?ps" using mv by (simp add: peers_def)
  then have "?l \<in> set (leaders L w i)"
    using sl \<open>?l < warp_width\<close> by (simp add: leaders_def leader_def)
  with eq show ?thesis by blast
qed

lemma leaders_mset:
  "mset (map (lane_hash L w i) (leaders L w i)) \<subseteq>#
     image_mset (lane_hash L w i) (mset_set {lane \<in> {..<warp_width}. survives L w i lane})"
proof -
  have "mset_set (set (leaders L w i)) \<subseteq># mset_set {lane \<in> {..<warp_width}. survives L w i lane}"
    using leaders_survive by (intro subset_imp_msubset_mset_set) auto
  then show ?thesis
    by (simp add: image_mset_subseteq_mono mset_set_set distinct_leaders)
qed

lemma leaders_cover:
  "h \<in># image_mset (lane_hash L w i) (mset_set {lane \<in> {..<warp_width}. survives L w i lane})
   \<Longrightarrow> h \<in># mset (map (lane_hash L w i) (leaders L w i))"
proof -
  assume "h \<in># image_mset (lane_hash L w i) (mset_set {lane \<in> {..<warp_width}. survives L w i lane})"
  then obtain lane where "lane < warp_width" "survives L w i lane" "h = lane_hash L w i lane"
    by auto
  with leader_exists [of L w i lane] obtain l
    where "l \<in> set (leaders L w i)" "lane_hash L w i l = h" by auto
  then show ?thesis by auto
qed

section \<open>The invariant of the launch\<close>

fun writes :: "phase \<Rightarrow> (nat \<times> u64) list" where
  "writes (Write ws) = ws"
| "writes _ = []"

text \<open>
  What a warp's control state says about its data: a base of the right form, an item in
  range, leaders that are distinct surviving lanes whose register is still clear, and an
  exhausted input at the end.
\<close>

definition wf_warp :: "'k launch \<Rightarrow> warp \<Rightarrow> bool" where
  "wf_warp L w \<longleftrightarrow> base_ok L w \<and>
     (case w_phase w of
        Item i \<Rightarrow> i < items_per_thread
      | Lanes i to_load to_store \<Rightarrow>
          i < items_per_thread \<and> distinct (to_load @ to_store) \<and>
          (\<forall>lane \<in> set (to_load @ to_store).
             lane < warp_width \<and> survives L w i lane \<and> w_hashes w lane i = 0)
      | Reserve \<Rightarrow> True
      | Write ws \<Rightarrow> True
      | Done \<Rightarrow> length (l_keys L) \<le> w_base w)"

definition live :: "'k launch \<Rightarrow> warp list \<Rightarrow> u64 multiset" where
  "live L ws = sum_list (map (load L) ws)"

definition held_all :: "warp list \<Rightarrow> u64 multiset" where
  "held_all ws = sum_list (map held ws)"

text \<open>
  \<open>R\<close> lists the hashes for which output positions have been reserved.
  \<open>accounted\<close>: nothing is emitted that did not survive, and nothing that survived is lost,
  it is reserved or a warp is still responsible for it. \<open>filter_ok\<close>: a nonzero value in a
  filter cell is reserved or held by a warp. \<open>writes_ok\<close>: an outstanding write is the one
  its position was reserved for, and a reserved position below the capacity holds its hash
  or has its write outstanding.
\<close>

definition accounted :: "'k launch \<Rightarrow> u64 list \<Rightarrow> warp list \<Rightarrow> bool" where
  "accounted L R ws \<longleftrightarrow> mset R + live L ws \<subseteq># survivors L
     \<and> (\<forall>h. h \<in># survivors L \<longrightarrow> h \<in># mset R + live L ws)"

definition filter_ok :: "u64 list \<Rightarrow> warp list \<Rightarrow> (nat \<Rightarrow> nat \<Rightarrow> u64 list) \<Rightarrow> bool" where
  "filter_ok R ws filt \<longleftrightarrow>
     (\<forall>b s v. v \<in> set (filt b s) \<longrightarrow> v \<noteq> 0 \<longrightarrow> v \<in># mset R + held_all ws)"

definition outstanding :: "warp list \<Rightarrow> (nat \<times> u64) set" where
  "outstanding ws = (\<Union>w \<in> set ws. set (writes (w_phase w)))"

definition writes_ok :: "'k launch \<Rightarrow> u64 list \<Rightarrow> warp list \<Rightarrow> u64 list \<Rightarrow> bool" where
  "writes_ok L R ws out \<longleftrightarrow> length out = l_capacity L \<and>
     (\<forall>j h. (j, h) \<in> outstanding ws \<longrightarrow> j < length R \<and> R ! j = h) \<and>
     (\<forall>j < length R. j < l_capacity L \<longrightarrow> out ! j = R ! j \<or> (j, R ! j) \<in> outstanding ws)"

definition warps_ok :: "'k launch \<Rightarrow> warp list \<Rightarrow> bool" where
  "warps_ok L ws \<longleftrightarrow> (\<forall>w \<in> set ws. wf_warp L w)"

definition kinv :: "'k launch \<Rightarrow> u64 list \<Rightarrow> kstate \<Rightarrow> bool" where
  "kinv L R st \<longleftrightarrow> warps_ok L (k_warps st) \<and> k_count st = length R
     \<and> accounted L R (k_warps st) \<and> filter_ok R (k_warps st) (k_filter st)
     \<and> writes_ok L R (k_warps st) (k_out st)"

lemma live_update:
  "k < length ws \<Longrightarrow> live L (ws[k := w']) + load L (ws ! k) = live L ws + load L w'"
  unfolding live_def by (rule sum_list_update_mset)

lemma held_all_update:
  "k < length ws \<Longrightarrow> held_all (ws[k := w']) + held (ws ! k) = held_all ws + held w'"
  unfolding held_all_def by (rule sum_list_update_mset)

lemma held_all_subset_live: "held_all ws \<subseteq># live L ws"
proof (induction ws)
  case (Cons w ws)
  have "held w \<subseteq># load L w" by (simp add: load_def add.assoc)
  with Cons show ?case by (simp add: held_all_def live_def subset_mset.add_mono)
qed (simp add: held_all_def)

lemma load_subset_live: "w \<in> set ws \<Longrightarrow> load L w \<subseteq># live L ws"
  by (induction ws) (auto simp: live_def intro: subset_mset.add_increasing)

lemma warps_ok_update: "warps_ok L ws \<Longrightarrow> wf_warp L w' \<Longrightarrow> warps_ok L (ws[k := w'])"
  using set_update_subset_insert [of ws k w'] by (auto simp: warps_ok_def)

lemma outstanding_update_same:
  assumes "k < length ws" and "writes (w_phase w') = writes (w_phase (ws ! k))"
  shows "outstanding (ws[k := w']) = outstanding ws"
proof -
  have "map (\<lambda>w. set (writes (w_phase w))) (ws[k := w']) = map (\<lambda>w. set (writes (w_phase w))) ws"
    using assms by (simp add: map_update list_update_same_conv)
  then have "set (map (\<lambda>w. set (writes (w_phase w))) (ws[k := w']))
      = set (map (\<lambda>w. set (writes (w_phase w))) ws)"
    by simp
  then show ?thesis by (simp add: outstanding_def)
qed

text \<open>
  A warp may hand over part of what it is responsible for, as long as every hash it gives
  up is still reserved or held.
\<close>

lemma accounted_update:
  assumes acc: "accounted L R ws" and k: "k < length ws" and w: "w = ws ! k"
    and held: "held w' = held w" and sub: "load L w' \<subseteq># load L w"
    and cov: "\<And>h. h \<in># load L w \<Longrightarrow> h \<in># load L w' \<or> h \<in># mset R + held_all ws"
  shows "accounted L R (ws[k := w'])"
proof -
  let ?ws' = "ws[k := w']"
  have lu: "live L ?ws' + load L w = live L ws + load L w'"
    using live_update [OF k] w by simp
  have hu: "held_all ?ws' = held_all ws"
    using held_all_update [OF k, of w'] w held by simp
  have "live L ?ws' + load L w \<subseteq># live L ws + load L w"
    unfolding lu using sub by simp
  then have "live L ?ws' \<subseteq># live L ws" by simp
  then have sub': "mset R + live L ?ws' \<subseteq># survivors L"
    using acc by (auto simp: accounted_def intro: subset_mset.order_trans subset_mset.add_left_mono)
  have still: "h \<in># mset R + live L ?ws'" if "h \<in># live L ws" for h
  proof -
    from that have "h \<in># live L ?ws' + load L w" unfolding lu by simp
    then have "h \<in># live L ?ws' \<or> h \<in># load L w' \<or> h \<in># mset R + held_all ws"
      using cov by auto
    moreover have "load L w' \<subseteq># live L ?ws'"
      using k by (intro load_subset_live) (simp add: set_update_memI)
    moreover have "held_all ws \<subseteq># live L ?ws'"
      using held_all_subset_live [of ?ws' L] hu by simp
    ultimately show ?thesis by (auto dest: mset_subset_eqD)
  qed
  then show ?thesis
    using acc sub' unfolding accounted_def by (metis union_iff)
qed

lemma kinv_set_warp:
  assumes inv: "kinv L R st" and k: "k < length (k_warps st)" and w: "w = k_warps st ! k"
    and wf: "wf_warp L w'" and held: "held w' = held w"
    and wr: "writes (w_phase w') = writes (w_phase w)"
    and sub: "load L w' \<subseteq># load L w"
    and cov: "\<And>h. h \<in># load L w \<Longrightarrow> h \<in># load L w' \<or> h \<in># mset R + held_all (k_warps st)"
  shows "kinv L R (set_warp st k w')"
proof -
  have "held_all ((k_warps st)[k := w']) = held_all (k_warps st)"
    using held_all_update [OF k, of w'] w held by simp
  moreover have "outstanding ((k_warps st)[k := w']) = outstanding (k_warps st)"
    using outstanding_update_same [OF k] wr w by simp
  moreover have "accounted L R ((k_warps st)[k := w'])"
    by (rule accounted_update [OF _ k w held sub cov]) (use inv in \<open>auto simp: kinv_def\<close>)
  ultimately show ?thesis
    using inv warps_ok_update [OF _ wf]
    by (simp add: kinv_def set_warp_def filter_ok_def writes_ok_def)
qed

section \<open>Every step keeps the invariant\<close>

text \<open>What a lane reads does not depend on the registers or the control state.\<close>

lemma lane_hash_update [simp]:
  "lane_hash L (w\<lparr>w_hashes := x\<rparr>) = lane_hash L w" "lane_hash L (w\<lparr>w_phase := p\<rparr>) = lane_hash L w"
  by (simp_all add: fun_eq_iff lane_hash_def lane_index_def)

lemma survives_update [simp]:
  "survives L (w\<lparr>w_hashes := x\<rparr>) = survives L w" "survives L (w\<lparr>w_phase := p\<rparr>) = survives L w"
  by (simp_all add: fun_eq_iff survives_def)

lemma owned_from_update [simp]:
  "owned_from L (w\<lparr>w_hashes := x\<rparr>) = owned_from L w" "owned_from L (w\<lparr>w_phase := p\<rparr>) = owned_from L w"
  "owned_from L (w\<lparr>w_base := b\<rparr>) = owned_from L w"
  by (simp_all add: fun_eq_iff owned_from_def owns_def)

lemma base_ok_update [simp]:
  "base_ok L (w\<lparr>w_hashes := x\<rparr>) = base_ok L w" "base_ok L (w\<lparr>w_phase := p\<rparr>) = base_ok L w"
  by (simp_all add: base_ok_def)

lemma kept_update [simp]: "kept (w\<lparr>w_phase := p\<rparr>) = kept w"
  by (simp add: fun_eq_iff kept_def)

lemma kept_all_update [simp]: "kept_all (w\<lparr>w_phase := p\<rparr>) n = kept_all w n"
  by (simp add: kept_all_def)

lemma mset_kept_all: "mset (kept_all w n) = (\<Sum>lane < warp_width. mset (kept w n lane))"
proof -
  have "mset (concat (map (kept w n) [0..<m])) = (\<Sum>lane < m. mset (kept w n lane))" for m
    by (induction m) auto
  then show ?thesis by (simp add: kept_all_def)
qed

lemma item_step:
  assumes inv: "kinv L R st" and k: "k < length (k_warps st)" and w: "w = k_warps st ! k"
    and ph: "w_phase w = Item i"
  shows "kinv L R (warp_step L st k)"
proof -
  let ?w' = "w\<lparr>w_hashes := (\<lambda>lane j. if j = i then 0 else w_hashes w lane j),
      w_phase := Lanes i (leaders L w i) []\<rparr>"
  have wf: "wf_warp L w" using inv k w by (auto simp: kinv_def warps_ok_def)
  then have i: "i < items_per_thread" and base: "base_ok L w" by (auto simp: wf_warp_def ph)
  have kept: "kept ?w' (i + 1) lane = kept w i lane" for lane
  proof -
    have "kept ?w' (i + 1) lane
        = filter (\<lambda>h. h \<noteq> 0) (map (\<lambda>j. if j = i then 0 else w_hashes w lane j) [0..<i])"
      by (simp add: kept_def)
    also have "map (\<lambda>j. if j = i then 0 else w_hashes w lane j) [0..<i] = map (w_hashes w lane) [0..<i]"
      by simp
    finally show ?thesis by (simp only: kept_def)
  qed
  have held: "held ?w' = held w"
    by (simp add: held_def ph mset_kept_all kept [simplified])
  have todo: "todo L w = todo L ?w' + image_mset (lane_hash L w i)
      (mset_set {lane \<in> {..<warp_width}. survives L w i lane})"
    using todo_item [OF base i] by (simp add: todo_def ph)
  have eq: "warp_step L st k = set_warp st k ?w'"
    using ph w [symmetric] by (simp add: warp_step_def Let_def)
  show ?thesis
    unfolding eq
  proof (rule kinv_set_warp [OF inv k w _ held])
    show "wf_warp L ?w'"
      using i base by (simp add: wf_warp_def distinct_leaders) (blast dest: leaders_survive)
    show "load L ?w' \<subseteq># load L w"
      using leaders_mset [of L w i] by (simp add: load_def held todo ph)
    show "h \<in># load L ?w' \<or> h \<in># mset R + held_all (k_warps st)" if "h \<in># load L w" for h
      using that leaders_cover [of h L w i] by (auto simp: load_def held todo ph)
  qed (simp add: ph)
qed

lemma lanes_done_step:
  assumes inv: "kinv L R st" and k: "k < length (k_warps st)" and w: "w = k_warps st ! k"
    and ph: "w_phase w = Lanes i [] []"
  shows "kinv L R (warp_step L st k)"
proof -
  let ?p = "if i + 1 < items_per_thread then Item (i + 1) else Reserve"
  let ?w' = "w\<lparr>w_phase := ?p\<rparr>"
  have "wf_warp L w" using inv k w by (auto simp: kinv_def warps_ok_def)
  then have i: "i < items_per_thread" and base: "base_ok L w" by (auto simp: wf_warp_def ph)
  then have n: "kept_items ?p = i + 1" "done_items ?p = i + 1" by auto
  have held: "held ?w' = held w"
    using n(1) by (simp only: held_def kept_all_update warp.simps) (simp add: ph)
  have "pending L ?w' ?p = {#}" by simp
  then have "load L ?w' = load L w"
    using n(2) by (simp only: load_def held todo_def warp.simps) (simp add: ph)
  moreover have wf': "wf_warp L ?w'" and wr: "writes (w_phase ?w') = writes (w_phase w)"
    using base i by (auto simp: wf_warp_def ph)
  moreover have eq: "warp_step L st k = set_warp st k ?w'"
    using ph w [symmetric] by (simp add: warp_step_def Let_def)
  ultimately show ?thesis
    unfolding eq by (intro kinv_set_warp [OF inv k w wf' held wr]) (simp_all only: subset_mset.order_refl simp_thms)
qed

text \<open>Taking an element out of the middle of a list.\<close>

lemma mset_map_remove1: "x \<in> set xs \<Longrightarrow> mset (map f xs) = add_mset (f x) (mset (map f (remove1 x xs)))"
  by (induction xs) auto

lemma load_step_inv:
  assumes inv: "kinv L R st" and k: "k < length (k_warps st)" and w: "w = k_warps st ! k"
    and ph: "w_phase w = Lanes i p q" and lane: "lane \<in> set p"
    and seen: "seen \<in> set (k_filter st (w_block w) (slot (lane_hash L w i lane)))"
  shows "kinv L R (load_step L st k lane seen)"
proof -
  let ?h = "lane_hash L w i lane"
  let ?q = "if seen \<noteq> ?h then q @ [lane] else q"
  let ?w' = "w\<lparr>w_phase := Lanes i (remove1 lane p) ?q\<rparr>"
  have wf: "wf_warp L w" using inv k w by (auto simp: kinv_def warps_ok_def)
  then have "survives L w i lane" using lane by (auto simp: wf_warp_def ph)
  then have nz: "?h \<noteq> 0" using survives_hash by blast
  have held: "held ?w' = held w" by (simp add: held_def ph)
  have load: "load L w = load L ?w' + (if seen = ?h then {#?h#} else {#})"
    using mset_map_remove1 [OF lane, of "lane_hash L w i"]
    by (simp add: load_def held todo_def ph)
  have eq: "load_step L st k lane seen = set_warp st k ?w'"
    using ph w [symmetric] by (simp add: load_step_def Let_def)
  show ?thesis
    unfolding eq
  proof (rule kinv_set_warp [OF inv k w _ held])
    show "wf_warp L ?w'"
      using wf lane by (auto simp: wf_warp_def ph dest: notin_set_remove1)
    show "load L ?w' \<subseteq># load L w" by (simp add: load)
    show "h \<in># load L ?w' \<or> h \<in># mset R + held_all (k_warps st)" if "h \<in># load L w" for h
    proof (cases "seen = ?h \<and> h = ?h")
      case True
      with seen nz inv show ?thesis by (auto simp: kinv_def filter_ok_def)
    next
      case False
      with that show ?thesis by (auto simp: load split: if_splits)
    qed
  qed (simp add: ph)
qed

lemma store_step_inv:
  assumes inv: "kinv L R st" and k: "k < length (k_warps st)" and w: "w = k_warps st ! k"
    and ph: "w_phase w = Lanes i p q" and lane: "lane \<in> set q"
  shows "kinv L R (store_step L st k lane)"
proof -
  let ?h = "lane_hash L w i lane" let ?ws = "k_warps st"
  let ?w' = "w\<lparr>w_hashes := (w_hashes w)(lane := (w_hashes w lane)(i := ?h)),
      w_phase := Lanes i p (remove1 lane q)\<rparr>"
  have wf: "wf_warp L w" using inv k w by (auto simp: kinv_def warps_ok_def)
  then have sv: "survives L w i lane" and z: "w_hashes w lane i = 0" and lw: "lane < warp_width"
    and dist: "distinct (p @ q)"
    using lane by (auto simp: wf_warp_def ph)
  from sv have nz: "?h \<noteq> 0" using survives_hash by blast
  have kept_lane: "kept ?w' (i + 1) lane = kept w (i + 1) lane @ [?h]"
  proof -
    have "map ((w_hashes w lane)(i := ?h)) [0..<i] = map (w_hashes w lane) [0..<i]" by simp
    then show ?thesis using z nz by (simp add: kept_def)
  qed
  have held: "held ?w' = add_mset ?h (held w)"
  proof -
    have "(\<Sum>m \<in> {..<warp_width} - {lane}. mset (kept ?w' (i + 1) m))
        = (\<Sum>m \<in> {..<warp_width} - {lane}. mset (kept w (i + 1) m))"
      by (rule sum.cong) (auto simp: kept_def)
    then show ?thesis
      using lw kept_lane
      by (simp add: held_def ph mset_kept_all sum.remove [of "{..<warp_width}" lane])
  qed
  have load: "load L ?w' = load L w"
    using mset_map_remove1 [OF lane, of "lane_hash L w i"]
    by (simp add: load_def held todo_def ph)
  have live: "live L (?ws[k := ?w']) = live L ?ws"
    using live_update [OF k, of L ?w'] load w by simp
  have held_all: "held_all (?ws[k := ?w']) = add_mset ?h (held_all ?ws)"
    using held_all_update [OF k, of ?w'] held w by simp
  have "outstanding (?ws[k := ?w']) = outstanding ?ws"
    using outstanding_update_same [OF k, of ?w'] w ph by simp
  moreover have "wf_warp L ?w'"
    using wf dist lane by (auto simp: wf_warp_def ph dest: notin_set_remove1)
  moreover have "store_step L st k lane = set_warp (st\<lparr>k_filter := (k_filter st)(w_block w :=
      (k_filter st (w_block w))(slot ?h := ?h # k_filter st (w_block w) (slot ?h)))\<rparr>) k ?w'"
    using ph w [symmetric] by (simp add: store_step_def Let_def)
  ultimately show ?thesis
    using inv warps_ok_update [of L ?ws ?w' k]
    by (auto simp: kinv_def set_warp_def accounted_def filter_ok_def writes_ok_def live held_all)
qed

lemma next_tile_fields [simp]:
  "w_block (next_tile L w) = w_block w" "w_id (next_tile L w) = w_id w"
  "w_hashes (next_tile L w) = w_hashes w" "writes (w_phase (next_tile L w)) = []"
  "pending L w' (w_phase (next_tile L w)) = {#}" "kept_items (w_phase (next_tile L w)) = 0"
  "done_items (w_phase (next_tile L w)) = 0" "w_base (next_tile L w) = w_base w + stride L"
  by (simp_all add: next_tile_def Let_def)

lemma held_next_tile [simp]: "held (next_tile L w) = {#}"
  by (simp add: held_def mset_kept_all kept_def)

text \<open>Going on to the next tile skips nothing the warp owns.\<close>

lemma todo_next_tile:
  assumes "base_ok L w" and "done_items (w_phase w) = items_per_thread"
  shows "todo L (next_tile L w) = todo L w"
proof -
  have "tile_keys \<le> stride L"
    using assms(1) by (auto simp: base_ok_def stride_def)
  then have "owned_from L w (w_base w + stride L) = owned_from L w (w_base w + tile_keys)"
    using owned_gap [OF assms(1)] by (auto simp: owned_from_def)
  moreover have "items_per_thread * block_threads = tile_keys"
    by (simp add: tile_keys_def mult.commute)
  moreover have "owned_from L (next_tile L w) = owned_from L w"
    by (simp add: fun_eq_iff owned_from_def owns_def)
  ultimately show ?thesis by (simp add: todo_def assms(2))
qed

lemma wf_next_tile: "base_ok L w \<Longrightarrow> wf_warp L (next_tile L w)"
  using base_ok_next_tile [of L w]
  by (auto simp: wf_warp_def next_tile_def Let_def items_per_thread_def)

lemma next_tile_step:
  assumes inv: "kinv L R st" and k: "k < length (k_warps st)" and w: "w = k_warps st ! k"
    and fin: "done_items (w_phase w) = items_per_thread" and held: "held w = {#}"
    and wr: "writes (w_phase w) = []" and pend: "pending L w (w_phase w) = {#}"
  shows "kinv L R (set_warp st k (next_tile L w))"
proof -
  have base: "base_ok L w" using inv k w by (auto simp: kinv_def warps_ok_def wf_warp_def)
  show ?thesis
    by (rule kinv_set_warp [OF inv k w wf_next_tile [OF base]])
      (simp_all add: held wr load_def pend todo_next_tile [OF base fin])
qed

section \<open>Reserving and writing output positions\<close>

lemma length_kept_prefix: "length (concat (map (kept w items_per_thread) [0..<n])) = scan w n"
  by (induction n) (simp_all add: scan_def mine_def)

lemma warp_total_eq: "warp_total w = length (kept_all w items_per_thread)"
  by (simp add: warp_total_def kept_all_def length_kept_prefix scan_def)

text \<open>The cursors of the lanes tile the reserved run: the writes number the kept hashes.\<close>

lemma warp_writes_eq:
  "warp_writes w c = zip [c ..< c + length (kept_all w items_per_thread)] (kept_all w items_per_thread)"
proof -
  let ?K = "\<lambda>n. concat (map (kept w items_per_thread) [0..<n])"
  have "concat (map (lane_writes w c) [0..<n]) = zip [c ..< c + length (?K n)] (?K n)" for n
  proof (induction n)
    case (Suc n)
    let ?a = "[c ..< c + scan w n]" and ?k = "kept w items_per_thread n"
    let ?b = "[c + scan w n ..< c + scan w n + length ?k]"
    have K: "?K (Suc n) = ?K n @ ?k" by simp
    have len: "length (?K (Suc n)) = scan w n + length ?k"
      unfolding K length_append length_kept_prefix ..
    have ab: "[c ..< c + (scan w n + length ?k)] = ?a @ ?b"
      by (metis add.assoc le_add1 upt_add_eq_append)
    have "zip (?a @ ?b) (?K n @ ?k) = zip ?a (?K n) @ zip ?b ?k"
      by (rule zip_append) (simp only: length_kept_prefix length_upt add_diff_cancel_left')
    moreover have "concat (map (lane_writes w c) [0..<Suc n]) = zip ?a (?K n) @ zip ?b ?k"
    proof -
      have "lane_writes w c n = zip ?b ?k" by (simp add: lane_writes_def Let_def)
      then show ?thesis using Suc.IH unfolding length_kept_prefix by simp
    qed
    ultimately show ?case
      unfolding len unfolding ab unfolding K by (simp only:)
  qed simp
  then show ?thesis by (simp add: warp_writes_def kept_all_def)
qed

lemma outstanding_update:
  assumes "k < length ws"
  shows "outstanding (ws[k := w']) =
    set (writes (w_phase w')) \<union> (\<Union>i \<in> {..<length ws} - {k}. set (writes (w_phase (ws ! i))))"
proof -
  have "outstanding vs = (\<Union>i < length vs. set (writes (w_phase (vs ! i))))" for vs
    by (auto simp: outstanding_def set_conv_nth)
  then have "outstanding (ws[k := w'])
      = (\<Union>i < length ws. set (writes (w_phase (ws[k := w'] ! i))))" by simp
  also have "{..<length ws} = insert k ({..<length ws} - {k})" using assms by auto
  finally show ?thesis using assms by (auto simp: nth_list_update split: if_splits)
qed

lemma outstanding_split:
  assumes "k < length ws"
  shows "outstanding ws =
    set (writes (w_phase (ws ! k))) \<union> (\<Union>i \<in> {..<length ws} - {k}. set (writes (w_phase (ws ! i))))"
  using outstanding_update [OF assms, of "ws ! k"] by simp

lemma reserve_step:
  assumes inv: "kinv L R st" and k: "k < length (k_warps st)" and w: "w = k_warps st ! k"
    and ph: "w_phase w = Reserve" and pos: "warp_total w \<noteq> 0"
  shows "kinv L (R @ kept_all w items_per_thread) (warp_step L st k)"
proof -
  let ?K = "kept_all w items_per_thread" let ?ws = "k_warps st"
  let ?w' = "w\<lparr>w_phase := Write (warp_writes w (length R))\<rparr>"
  have cnt: "k_count st = length R" using inv by (simp add: kinv_def)
  have held: "held w = mset ?K" "held ?w' = {#}"
    by (simp_all add: held_def ph mset_kept_all [of w 0] kept_def)
  have load: "load L w = mset ?K + load L ?w'"
    by (simp add: load_def held todo_def ph)
  have live: "live L ?ws = mset ?K + live L (?ws[k := ?w'])"
    using live_update [OF k, of L ?w'] load w by (simp add: ac_simps)
  have held_all: "held_all ?ws = mset ?K + held_all (?ws[k := ?w'])"
    using held_all_update [OF k, of ?w'] held w by (simp add: ac_simps)
  have out: "outstanding (?ws[k := ?w']) = outstanding ?ws \<union> set (warp_writes w (length R))"
    using outstanding_update [OF k, of ?w'] outstanding_split [OF k] w ph cnt by auto
  have writes: "(j, h) \<in> set (warp_writes w (length R)) \<longleftrightarrow>
      length R \<le> j \<and> j < length R + length ?K \<and> (R @ ?K) ! j = h" for j h
    unfolding warp_writes_eq by (auto simp: set_zip nth_append intro!: exI [of _ "j - length R"])
  have "warp_step L st k = set_warp (st\<lparr>k_count := k_count st + warp_total w\<rparr>) k ?w'"
    using ph pos cnt w [symmetric] by (simp add: warp_step_def Let_def)
  moreover have "wf_warp L ?w'" using inv k w by (auto simp: kinv_def warps_ok_def wf_warp_def)
  then have "warps_ok L (?ws[k := ?w'])" using inv by (simp add: kinv_def warps_ok_update)
  moreover have "accounted L (R @ ?K) (?ws[k := ?w'])"
    using inv by (simp add: kinv_def accounted_def live ac_simps)
  moreover have "filter_ok (R @ ?K) (?ws[k := ?w']) (k_filter st)"
    using inv by (simp add: kinv_def filter_ok_def held_all)
  moreover have "writes_ok L (R @ ?K) (?ws[k := ?w']) (k_out st)"
  proof -
    have "writes_ok L R ?ws (k_out st)" using inv by (simp add: kinv_def)
    then show ?thesis
      unfolding writes_ok_def out by (auto simp: writes nth_append)
  qed
  ultimately show ?thesis
    by (simp add: kinv_def set_warp_def cnt warp_total_eq)
qed

lemma put_step_inv:
  assumes inv: "kinv L R st" and k: "k < length (k_warps st)" and w: "w = k_warps st ! k"
    and ph: "w_phase w = Write ws" and n: "n < length ws"
  shows "kinv L R (put_step L st k n)"
proof -
  obtain j h where jh: "ws ! n = (j, h)" by fastforce
  let ?ws = "k_warps st" let ?w' = "w\<lparr>w_phase := Write (take n ws @ drop (Suc n) ws)\<rparr>"
  let ?out = "if j < l_capacity L then (k_out st)[j := h] else k_out st"
  have held: "held ?w' = held w" by (simp add: held_def ph)
  have load: "load L ?w' = load L w" by (simp add: load_def held todo_def ph)
  have live: "live L (?ws[k := ?w']) = live L ?ws"
    using live_update [OF k, of L ?w'] load w by simp
  have held_all: "held_all (?ws[k := ?w']) = held_all ?ws"
    using held_all_update [OF k, of ?w'] held w by simp
  have split: "set ws = insert (j, h) (set (take n ws @ drop (Suc n) ws))"
    using id_take_nth_drop [OF n] jh by (metis list.set(2) set_append Un_insert_right)
  have out: "outstanding ?ws = insert (j, h) (outstanding (?ws[k := ?w']))"
    using outstanding_update [OF k, of ?w'] outstanding_split [OF k] w ph split by auto
  have wok: "writes_ok L R ?ws (k_out st)" using inv by (simp add: kinv_def)
  then have Rj: "j < length R" "R ! j = h" unfolding writes_ok_def out by auto
  have "writes_ok L R (?ws[k := ?w']) ?out"
    using wok Rj unfolding writes_ok_def out by (auto simp: nth_list_update)
  moreover have "wf_warp L ?w'" using inv k w by (auto simp: kinv_def warps_ok_def wf_warp_def)
  then have "warps_ok L (?ws[k := ?w'])" using inv by (simp add: kinv_def warps_ok_update)
  moreover have "put_step L st k n = set_warp (st\<lparr>k_out := ?out\<rparr>) k ?w'"
    using ph w [symmetric] jh by (simp add: put_step_def Let_def)
  ultimately show ?thesis
    using inv by (simp add: kinv_def set_warp_def accounted_def filter_ok_def live held_all)
qed

section \<open>Runs: invariant, progress, termination\<close>

lemma enabled_cases:
  assumes "ev \<in> set (enabled L st)"
  obtains (Warp) k where "ev = Warp_step k" "k < length (k_warps st)"
      "\<exists>i. w_phase (k_warps st ! k) \<in> {Item i, Lanes i [] [], Reserve, Write []}"
  | (Load) k lane v i p q where "ev = Load k lane v" "k < length (k_warps st)"
      "w_phase (k_warps st ! k) = Lanes i p q" "lane \<in> set p"
      "v \<in> set (k_filter st (w_block (k_warps st ! k)) (slot (lane_hash L (k_warps st ! k) i lane)))"
  | (Store) k lane i p q where "ev = Store k lane" "k < length (k_warps st)"
      "w_phase (k_warps st ! k) = Lanes i p q" "lane \<in> set q"
  | (Put) k n ws where "ev = Put k n" "k < length (k_warps st)"
      "w_phase (k_warps st ! k) = Write ws" "n < length ws"
proof -
  from assms obtain k where k: "k < length (k_warps st)" and ev: "ev \<in> set (enabled_warp L st k)"
    by (auto simp: enabled_def)
  show thesis
  proof (cases "w_phase (k_warps st ! k)")
    case (Lanes i p q)
    with ev k show ?thesis
      by (auto simp: enabled_warp_def Let_def split: if_splits intro: that)
  qed (use ev k in \<open>auto simp: enabled_warp_def Let_def split: if_splits intro: that\<close>)
qed

lemma apply_event_inv:
  assumes "kinv L R st" and "ev \<in> set (enabled L st)"
  shows "\<exists>R'. kinv L R' (apply_event L st ev)"
  using assms(2)
proof (cases rule: enabled_cases)
  case (Warp k)
  let ?w = "k_warps st ! k"
  consider i where "w_phase ?w = Item i" | i where "w_phase ?w = Lanes i [] []"
    | "w_phase ?w = Reserve" "warp_total ?w \<noteq> 0" | "w_phase ?w = Reserve" "warp_total ?w = 0"
    | "w_phase ?w = Write []"
    using Warp(3) by auto
  then show ?thesis
  proof cases
    case 1
    with item_step [OF assms(1) Warp(2) refl] Warp(1) show ?thesis by auto
  next
    case 2
    with lanes_done_step [OF assms(1) Warp(2) refl] Warp(1) show ?thesis by auto
  next
    case 3
    with reserve_step [OF assms(1) Warp(2) refl] Warp(1) show ?thesis by auto
  next
    case 4
    then have "kept_all ?w items_per_thread = []" by (simp add: warp_total_eq)
    with 4 next_tile_step [OF assms(1) Warp(2) refl] Warp(1) show ?thesis
      by (auto simp: warp_step_def Let_def held_def)
  next
    case 5
    with next_tile_step [OF assms(1) Warp(2) refl] Warp(1) show ?thesis
      by (auto simp: warp_step_def Let_def held_def mset_kept_all kept_def)
  qed
next
  case (Load k lane v i p q)
  with load_step_inv [OF assms(1) Load(2) refl Load(3,4,5)] show ?thesis by auto
next
  case (Store k lane i p q)
  with store_step_inv [OF assms(1) Store(2) refl Store(3,4)] show ?thesis by auto
next
  case (Put k n ws)
  with put_step_inv [OF assms(1) Put(2) refl Put(3,4)] show ?thesis by auto
qed

lemma kstep_inv: "kstep L st st' \<Longrightarrow> kinv L R st \<Longrightarrow> \<exists>R'. kinv L R' st'"
  by (auto elim!: kstep.cases dest: apply_event_inv)

lemma reachable_inv: "(kstep L)\<^sup>*\<^sup>* st st' \<Longrightarrow> kinv L R st \<Longrightarrow> \<exists>R'. kinv L R' st'"
proof (induction rule: rtranclp_induct)
  case (step st' st'')
  then show ?case using kstep_inv by blast
qed blast

text \<open>The start of a launch: every surviving key is on exactly one warp's list.\<close>

lemma sum_mset_set_partition:
  assumes "finite S" and "distinct ps" and "\<And>x. x \<in> S \<Longrightarrow> owner x \<in> set ps"
  shows "sum_list (map (\<lambda>p. mset_set {x \<in> S. owner x = p}) ps) = mset_set S"
  using assms
proof (induction ps arbitrary: S)
  case (Cons p ps)
  let ?T = "{x \<in> S. owner x \<noteq> p}"
  have "sum_list (map (\<lambda>q. mset_set {x \<in> ?T. owner x = q}) ps) = mset_set ?T"
    using Cons.prems by (intro Cons.IH) auto
  moreover have "map (\<lambda>q. mset_set {x \<in> S. owner x = q}) ps
      = map (\<lambda>q. mset_set {x \<in> ?T. owner x = q}) ps"
    using Cons.prems(2) by (intro map_cong refl arg_cong [where f = mset_set]) auto
  moreover have "mset_set S = mset_set {x \<in> S. owner x = p} + mset_set ?T"
    using Cons.prems(1) by (subst mset_set_Union [symmetric]) (auto intro: arg_cong [where f = mset_set])
  ultimately show ?case by (simp only: list.map sum_list.Cons)
next
  case Nil
  then have "S = {}" by auto
  then show ?case by simp
qed

lemma sum_list_image_mset:
  "sum_list (map (\<lambda>p. image_mset f (g p)) ps) = image_mset f (sum_list (map g ps))"
  by (induction ps) auto

lemma init_warp_fields [simp]:
  "w_base (init_warp L b wid) = b * tile_keys" "w_block (init_warp L b wid) = b"
  "w_id (init_warp L b wid) = wid" "kept_items (w_phase (init_warp L b wid)) = 0"
  "done_items (w_phase (init_warp L b wid)) = 0" "writes (w_phase (init_warp L b wid)) = []"
  "pending L w (w_phase (init_warp L b wid)) = {#}"
  by (simp_all add: init_warp_def)

lemma init_warp_owned:
  assumes "b < l_grid L" and "wid < block_warps"
  shows "load L (init_warp L b wid) = image_mset (idx_hash L) (mset_set
    {idx \<in> surv_idx L. ((idx div tile_keys) mod l_grid L, (idx mod block_threads) div warp_width) = (b, wid)})"
proof -
  have "b * tile_keys \<le> idx" if "(idx div tile_keys) mod l_grid L = b" for idx
  proof -
    have "b \<le> idx div tile_keys" using that by (metis mod_less_eq_dividend)
    then have "b * tile_keys \<le> idx div tile_keys * tile_keys" by (rule mult_le_mono1)
    also have "\<dots> \<le> idx" by (rule div_times_less_eq_dividend)
    finally show ?thesis .
  qed
  then have "owned_from L (init_warp L b wid) (b * tile_keys) = {idx \<in> surv_idx L.
      ((idx div tile_keys) mod l_grid L, (idx mod block_threads) div warp_width) = (b, wid)}"
    by (auto simp: owned_from_def owns_def)
  then show ?thesis
    by (simp add: load_def held_def mset_kept_all kept_def todo_def)
qed

lemma wf_init_warp: "b < l_grid L \<Longrightarrow> wid < block_warps \<Longrightarrow> wf_warp L (init_warp L b wid)"
  by (auto simp: wf_warp_def base_ok_def init_warp_def items_per_thread_def intro!: exI [of _ 0])

lemma init_kinv:
  assumes "0 < l_grid L" and "length out = l_capacity L"
  shows "kinv L [] (init_kstate L out)"
proof -
  let ?G = "l_grid L"
  let ?ps = "concat (map (\<lambda>b. map (Pair b) [0..<block_warps]) [0..<?G])"
  let ?owner = "\<lambda>idx. ((idx div tile_keys) mod ?G, (idx mod block_threads) div warp_width)"
  let ?ws = "k_warps (init_kstate L out)"
  have ws: "?ws = map (\<lambda>(b, wid). init_warp L b wid) ?ps"
    by (simp add: init_kstate_def map_concat comp_def)
  have ps: "set ?ps = {..<?G} \<times> {..<block_warps}" by auto
  have dist: "distinct ?ps"
  proof -
    have "?ps = List.product [0..<?G] [0..<block_warps]" by (simp add: product_concat_map)
    then show ?thesis by (simp add: distinct_product)
  qed
  have owner: "?owner idx \<in> set ?ps" for idx
    unfolding ps using assms(1) by (simp add: geometry_defs less_mult_imp_div_less)
  have "live L ?ws = sum_list (map (\<lambda>p. image_mset (idx_hash L)
      (mset_set {idx \<in> surv_idx L. ?owner idx = p})) ?ps)"
    unfolding live_def ws map_map
    by (rule arg_cong [where f = sum_list], rule map_cong) (auto simp: init_warp_owned)
  also have "\<dots> = survivors L"
    unfolding sum_list_image_mset survivors_def
    by (subst sum_mset_set_partition [OF _ dist owner]) simp_all
  finally have live: "live L ?ws = survivors L" .
  have "warps_ok L ?ws" unfolding warps_ok_def ws by (auto simp: wf_init_warp)
  moreover have "outstanding ?ws = {}" unfolding outstanding_def ws by auto
  ultimately show ?thesis
    using assms(2) live
    by (simp add: kinv_def accounted_def filter_ok_def writes_ok_def) (simp add: init_kstate_def)
qed

text \<open>When every warp is out of its loop, all that survived has been reserved and written.\<close>

lemma final_state:
  assumes "kinv L R st" and "\<forall>w \<in> set (k_warps st). w_phase w = Done"
  shows "k_count st = length R" and "mset R \<subseteq># survivors L"
    and "set R = set_mset (survivors L)" and "length (k_out st) = l_capacity L"
    and "\<And>j. j < length R \<Longrightarrow> j < l_capacity L \<Longrightarrow> k_out st ! j = R ! j"
proof -
  have "load L w = {#}" if "w \<in> set (k_warps st)" for w
  proof -
    have ph: "w_phase w = Done" and "wf_warp L w"
      using assms that by (auto simp: kinv_def warps_ok_def)
    then have "length (l_keys L) \<le> w_base w" by (simp add: wf_warp_def)
    then have "owned_from L w (w_base w) = {}" by (auto simp: owned_from_def surv_idx_def)
    then show ?thesis by (simp add: load_def held_def mset_kept_all kept_def todo_def ph)
  qed
  then have live: "live L (k_warps st) = {#}"
    unfolding live_def by (induction "k_warps st") (auto simp: sum_list_0 cong: map_cong)
  have out: "outstanding (k_warps st) = {}" using assms(2) by (auto simp: outstanding_def)
  show "k_count st = length R" "length (k_out st) = l_capacity L"
    using assms(1) by (auto simp: kinv_def writes_ok_def)
  show "mset R \<subseteq># survivors L"
    using assms(1) by (simp add: kinv_def accounted_def live)
  then show "set R = set_mset (survivors L)"
    using assms(1) by (auto simp: kinv_def accounted_def live dest: mset_subset_eqD)
  show "k_out st ! j = R ! j" if "j < length R" "j < l_capacity L" for j
    using assms(1) that by (simp add: kinv_def writes_ok_def out)
qed

text \<open>Progress: a filter cell is never without a value, so only a finished launch is stuck.\<close>

definition cells_ok :: "kstate \<Rightarrow> bool" where
  "cells_ok st \<longleftrightarrow> (\<forall>b s. k_filter st b s \<noteq> [])"

lemma cells_ok_init: "cells_ok (init_kstate L out)"
  by (simp add: cells_ok_def init_kstate_def)

lemma cells_ok_apply: "cells_ok st \<Longrightarrow> cells_ok (apply_event L st ev)"
  by (cases ev)
    (auto simp: cells_ok_def warp_step_def load_step_def store_step_def put_step_def set_warp_def
      Let_def split: phase.splits prod.splits)

lemma enabled_warp_empty:
  assumes "cells_ok st" and "enabled_warp L st k = []"
  shows "w_phase (k_warps st ! k) = Done"
  using assms by (auto simp: enabled_warp_def cells_ok_def Let_def split: phase.splits if_splits)

lemma enabled_empty:
  assumes "cells_ok st" and "enabled L st = []"
  shows "\<forall>w \<in> set (k_warps st). w_phase w = Done"
proof
  fix w assume "w \<in> set (k_warps st)"
  then obtain k where k: "k < length (k_warps st)" "w = k_warps st ! k"
    by (auto simp: in_set_conv_nth)
  then have "enabled_warp L st k = []" using assms(2) by (simp add: enabled_def)
  with k enabled_warp_empty [OF assms(1)] show "w_phase w = Done" by blast
qed

text \<open>
  Termination: tiles left count most, then the items of the tile, then the outstanding
  loads, stores and writes. Every event lowers the sum over the warps.
\<close>

fun phase_rank :: "phase \<Rightarrow> nat" where
  "phase_rank (Item i) = 1070 + (8 - i) * 100"
| "phase_rank (Lanes i p q) = 1001 + (8 - i) * 100 + 2 * length p + length q"
| "phase_rank Reserve = 999"
| "phase_rank (Write ws) = Suc (length ws)"
| "phase_rank Done = 0"

definition tiles_left :: "'k launch \<Rightarrow> nat \<Rightarrow> nat" where
  "tiles_left L base = (length (l_keys L) - base + stride L - 1) div stride L"

definition warp_rank :: "'k launch \<Rightarrow> warp \<Rightarrow> nat" where
  "warp_rank L w = tiles_left L (w_base w) * 2000 + phase_rank (w_phase w)"

definition krank :: "'k launch \<Rightarrow> kstate \<Rightarrow> nat" where
  "krank L st = sum_list (map (warp_rank L) (k_warps st))"

lemma krank_set_warp:
  assumes "k < length (k_warps st)" and "warp_rank L w' < warp_rank L (k_warps st ! k)"
  shows "krank L (set_warp st k w') < krank L st"
proof -
  have "sum_list (map f (xs[k := x])) + f (xs ! k) = sum_list (map f xs) + f x"
    if "k < length xs" for f :: "warp \<Rightarrow> nat" and xs x
    using that by (induction xs arbitrary: k) (auto split: nat.splits simp: less_Suc_eq_0_disj)
  from this [OF assms(1), of "warp_rank L" w'] show ?thesis
    using assms(2) by (simp add: krank_def set_warp_def)
qed

lemma krank_k_count [simp]: "krank L (st\<lparr>k_count := c\<rparr>) = krank L st"
  "krank L (st\<lparr>k_out := out\<rparr>) = krank L st" "krank L (st\<lparr>k_filter := f\<rparr>) = krank L st"
  by (simp_all add: krank_def)

lemma tiles_left_step:
  assumes "0 < stride L" and "base < length (l_keys L)"
  shows "Suc (tiles_left L (base + stride L)) = tiles_left L base"
proof -
  let ?d = "length (l_keys L) - base" and ?s = "stride L"
  have "(?d + ?s - 1) div ?s = Suc ((?d - 1) div ?s)"
  proof -
    have d: "?d + ?s - 1 = (?d - 1) + ?s" using assms(2) by simp
    show ?thesis unfolding d using assms(1) by (subst div_add_self2) simp_all
  qed
  moreover have "(?d - ?s + ?s - 1) div ?s = (?d - 1) div ?s"
    using assms(1) by (cases "?s \<le> ?d") auto
  moreover have "length (l_keys L) - (base + ?s) = ?d - ?s" by simp
  ultimately show ?thesis by (simp only: tiles_left_def)
qed

lemma next_tile_rank:
  assumes "0 < stride L" and "w_phase w = Reserve \<or> w_phase w = Write []"
  shows "warp_rank L (next_tile L w) < warp_rank L w"
proof (cases "w_base w < length (l_keys L)")
  case True
  have "phase_rank (w_phase (next_tile L w)) \<le> 1870"
    by (simp add: next_tile_def Let_def)
  then show ?thesis
    using tiles_left_step [OF assms(1) True] by (simp add: warp_rank_def)
next
  case False
  then have "tiles_left L (w_base w + stride L) = 0" and "w_phase (next_tile L w) = Done"
    using assms(1) by (auto simp: tiles_left_def next_tile_def Let_def)
  then show ?thesis using assms(2) by (auto simp: warp_rank_def)
qed

lemma length_leaders: "length (leaders L w i) \<le> 32"
  unfolding leaders_def using length_filter_le [of "leader L w i" "[0..<warp_width]"]
  by (simp add: warp_width_def)

lemma length_warp_writes: "length (warp_writes w c) \<le> 256"
proof -
  have "length (kept w items_per_thread lane) \<le> 8" for lane
    using length_filter_le [of "\<lambda>h. h \<noteq> 0" "map (w_hashes w lane) [0..<items_per_thread]"]
    by (simp add: kept_def items_per_thread_def)
  then have "length (kept_all w items_per_thread) \<le> (\<Sum>lane \<leftarrow> [0..<warp_width]. 8)"
    unfolding kept_all_def length_concat map_map comp_def by (intro sum_list_mono) auto
  then show ?thesis by (simp add: warp_writes_eq warp_width_def sum_list_triv)
qed

lemma apply_event_rank:
  assumes "ev \<in> set (enabled L st)" and "0 < l_grid L"
  shows "krank L (apply_event L st ev) < krank L st"
  using assms(1)
proof (cases rule: enabled_cases)
  case (Warp k)
  let ?w = "k_warps st ! k"
  have pos: "0 < stride L" using assms(2) by (simp add: stride_def tile_keys_eq)
  consider i where "w_phase ?w = Item i" | i where "w_phase ?w = Lanes i [] []"
    | "w_phase ?w = Reserve" | "w_phase ?w = Write []"
    using Warp(3) by auto
  then show ?thesis
  proof cases
    case 1
    then show ?thesis
      using Warp length_leaders [of L ?w i]
      by (auto simp: warp_step_def Let_def warp_rank_def intro!: krank_set_warp)
  next
    case 2
    then have "phase_rank (if i + 1 < items_per_thread then Item (i + 1) else Reserve)
        < phase_rank (w_phase ?w)"
      by (auto simp: items_per_thread_def)
    then show ?thesis
      using Warp 2 by (auto simp: warp_step_def Let_def warp_rank_def intro!: krank_set_warp)
  next
    case 3
    then show ?thesis
      using Warp next_tile_rank [OF pos, of ?w] length_warp_writes [of ?w "k_count st"]
        krank_set_warp [of k "st\<lparr>k_count := k_count st + warp_total ?w\<rparr>" L
          "?w\<lparr>w_phase := Write (warp_writes ?w (k_count st))\<rparr>"]
      by (auto simp: warp_step_def Let_def warp_rank_def intro!: krank_set_warp)
  next
    case 4
    then show ?thesis
      using Warp next_tile_rank [OF pos, of ?w]
      by (auto simp: warp_step_def Let_def intro!: krank_set_warp)
  qed
next
  case (Load k lane v i p q)
  then have "Suc (length (remove1 lane p)) = length p"
    using length_pos_if_in_set [of lane p] by (simp add: length_remove1)
  with Load show ?thesis
    by (auto simp: load_step_def Let_def warp_rank_def intro!: krank_set_warp)
next
  case (Store k lane i p q)
  let ?w = "k_warps st ! k" let ?h = "lane_hash L ?w i lane"
  let ?st = "st\<lparr>k_filter := (k_filter st)(w_block ?w := (k_filter st (w_block ?w))
      (slot ?h := ?h # k_filter st (w_block ?w) (slot ?h)))\<rparr>"
  have "length (remove1 lane q) = length q - 1" and "0 < length q"
    using Store by (auto simp: length_remove1)
  with Store krank_set_warp [of k ?st L] show ?thesis
    by (auto simp: store_step_def Let_def warp_rank_def)
next
  case (Put k n ws)
  obtain j h where jh: "ws ! n = (j, h)" by fastforce
  from Put jh krank_set_warp [of k "st\<lparr>k_out := (k_out st)[j := h]\<rparr>" L]
    krank_set_warp [of k st L] show ?thesis
    by (auto simp: put_step_def Let_def warp_rank_def)
qed

section \<open>Running a launch under a schedule\<close>

text \<open>
  At step \<open>n\<close> the schedule picks one of the enabled events. A launch without blocks runs
  nothing.
\<close>

function krun :: "'k launch \<Rightarrow> (nat \<Rightarrow> nat) \<Rightarrow> nat \<Rightarrow> kstate \<Rightarrow> kstate" where
  "krun L sched n st =
     (let evs = enabled L st
      in if l_grid L = 0 \<or> evs = [] then st
         else krun L sched (Suc n) (apply_event L st (evs ! (sched n mod length evs))))"
  by pat_completeness auto
termination
  by (relation "measure (\<lambda>(L, sched, n, st). krank L st)") (auto intro!: apply_event_rank nth_mem)

declare krun.simps [simp del]

definition screen_kernel :: "'k launch \<Rightarrow> (nat \<Rightarrow> nat) \<Rightarrow> u64 list \<Rightarrow> u64 list \<times> nat" where
  "screen_kernel L sched out =
     (let st = krun L sched 0 (init_kstate L out) in (k_out st, k_count st))"

lemma krun_reachable: "(kstep L)\<^sup>*\<^sup>* st (krun L sched n st)"
proof (induction L sched n st rule: krun.induct)
  case (1 L sched n st)
  let ?evs = "enabled L st" let ?ev = "?evs ! (sched n mod length ?evs)"
  show ?case
  proof (cases "l_grid L = 0 \<or> ?evs = []")
    case True
    then show ?thesis by (simp add: krun.simps [of L sched n st] Let_def)
  next
    case False
    then have "kstep L st (apply_event L st ?ev)" by (intro kstep.fire nth_mem) simp
    with 1 [OF refl False] False show ?thesis
      by (subst krun.simps) (auto simp: Let_def intro: converse_rtranclp_into_rtranclp)
  qed
qed

lemma krun_final: "0 < l_grid L \<Longrightarrow> enabled L (krun L sched n st) = []"
proof (induction L sched n st rule: krun.induct)
  case (1 L sched n st)
  then show ?case
    by (subst krun.simps) (auto simp: Let_def)
qed

lemma cells_ok_reachable: "(kstep L)\<^sup>*\<^sup>* st st' \<Longrightarrow> cells_ok st \<Longrightarrow> cells_ok st'"
  by (induction rule: rtranclp_induct) (auto elim!: kstep.cases intro: cells_ok_apply)

lemma screen_kernel_result:
  assumes "0 < l_grid L" and "length out = l_capacity L"
    and res: "screen_kernel L sched out = (out', cnt)"
  obtains R where "cnt = length R" and "mset R \<subseteq># survivors L"
    and "set R = set_mset (survivors L)" and "length out' = l_capacity L"
    and "\<And>j. j < cnt \<Longrightarrow> j < l_capacity L \<Longrightarrow> out' ! j = R ! j"
proof -
  let ?st = "krun L sched 0 (init_kstate L out)"
  from reachable_inv [OF krun_reachable init_kinv [OF assms(1,2)]]
  obtain R where R: "kinv L R ?st" by blast
  have "\<forall>w \<in> set (k_warps ?st). w_phase w = Done"
    using enabled_empty [OF cells_ok_reachable [OF krun_reachable cells_ok_init] krun_final [OF assms(1)]] .
  from final_state [OF R this] show thesis
    using res by (intro that [of R]) (auto simp: screen_kernel_def Let_def)
qed

section \<open>The screening contract\<close>

text \<open>
  What the host code relies on when it screens keys: the counter counts every candidate at
  least once and none too often, and when the count fits the room there is, the counted
  prefix of the output is a selection of the candidates that misses none.
\<close>

locale screening =
  fixes launchable :: "'l \<Rightarrow> bool" and candidates :: "'l \<Rightarrow> u64 list" and room :: "'l \<Rightarrow> nat"
    and run :: "'l \<Rightarrow> 'sched \<Rightarrow> u64 list \<Rightarrow> u64 list \<times> nat"
  assumes run_length: "launchable L \<Longrightarrow> length out = room L \<Longrightarrow> run L sched out = (out', cnt) \<Longrightarrow>
      length out' = room L"
    and run_count: "launchable L \<Longrightarrow> length out = room L \<Longrightarrow> run L sched out = (out', cnt) \<Longrightarrow>
      cnt \<le> length (candidates L)"
    and run_card: "launchable L \<Longrightarrow> length out = room L \<Longrightarrow> run L sched out = (out', cnt) \<Longrightarrow>
      card (set (candidates L)) \<le> cnt"
    and run_fits: "launchable L \<Longrightarrow> length out = room L \<Longrightarrow> run L sched out = (out', cnt) \<Longrightarrow>
      cnt \<le> room L \<Longrightarrow>
      set (take cnt out') = set (candidates L) \<and> mset (take cnt out') \<subseteq># mset (candidates L)"
begin

lemma no_overflow:
  "launchable L \<Longrightarrow> length out = room L \<Longrightarrow> run L sched out = (out', cnt) \<Longrightarrow>
   length (candidates L) \<le> room L \<Longrightarrow> cnt \<le> room L"
  using run_count by (meson le_trans)

lemma count_zero_iff:
  assumes "launchable L" and "length out = room L" and "run L sched out = (out', cnt)"
  shows "cnt = 0 \<longleftrightarrow> candidates L = []"
  using run_count [OF assms] run_card [OF assms] by (auto simp: card_eq_0_iff)

lemma schedule_independent:
  assumes "launchable L" and "length out = room L" and "length out2 = room L"
    and "run L sched out = (out', cnt)" and "cnt \<le> room L"
    and "run L sched2 out2 = (out2', cnt2)" and "cnt2 \<le> room L"
  shows "set (take cnt out') = set (take cnt2 out2')"
  using run_fits [OF assms(1,2,4,5)] run_fits [OF assms(1,3,6,7)] by simp

end

definition surviving :: "'k launch \<Rightarrow> u64 list" where
  "surviving L = filter (screen_hash (l_theta L)) (map (l_hasher L) (l_keys L))"

lemma screen_kernel_sound:
  assumes "0 < l_grid L" and "length out = l_capacity L"
    and "screen_kernel L sched out = (out', cnt)"
  shows "length out' = l_capacity L \<and> cnt \<le> length (surviving L)
    \<and> card (set (surviving L)) \<le> cnt
    \<and> (cnt \<le> l_capacity L \<longrightarrow>
        set (take cnt out') = set (surviving L) \<and> mset (take cnt out') \<subseteq># mset (surviving L))"
proof -
  obtain R where R: "cnt = length R" "mset R \<subseteq># mset (surviving L)" "set R = set (surviving L)"
    and out: "length out' = l_capacity L"
      "\<And>j. j < cnt \<Longrightarrow> j < l_capacity L \<Longrightarrow> out' ! j = R ! j"
    using screen_kernel_result [OF assms] unfolding survivors_mset surviving_def [symmetric]
    by (metis set_mset_mset)
  have "cnt \<le> length (surviving L)"
    using size_mset_mono [OF R(2)] R(1) by (simp only: size_mset)
  moreover have "card (set (surviving L)) \<le> cnt"
    unfolding R(1) R(3) [symmetric] by (rule card_length)
  moreover have "take cnt out' = R" if "cnt \<le> l_capacity L"
    using that out R(1) by (intro nth_equalityI) auto
  ultimately show ?thesis using R out(1) by auto
qed

interpretation kernel: screening "\<lambda>L. 0 < l_grid L" surviving l_capacity screen_kernel
  by unfold_locales (use screen_kernel_sound in blast)+

section \<open>Properties of a launch\<close>

text \<open>
  C3: whatever the interleaving, a launch counts at least one and at most all copies of
  every surviving hash, and as long as the count fits the capacity, the counted prefix of
  the output holds surviving hashes only, each survivor at least once and none more often
  than among the keys.
\<close>

theorem screen_kernel_correct:
  assumes "0 < l_grid L" and "length out = l_capacity L"
    and "screen_kernel L sched out = (out', cnt)"
  shows "length out' = l_capacity L
    \<and> cnt \<le> length (filter (screen_hash (l_theta L)) (map (l_hasher L) (l_keys L)))
    \<and> card (set (filter (screen_hash (l_theta L)) (map (l_hasher L) (l_keys L)))) \<le> cnt
    \<and> (cnt \<le> l_capacity L \<longrightarrow>
        set (take cnt out') = set (filter (screen_hash (l_theta L)) (map (l_hasher L) (l_keys L))) \<and>
        mset (take cnt out') \<subseteq># mset (filter (screen_hash (l_theta L)) (map (l_hasher L) (l_keys L))))"
  using kernel.run_length [OF assms] kernel.run_count [OF assms] kernel.run_card [OF assms]
    kernel.run_fits [OF assms]
  unfolding surviving_def by blast

lemma screen_kernel_run:
  obtains out' cnt where "screen_kernel L sched out = (out', cnt)"
  by (cases "screen_kernel L sched out")

definition small_launch :: "u64 launch" where
  "small_launch = \<lparr>l_keys = [3, 3, 9, 100], l_hasher = (\<lambda>x. x), l_theta = 50, l_capacity = 4, l_grid = 1\<rparr>"

theorem screen_kernel_correct_witness:
  "\<exists>out' cnt. screen_kernel small_launch (\<lambda>_. 0) [0, 0, 0, 0] = (out', cnt) \<and>
     2 \<le> cnt \<and> cnt \<le> 3 \<and> set (take cnt out') = {3, 9}"
proof -
  obtain out' cnt where r: "screen_kernel small_launch (\<lambda>_. 0) [0, 0, 0, 0] = (out', cnt)"
    by (rule screen_kernel_run)
  from screen_kernel_correct [OF _ _ this] r show ?thesis
    by (auto simp: small_launch_def screen_hash_def)
qed

text \<open>
  C18: a launch never gets stuck and never runs on. In every state it can reach, either
  all warps have left their loops or some event is enabled, and every event lowers the
  rank \<open>krank\<close>, a natural number.
\<close>

theorem screen_kernel_terminates:
  assumes "0 < l_grid L" and "(kstep L)\<^sup>*\<^sup>* (init_kstate L out) st"
  shows "((\<forall>w \<in> set (k_warps st). w_phase w = Done) \<or> (\<exists>st'. kstep L st st')) \<and>
    (\<forall>st'. kstep L st st' \<longrightarrow> krank L st' < krank L st)"
proof -
  have "cells_ok st" using cells_ok_reachable [OF assms(2) cells_ok_init] .
  then have "(\<forall>w \<in> set (k_warps st). w_phase w = Done) \<or> (\<exists>st'. kstep L st st')"
    using enabled_empty by (metis kstep.fire nth_mem length_greater_0_conv)
  moreover have "krank L st' < krank L st" if "kstep L st st'" for st'
    using that apply_event_rank [OF _ assms(1)] by (auto elim!: kstep.cases)
  ultimately show ?thesis by blast
qed

theorem screen_kernel_terminates_witness:
  "\<exists>st'. kstep small_launch (init_kstate small_launch [0, 0, 0, 0]) st' \<and>
     krank small_launch st' < krank small_launch (init_kstate small_launch [0, 0, 0, 0])"
proof -
  have "\<not> (\<forall>w \<in> set (k_warps (init_kstate small_launch [0, 0, 0, 0])). w_phase w = Done)"
    by (auto simp: init_kstate_def small_launch_def init_warp_def block_warps_def block_threads_def
        warp_width_def upt_conv_Cons)
  with screen_kernel_terminates [OF _ rtranclp.rtrancl_refl, of small_launch "[0, 0, 0, 0]"]
  show ?thesis by (auto simp: small_launch_def)
qed

end
