(* ===== verification/Bytes.thy ===== *)
theory Bytes
  imports Prelude
begin

text \<open>
  Byte buffers and the little-endian representation of integers that \<^verbatim>\<open>memcpy\<close> of an
  integer reads and writes on the hosts the library targets. A fixed-width codec is a
  locale: what an encoder and a decoder of one width promise, and what follows for reading
  and writing fields of a buffer. The 16-, 32- and 64-bit codecs interpret it.
\<close>

section \<open>Buffers\<close>

text \<open>\<^verbatim>\<open>memcpy(bytes + off, xs, length xs)\<close> and the bytes \<^verbatim>\<open>memcpy\<close> reads back.\<close>

definition put_at :: "u8 list \<Rightarrow> nat \<Rightarrow> u8 list \<Rightarrow> u8 list" where
  "put_at bytes off xs = take off bytes @ xs @ drop (off + length xs) bytes"

definition get_at :: "u8 list \<Rightarrow> nat \<Rightarrow> nat \<Rightarrow> u8 list" where
  "get_at bytes off n = take n (drop off bytes)"

lemma length_put_at [simp]:
  "off + length xs \<le> length bytes \<Longrightarrow> length (put_at bytes off xs) = length bytes"
  by (simp add: put_at_def)

lemma nth_put_at:
  assumes "off + length xs \<le> length bytes" and "i < length bytes"
  shows "put_at bytes off xs ! i =
    (if off \<le> i \<and> i < off + length xs then xs ! (i - off) else bytes ! i)"
  using assms by (auto simp: put_at_def nth_append min_def)

lemma length_get_at [simp]: "off + n \<le> length bytes \<Longrightarrow> length (get_at bytes off n) = n"
  by (simp add: get_at_def)

lemma nth_get_at: "off + n \<le> length bytes \<Longrightarrow> i < n \<Longrightarrow> get_at bytes off n ! i = bytes ! (off + i)"
  by (simp add: get_at_def)

lemma get_put_same:
  "off + length xs \<le> length bytes \<Longrightarrow> get_at (put_at bytes off xs) off (length xs) = xs"
  by (simp add: get_at_def put_at_def)

lemma get_put_other:
  assumes "off + length xs \<le> length bytes" and "off' + n \<le> length bytes"
    and "off' + n \<le> off \<or> off + length xs \<le> off'"
  shows "get_at (put_at bytes off xs) off' n = get_at bytes off' n"
  using assms by (intro nth_equalityI) (auto simp: nth_get_at nth_put_at)

lemma put_get_same: "off + n \<le> length bytes \<Longrightarrow> put_at bytes off (get_at bytes off n) = bytes"
  by (intro nth_equalityI) (auto simp: nth_get_at nth_put_at)

section \<open>Fixed-width codecs\<close>

locale codec =
  fixes enc :: "'a \<Rightarrow> u8 list" and dec :: "u8 list \<Rightarrow> 'a" and width :: nat
  assumes length_enc [simp]: "length (enc x) = width"
    and dec_enc [simp]: "dec (enc x) = x"
    and enc_dec: "length bs = width \<Longrightarrow> enc (dec bs) = bs"
begin

lemma enc_inject [simp]: "enc x = enc y \<longleftrightarrow> x = y"
  by (metis dec_enc)

lemma read_write_same:
  "off + width \<le> length bytes \<Longrightarrow> dec (get_at (put_at bytes off (enc x)) off width) = x"
  using get_put_same [of off "enc x" bytes] by simp

lemma read_write_other:
  "off + width \<le> length bytes \<Longrightarrow> off' + n \<le> length bytes \<Longrightarrow>
   off' + n \<le> off \<or> off + width \<le> off' \<Longrightarrow>
   get_at (put_at bytes off (enc x)) off' n = get_at bytes off' n"
  by (rule get_put_other) auto

lemma write_read_same:
  "off + width \<le> length bytes \<Longrightarrow> put_at bytes off (enc (dec (get_at bytes off width))) = bytes"
  by (simp add: enc_dec put_get_same)

text \<open>An array of values is the concatenation of their encodings.\<close>

lemma length_enc_list: "length (concat (map enc xs)) = length xs * width"
  by (induction xs) auto

lemma get_enc_list:
  assumes "i < length xs"
  shows "get_at (concat (map enc xs)) (i * width) width = enc (xs ! i)"
proof -
  have "concat (map enc xs)
      = concat (map enc (take i xs)) @ enc (xs ! i) @ concat (map enc (drop (Suc i) xs))"
    using id_take_nth_drop [OF assms] by (metis concat.simps(2) concat_append list.map(2) map_append)
  then show ?thesis
    using assms by (simp add: get_at_def length_enc_list)
qed

lemma dec_enc_list:
  "map (\<lambda>i. dec (get_at (concat (map enc xs)) (i * width) width)) [0..<length xs] = xs"
  by (rule nth_equalityI) (simp_all add: get_enc_list)

end

section \<open>Little-endian integers\<close>

definition le_bytes :: "nat \<Rightarrow> 'a::len word \<Rightarrow> u8 list" where
  "le_bytes n w = map (\<lambda>i. ucast (drop_bit (8 * i) w)) [0..<n]"

fun le_word :: "u8 list \<Rightarrow> 'a::len word" where
  "le_word [] = 0"
| "le_word (b # bs) = ucast b OR push_bit 8 (le_word bs)"

definition enc16 :: "u16 \<Rightarrow> u8 list" where "enc16 = le_bytes 2"
definition dec16 :: "u8 list \<Rightarrow> u16" where "dec16 = le_word"
definition enc32 :: "u32 \<Rightarrow> u8 list" where "enc32 = le_bytes 4"
definition dec32 :: "u8 list \<Rightarrow> u32" where "dec32 = le_word"
definition enc64 :: "u64 \<Rightarrow> u8 list" where "enc64 = le_bytes 8"
definition dec64 :: "u8 list \<Rightarrow> u64" where "dec64 = le_word"

lemma bit_le_word:
  "bit (le_word bs :: 'a::len word) n \<longleftrightarrow>
     n < LENGTH('a) \<and> n div 8 < length bs \<and> bit (bs ! (n div 8)) (n mod 8)"
proof (induction bs arbitrary: n)
  case (Cons b bs)
  show ?case
  proof (cases "n < 8")
    case True
    then show ?thesis by (auto simp: bit_simps)
  next
    case False
    then have "n div 8 = Suc ((n - 8) div 8)" "n mod 8 = (n - 8) mod 8"
      by (simp_all add: le_div_geq le_mod_geq)
    with False Cons.IH [of "n - 8"] show ?thesis
      by (auto simp: bit_simps dest: bit_imp_le_length)
  qed
qed simp

lemma le_word_le_bytes:
  assumes "LENGTH('a) = 8 * n"
  shows "le_word (le_bytes n w) = (w :: 'a::len word)"
proof (rule bit_word_eqI)
  fix i assume "i < LENGTH('a)"
  with assms have "i div 8 < n" by simp
  then show "bit (le_word (le_bytes n w) :: 'a word) i = bit w i"
    using \<open>i < LENGTH('a)\<close> by (simp add: bit_le_word le_bytes_def bit_simps)
qed

lemma le_bytes_le_word:
  assumes "LENGTH('a) = 8 * n" and "length bs = n"
  shows "le_bytes n (le_word bs :: 'a::len word) = bs"
proof (rule nth_equalityI)
  fix i assume "i < length (le_bytes n (le_word bs :: 'a word))"
  then have i: "i < n" by (simp add: le_bytes_def)
  show "le_bytes n (le_word bs :: 'a word) ! i = bs ! i"
  proof (rule bit_word_eqI)
    fix j assume "j < LENGTH(8)"
    then have j: "j < 8" by simp
    then have "8 * i + j < LENGTH('a)" using i assms(1) by simp
    then show "bit (le_bytes n (le_word bs :: 'a word) ! i) j = bit (bs ! i) j"
      using i j assms(2) by (simp add: le_bytes_def bit_simps bit_le_word)
  qed
qed (simp add: le_bytes_def assms)

interpretation c16: codec enc16 dec16 2
  by unfold_locales (simp_all add: enc16_def dec16_def le_word_le_bytes le_bytes_le_word, simp add: le_bytes_def)

interpretation c32: codec enc32 dec32 4
  by unfold_locales (simp_all add: enc32_def dec32_def le_word_le_bytes le_bytes_le_word, simp add: le_bytes_def)

interpretation c64: codec enc64 dec64 8
  by unfold_locales (simp_all add: enc64_def dec64_def le_word_le_bytes le_bytes_le_word, simp add: le_bytes_def)

end
