(* ===== verification/Theta_Preamble.thy ===== *)
theory Theta_Preamble
  imports Theta_Policy Bytes
begin

text \<open>
  \<^verbatim>\<open>detail/theta/preamble.hpp\<close>: the ordered, uncompressed compact Theta image, serialization
  version 3. The preamble is one, two or three 64-bit words: byte 0 its length in words,
  byte 1 the version, byte 2 the sketch type, byte 5 the flags, bytes 6 and 7 the seed hash,
  bytes 8 to 11 the entry count when there are two or three words, bytes 16 to 23 theta when
  there are three. The entries follow.
\<close>

section \<open>Format\<close>

definition uncompressed_serial_version :: u8 where "uncompressed_serial_version = 3"
definition sketch_type :: u8 where "sketch_type = 3"

definition flag_big_endian :: u8 where "flag_big_endian = push_bit 0 1"
definition flag_read_only :: u8 where "flag_read_only = push_bit 1 1"
definition flag_empty :: u8 where "flag_empty = push_bit 2 1"
definition flag_compact :: u8 where "flag_compact = push_bit 3 1"
definition flag_ordered :: u8 where "flag_ordered = push_bit 4 1"

record compact_image =
  ci_empty :: bool
  ci_theta :: u64
  ci_entries :: "u64 list"

definition serialize_compact_v3 :: "bool \<Rightarrow> u16 \<Rightarrow> u64 \<Rightarrow> u64 list \<Rightarrow> u8 list" where
  "serialize_compact_v3 emp seed_hash theta entries =
     (let estimation = (\<not> emp \<and> theta < max_theta);
          preamble_longs = (if estimation then 3 else if emp \<or> length entries = 1 then 1 else 2);
          preamble_bytes = preamble_longs * 8;
          bytes = replicate (preamble_bytes + length entries * 8) 0;
          bytes = bytes[0 := word_of_nat preamble_longs];
          bytes = bytes[1 := uncompressed_serial_version];
          bytes = bytes[2 := sketch_type];
          bytes = bytes[5 := flag_read_only OR flag_compact OR flag_ordered OR
                             (if emp then flag_empty else 0)];
          bytes = put_at bytes 6 (enc16 seed_hash);
          bytes = (if 1 < preamble_longs
                   then put_at bytes 8 (enc32 (word_of_nat (length entries))) else bytes);
          bytes = (if estimation then put_at bytes 16 (enc64 theta) else bytes)
      in if entries \<noteq> [] then put_at bytes preamble_bytes (concat (map enc64 entries)) else bytes)"

text \<open>The validation loop over the entries, each with the one before it.\<close>

fun check_hashes :: "u64 \<Rightarrow> u64 option \<Rightarrow> u64 list \<Rightarrow> unit result" where
  "check_hashes theta prev [] = Inr ()"
| "check_hashes theta prev (hash # rest) =
     (if hash = 0 \<or> theta \<le> hash
      then Inl (Invalid_argument ''theta_sketch::deserialize: retained hash is out of range'')
      else if (case prev of None \<Rightarrow> False | Some p \<Rightarrow> hash \<le> p)
      then Inl (Invalid_argument
             ''theta_sketch::deserialize: retained hashes are not strictly ordered'')
      else check_hashes theta (Some hash) rest)"

definition read_entries :: "u8 list \<Rightarrow> nat \<Rightarrow> nat \<Rightarrow> u64 list" where
  "read_entries bytes off n = map (\<lambda>i. dec64 (get_at bytes (off + i * 8) 8)) [0..<n]"

definition parse_compact_v3 :: "platform \<Rightarrow> u8 list \<Rightarrow> u64 \<Rightarrow> compact_image result" where
  "parse_compact_v3 pf bytes seed =
     (if length bytes < 8
      then Inl (Invalid_argument ''theta_sketch::deserialize: image shorter than one preamble long'')
      else let preamble_longs = unat (bytes ! 0); preamble_bytes = preamble_longs * 8 in
      if preamble_longs < 1 \<or> 3 < preamble_longs
      then Inl (Invalid_argument ''theta_sketch::deserialize: invalid preamble length'')
      else if length bytes < preamble_bytes
      then Inl (Invalid_argument ''theta_sketch::deserialize: truncated preamble'')
      else if bytes ! 1 \<noteq> uncompressed_serial_version
      then Inl (Invalid_argument
             ''theta_sketch::deserialize supports only uncompressed serialization version 3'')
      else if bytes ! 2 \<noteq> sketch_type
      then Inl (Invalid_argument ''theta_sketch::deserialize: unexpected sketch type'')
      else let flags = bytes ! 5 in
      if flags AND flag_big_endian \<noteq> 0
      then Inl (Invalid_argument ''theta_sketch::deserialize: big-endian images are unsupported'')
      else if flags AND flag_compact = 0 \<or> flags AND flag_ordered = 0
      then Inl (Invalid_argument
             ''theta_sketch::deserialize requires an ordered compact Theta image'')
      else let emp = (flags AND flag_empty \<noteq> 0); seed_hash = dec16 (get_at bytes 6 2) in
      if \<not> emp \<and> seed_hash \<noteq> compute_seed_hash pf seed
      then Inl (Invalid_argument ''theta_sketch::deserialize: seed hash mismatch'')
      else if emp \<and> preamble_longs \<noteq> 1
      then Inl (Invalid_argument ''theta_sketch::deserialize: empty image has invalid preamble'')
      else let num = (if emp then 0 else if preamble_longs = 1 then 1
                      else unat (dec32 (get_at bytes 8 4)));
               theta = (if \<not> emp \<and> preamble_longs = 3 then dec64 (get_at bytes 16 8)
                        else max_theta) in
      if theta = 0 \<or> max_theta < theta
      then Inl (Invalid_argument ''theta_sketch::deserialize: theta is out of range'')
      else if preamble_longs = 3 \<and> theta = max_theta
      then Inl (Invalid_argument ''theta_sketch::deserialize: estimation image has maximum theta'')
      else if length bytes \<noteq> preamble_bytes + num * 8
      then Inl (Invalid_argument ''theta_sketch::deserialize: image size mismatch'')
      else let entries = read_entries bytes preamble_bytes num in
      bind_result (check_hashes theta None entries)
        (\<lambda>_. Inr \<lparr>ci_empty = emp, ci_theta = theta, ci_entries = entries\<rparr>))"

section \<open>What an accepted image guarantees\<close>

text \<open>The contents a compact image may have: what serialization needs and parsing ensures.\<close>

definition image_ok :: "compact_image \<Rightarrow> bool" where
  "image_ok im \<longleftrightarrow> ascending (ci_entries im) \<and>
     (\<forall>h \<in> set (ci_entries im). h \<noteq> 0 \<and> h < ci_theta im) \<and>
     ci_theta im \<noteq> 0 \<and> ci_theta im \<le> max_theta \<and>
     length (ci_entries im) < 2 ^ 32 \<and>
     (ci_empty im \<longrightarrow> ci_entries im = [] \<and> ci_theta im = max_theta)"

lemma check_hashes_Inr:
  "check_hashes theta prev hs = Inr u \<longleftrightarrow>
     (\<forall>h \<in> set hs. h \<noteq> 0 \<and> h < theta) \<and>
     ascending (case prev of None \<Rightarrow> hs | Some p \<Rightarrow> p # hs)"
proof (induction theta prev hs rule: check_hashes.induct)
  case (2 theta prev hash rest)
  then show ?case
    by (cases prev) (auto simp: not_le not_less intro: less_trans)
qed (auto split: option.splits)

definition preamble_longs_of :: "bool \<Rightarrow> u64 \<Rightarrow> nat \<Rightarrow> nat" where
  "preamble_longs_of emp theta n =
     (if \<not> emp \<and> theta < max_theta then 3 else if emp \<or> n = 1 then 1 else 2)"

definition preamble_of :: "bool \<Rightarrow> u16 \<Rightarrow> u64 \<Rightarrow> nat \<Rightarrow> u8 list" where
  "preamble_of emp seed_hash theta n =
     [word_of_nat (preamble_longs_of emp theta n), 3, 3, 0, 0, (if emp then 30 else 26)]
     @ enc16 seed_hash
     @ (if 1 < preamble_longs_of emp theta n then enc32 (word_of_nat n) @ [0, 0, 0, 0] else [])
     @ (if preamble_longs_of emp theta n = 3 then enc64 theta else [])"

lemma serialize_layout:
  "serialize_compact_v3 emp seed_hash theta entries =
     preamble_of emp seed_hash theta (length entries) @ concat (map enc64 entries)"
proof -
  let ?es = "concat (map enc64 entries)"
  note fmt = uncompressed_serial_version_def sketch_type_def flag_read_only_def
    flag_compact_def flag_ordered_def flag_empty_def
  have len: "length ?es = length entries * 8" by (rule c64.length_enc_list)
  have rep: "replicate 4 (0::u8) = [0,0,0,0]" "replicate 8 (0::u8) = [0,0,0,0] @ [0,0,0,0]"
    "replicate 16 (0::u8) = [0,0,0,0,0,0,0,0] @ [0,0,0,0,0,0,0,0]"
    "replicate 24 (0::u8) = [0,0,0,0,0,0,0,0] @ [0,0,0,0,0,0,0,0] @ [0,0,0,0,0,0,0,0]"
    by (simp_all add: eval_nat_numeral)
  consider "\<not> emp \<and> theta < max_theta" | "\<not> (\<not> emp \<and> theta < max_theta)" "emp \<or> length entries = 1"
    | "\<not> (\<not> emp \<and> theta < max_theta)" "\<not> (emp \<or> length entries = 1)" by blast
  then show ?thesis
  proof cases
    case 1
    then have e: "(\<not> emp \<and> theta < max_theta) = True" "emp = False" by auto
    show ?thesis
      unfolding serialize_compact_v3_def preamble_of_def preamble_longs_of_def Let_def e if_True if_False
      by (cases "entries = []") (simp_all add: rep replicate_add put_at_def len fmt)
  next
    case 2
    then have e: "(\<not> emp \<and> theta < max_theta) = False" "(emp \<or> length entries = 1) = True"
      by blast+
    show ?thesis
      unfolding serialize_compact_v3_def preamble_of_def preamble_longs_of_def Let_def e if_True if_False
      by (cases emp; cases "entries = []") (simp_all add: rep replicate_add put_at_def len fmt)
  next
    case 3
    then have e: "(\<not> emp \<and> theta < max_theta) = False" "(emp \<or> length entries = 1) = False"
      "emp = False" by blast+
    show ?thesis
      unfolding serialize_compact_v3_def preamble_of_def preamble_longs_of_def Let_def e if_True if_False
      by (cases "entries = []") (simp_all add: rep replicate_add put_at_def len fmt)
  qed
qed

section \<open>Parsing what serialization wrote\<close>

text \<open>Reading back the entries that follow a preamble of \<open>off\<close> bytes.\<close>

lemma read_entries_layout:
  assumes "length pre = off"
  shows "read_entries (pre @ concat (map enc64 xs)) off (length xs) = xs"
proof -
  have "get_at (pre @ concat (map enc64 xs)) (off + i * 8) 8 = get_at (concat (map enc64 xs)) (i * 8) 8"
    for i using assms by (simp add: get_at_def)
  then show ?thesis by (simp add: read_entries_def c64.dec_enc_list)
qed

lemmas format_defs = uncompressed_serial_version_def sketch_type_def flag_big_endian_def
  flag_read_only_def flag_compact_def flag_ordered_def flag_empty_def

text \<open>How the parser reads a preamble of each length, whatever follows it.\<close>

lemma parse_one_long:
  assumes "seed_hash = compute_seed_hash pf seed" and "flags \<in> {26, 30}"
  shows "parse_compact_v3 pf ([1, 3, 3, 0, 0, flags] @ enc16 seed_hash @ rest) seed =
    (let emp = (flags = 30); n = (if emp then 0 else 1 :: nat);
         entries = read_entries ([1, 3, 3, 0, 0, flags] @ enc16 seed_hash @ rest) 8 n
     in if length rest \<noteq> n * 8
        then Inl (Invalid_argument ''theta_sketch::deserialize: image size mismatch'')
        else bind_result (check_hashes max_theta None entries)
          (\<lambda>_. Inr \<lparr>ci_empty = emp, ci_theta = max_theta, ci_entries = entries\<rparr>))"
  using assms by (auto simp: parse_compact_v3_def format_defs Let_def get_at_def max_theta_def)

lemma parse_two_longs:
  assumes "seed_hash = compute_seed_hash pf seed" and "n < 2 ^ 32"
  and bytes: "bytes = [2, 3, 3, 0, 0, 26] @ enc16 seed_hash @ (enc32 (word_of_nat n) @ [0, 0, 0, 0]) @ rest"
  shows "parse_compact_v3 pf bytes seed =
    (let entries = read_entries bytes 16 n
     in if length rest \<noteq> n * 8
        then Inl (Invalid_argument ''theta_sketch::deserialize: image size mismatch'')
        else bind_result (check_hashes max_theta None entries)
          (\<lambda>_. Inr \<lparr>ci_empty = False, ci_theta = max_theta, ci_entries = entries\<rparr>))"
  using assms(1,2) unfolding bytes
  by (simp add: parse_compact_v3_def format_defs Let_def get_at_def max_theta_def unat_of_nat)

lemma parse_three_longs:
  assumes "seed_hash = compute_seed_hash pf seed" and "n < 2 ^ 32" and "theta \<noteq> 0" "theta < max_theta"
  and bytes: "bytes = [3, 3, 3, 0, 0, 26] @ enc16 seed_hash @ (enc32 (word_of_nat n) @ [0, 0, 0, 0])
      @ enc64 theta @ rest"
  shows "parse_compact_v3 pf bytes seed =
    (let entries = read_entries bytes 24 n
     in if length rest \<noteq> n * 8
        then Inl (Invalid_argument ''theta_sketch::deserialize: image size mismatch'')
        else bind_result (check_hashes theta None entries)
          (\<lambda>_. Inr \<lparr>ci_empty = False, ci_theta = theta, ci_entries = entries\<rparr>))"
  using assms(1-4) less_imp_neq [OF assms(4)] less_not_sym [OF assms(4)] unfolding bytes
  by (simp add: parse_compact_v3_def format_defs Let_def get_at_def unat_of_nat)

lemma length_preamble_of: "length (preamble_of emp sh theta n) = 8 * preamble_longs_of emp theta n"
  by (simp add: preamble_of_def preamble_longs_of_def)

lemma parse_preamble_of:
  assumes "n < 2 ^ 32" and "theta \<noteq> 0" and "theta \<le> max_theta"
    and "emp \<longrightarrow> n = 0 \<and> theta = max_theta"
  shows "parse_compact_v3 pf (preamble_of emp (compute_seed_hash pf seed) theta n @ rest) seed =
    (let entries = read_entries (preamble_of emp (compute_seed_hash pf seed) theta n @ rest)
                     (8 * preamble_longs_of emp theta n) n
     in if length rest \<noteq> n * 8
        then Inl (Invalid_argument ''theta_sketch::deserialize: image size mismatch'')
        else bind_result (check_hashes theta None entries)
          (\<lambda>_. Inr \<lparr>ci_empty = emp, ci_theta = theta, ci_entries = entries\<rparr>))"
proof -
  consider (empty) "emp" "n = 0" "theta = max_theta"
    | (exact1) "\<not> emp" "theta = max_theta" "n = 1"
    | (exact) "\<not> emp" "theta = max_theta" "n \<noteq> 1"
    | (est) "\<not> emp" "theta < max_theta"
    using assms by (metis order_le_less)
  then show ?thesis
  proof cases
    case empty
    then show ?thesis
      using parse_one_long [OF refl, of 30 pf seed rest]
      by (simp add: preamble_of_def preamble_longs_of_def Let_def)
  next
    case exact1
    then show ?thesis
      using parse_one_long [OF refl, of 26 pf seed rest]
      by (simp add: preamble_of_def preamble_longs_of_def Let_def)
  next
    case exact
    then show ?thesis
      using parse_two_longs [OF refl assms(1) refl, of pf seed rest]
      by (simp add: preamble_of_def preamble_longs_of_def Let_def)
  next
    case est
    then show ?thesis
      using parse_three_longs [OF refl assms(1,2) est(2) refl, of pf seed rest]
      by (simp add: preamble_of_def preamble_longs_of_def Let_def)
  qed
qed

lemma image_ok_preamble:
  assumes "image_ok im"
  shows "length (ci_entries im) < 2 ^ 32" "ci_theta im \<noteq> 0" "ci_theta im \<le> max_theta"
    "ci_empty im \<longrightarrow> length (ci_entries im) = 0 \<and> ci_theta im = max_theta"
  using assms by (auto simp: image_ok_def)

definition serialize_image :: "platform \<Rightarrow> u64 \<Rightarrow> compact_image \<Rightarrow> u8 list" where
  "serialize_image pf seed im =
     serialize_compact_v3 (ci_empty im) (compute_seed_hash pf seed) (ci_theta im) (ci_entries im)"

lemma parse_serialize_image:
  assumes "image_ok im"
  shows "parse_compact_v3 pf (serialize_image pf seed im) seed = Inr im"
proof -
  let ?p = "preamble_of (ci_empty im) (compute_seed_hash pf seed) (ci_theta im) (length (ci_entries im))"
  let ?l = "preamble_longs_of (ci_empty im) (ci_theta im) (length (ci_entries im))"
  have r: "read_entries (?p @ concat (map enc64 (ci_entries im))) (8 * ?l) (length (ci_entries im))
      = ci_entries im"
    by (rule read_entries_layout) (rule length_preamble_of)
  have c: "check_hashes (ci_theta im) None (ci_entries im) = Inr ()"
    using assms by (simp add: check_hashes_Inr image_ok_def)
  show ?thesis
    unfolding serialize_image_def serialize_layout
      parse_preamble_of [OF image_ok_preamble [OF assms]] Let_def r
    by (simp add: c c64.length_enc_list)
qed

text \<open>Any other length is refused: every proper prefix and every extension of an image.\<close>

lemma parse_prefix:
  assumes "image_ok im" and "m < length (serialize_image pf seed im)"
  shows "\<exists>e. parse_compact_v3 pf (take m (serialize_image pf seed im)) seed = Inl e"
proof -
  let ?n = "length (ci_entries im)"
  let ?p = "preamble_of (ci_empty im) (compute_seed_hash pf seed) (ci_theta im) ?n"
  let ?l = "preamble_longs_of (ci_empty im) (ci_theta im) ?n"
  let ?es = "concat (map enc64 (ci_entries im))"
  have lp: "length ?p = 8 * ?l" by (rule length_preamble_of)
  have l: "?l \<in> {1, 2, 3}" by (simp add: preamble_longs_of_def)
  have ser: "serialize_image pf seed im = ?p @ ?es"
    by (simp add: serialize_image_def serialize_layout)
  show ?thesis
  proof (cases "m < 8 * ?l")
    case True
    have "take m (?p @ ?es) ! 0 = word_of_nat ?l" if "8 \<le> m"
      using that by (simp add: preamble_of_def)
    moreover have "unat (word_of_nat ?l :: u8) = ?l" using l by auto
    ultimately show ?thesis
      unfolding ser using True l lp
      by (auto simp: parse_compact_v3_def Let_def)
  next
    case False
    then have "take m (?p @ ?es) = ?p @ take (m - 8 * ?l) ?es" using lp by simp
    moreover have "length (take (m - 8 * ?l) ?es) \<noteq> ?n * 8"
      using assms(2) False lp unfolding ser by (simp add: c64.length_enc_list)
    ultimately show ?thesis
      unfolding ser by (simp add: parse_preamble_of [OF image_ok_preamble [OF assms(1)]] Let_def)
  qed
qed

lemma parse_extension:
  assumes "image_ok im" and "rest \<noteq> []"
  shows "parse_compact_v3 pf (serialize_image pf seed im @ rest) seed =
    Inl (Invalid_argument ''theta_sketch::deserialize: image size mismatch'')"
  using assms(2)
  by (simp add: serialize_image_def serialize_layout c64.length_enc_list
      parse_preamble_of [OF image_ok_preamble [OF assms(1)]] Let_def)

text \<open>Whatever the bytes, an accepted image is well formed.\<close>

lemma parse_image_ok:
  assumes "parse_compact_v3 pf bytes seed = Inr im"
  shows "image_ok im"
proof -
  have *: "length (read_entries bytes off n) = n" "read_entries bytes off 0 = []" for off n
    by (simp_all add: read_entries_def)
  have n: "unat (dec32 bs) < 2 ^ 32" for bs
    using unsigned_less [of "dec32 bs", where ?'a = nat] by simp
  show ?thesis
    using assms n [of "get_at bytes 8 4"]
    by (auto simp: parse_compact_v3_def Let_def image_ok_def check_hashes_Inr * not_less
        max_theta_def split: if_splits)
qed

end
