(* ===== verification/Theta_Sketch.thy ===== *)
theory Theta_Sketch
  imports Theta_Screen Theta_Preamble
begin

text \<open>
  \<^verbatim>\<open>detail/theta/sketch_impl.hpp\<close> and \<^verbatim>\<open>detail/theta/theta.inl\<close>: the Theta sketch. A const
  member that talks to the device is a function of the sketch into the device monad; a
  member that changes the sketch takes it and returns it with the result, also when it
  throws, so that what an exception leaves behind is part of the model.
\<close>

section \<open>State\<close>

record sketch =
  sk_lg_k :: u8
  sk_seed :: u64
  sk_initial_theta :: u64
  sk_theta :: u64
  sk_is_empty :: bool
  sk_survivor_budget :: nat
  sk_hashes :: "u64 list"

text \<open>A device buffer is the list of its elements; \<open>br_size\<close> of them are the result.\<close>

record buffer_result =
  br_data :: "u64 list"
  br_size :: nat

text \<open>Members that change the sketch: on an exception the sketch as the throw leaves it.\<close>

type_synonym 'a meth = "sketch \<Rightarrow> world \<Rightarrow> 'a result \<times> sketch \<times> world"

definition mreturn :: "'a \<Rightarrow> 'a meth" where
  "mreturn x s w = (Inr x, s, w)"

definition mthrow :: "error \<Rightarrow> 'a meth" where
  "mthrow e s w = (Inl e, s, w)"

definition mbind :: "'a meth \<Rightarrow> ('a \<Rightarrow> 'b meth) \<Rightarrow> 'b meth" where
  "mbind m f s w =
     (case m s w of (r, s', w') \<Rightarrow>
        (case r of Inl e \<Rightarrow> (Inl e, s', w') | Inr x \<Rightarrow> f x s' w'))"

definition call :: "'a dev \<Rightarrow> 'a meth" where
  "call m s w = (case m w of (r, w') \<Rightarrow> (r, s, w'))"

definition modify :: "(sketch \<Rightarrow> sketch) \<Rightarrow> unit meth" where
  "modify f s w = (Inr (), f s, w)"

section \<open>Construction and getters\<close>

definition k_of :: "sketch \<Rightarrow> nat" where
  "k_of s = 2 ^ unat (sk_lg_k s)"

definition effective_theta :: "sketch \<Rightarrow> u64" where
  "effective_theta s = (if sk_is_empty s then max_theta else sk_theta s)"

definition theta_rate :: "sketch \<Rightarrow> fp" where
  "theta_rate s = fdiv (f_of_nat (unat (sk_theta s))) (f_of_nat (unat max_theta))"

definition check_lg_k :: "u8 \<Rightarrow> u8 result" where
  "check_lg_k lg_k =
     (if lg_k < min_lg_k \<or> max_lg_k < lg_k
      then Inl (Invalid_argument ''theta_sketch lg_k must be in [5, 26]'') else Inr lg_k)"

text \<open>The sampling probability is a \<^verbatim>\<open>float\<close>, given by its bit pattern.\<close>

definition checked_theta :: "u32 \<Rightarrow> u64 result" where
  "checked_theta p_bits =
     (let p = decode32 p_bits;
          theta = (if fless (Fin 0) p \<and> fless p (Fin 1)
                   then word_of_nat (f_to_nat (fmul (f_of_nat (unat max_theta)) p)) else max_theta)
      in if \<not> (fless (Fin 0) p \<and> fleq p (Fin 1)) \<or> theta = 0
         then Inl (Invalid_argument
           ''theta_sketch sampling probability must be in (0, 1] and yield a nonzero theta'')
         else Inr theta)"

definition alloc :: "unit dev" where
  "alloc w = (case next_fault w of (failed, w') \<Rightarrow> (if failed then Inl Alloc_error else Inr (), w'))"

definition sync :: "unit dev" where "sync = cuda_try"

definition make_hash_buffer :: "platform \<Rightarrow> nat \<Rightarrow> u64 list dev" where
  "make_hash_buffer pf n = dbind alloc (\<lambda>_. dreturn (map (no_init pf) [0..<n]))"

text \<open>One counter, initialised to zero.\<close>

definition make_count_buffer :: "nat list dev" where
  "make_count_buffer = dbind alloc (\<lambda>_. dreturn [0])"

definition read_count :: "nat list \<Rightarrow> nat dev" where
  "read_count counter = dbind cuda_try (\<lambda>_. dbind sync (\<lambda>_. dreturn (counter ! 0)))"

definition construct :: "platform \<Rightarrow> u8 \<Rightarrow> u64 \<Rightarrow> u32 \<Rightarrow> sketch dev" where
  "construct pf lg_k seed p =
     (case check_lg_k lg_k of Inl e \<Rightarrow> dthrow e | Inr lg_k \<Rightarrow>
      case checked_theta p of Inl e \<Rightarrow> dthrow e | Inr theta \<Rightarrow>
      dbind (make_hash_buffer pf 0) (\<lambda>hashes. dreturn
        \<lparr>sk_lg_k = lg_k, sk_seed = seed, sk_initial_theta = theta, sk_theta = theta,
         sk_is_empty = True,
         sk_survivor_budget = max min_survivor_budget (chunk_target_multiple * 2 ^ unat lg_k),
         sk_hashes = hashes\<rparr>))"

definition is_empty :: "sketch \<Rightarrow> bool" where "is_empty s = sk_is_empty s"

definition is_estimation_mode :: "sketch \<Rightarrow> bool" where
  "is_estimation_mode s \<longleftrightarrow> \<not> sk_is_empty s \<and> sk_theta s < max_theta"

definition is_ordered :: "sketch \<Rightarrow> bool" where "is_ordered s = True"

definition get_lg_k :: "sketch \<Rightarrow> u8" where "get_lg_k s = sk_lg_k s"

definition get_theta64 :: "sketch \<Rightarrow> u64" where "get_theta64 s = effective_theta s"

definition get_theta :: "sketch \<Rightarrow> fp" where
  "get_theta s = fdiv (f_of_nat (unat (get_theta64 s))) (f_of_nat (unat max_theta))"

definition get_seed_hash :: "platform \<Rightarrow> sketch \<Rightarrow> u16" where
  "get_seed_hash pf s = compute_seed_hash pf (sk_seed s)"

definition get_num_retained :: "sketch \<Rightarrow> nat" where
  "get_num_retained s = length (sk_hashes s)"

definition get_estimate :: "sketch \<Rightarrow> fp" where
  "get_estimate s = fdiv (f_of_nat (get_num_retained s)) (get_theta s)"

text \<open>The bounds in estimation mode are those of \<^verbatim>\<open>binomial_bounds\<close> of datasketches-cpp.\<close>

definition get_lower_bound :: "(nat \<Rightarrow> fp \<Rightarrow> u8 \<Rightarrow> fp result) \<Rightarrow> sketch \<Rightarrow> u8 \<Rightarrow> fp result" where
  "get_lower_bound binomial_lower s num_std_devs =
     (if \<not> is_estimation_mode s then Inr (f_of_nat (get_num_retained s))
      else binomial_lower (get_num_retained s) (get_theta s) num_std_devs)"

definition get_upper_bound :: "(nat \<Rightarrow> fp \<Rightarrow> u8 \<Rightarrow> fp result) \<Rightarrow> sketch \<Rightarrow> u8 \<Rightarrow> fp result" where
  "get_upper_bound binomial_upper s num_std_devs =
     (if \<not> is_estimation_mode s then Inr (f_of_nat (get_num_retained s))
      else binomial_upper (get_num_retained s) (get_theta s) num_std_devs)"

section \<open>Device operations on buffers\<close>

definition write_prefix :: "u64 list \<Rightarrow> u64 list \<Rightarrow> u64 list" where
  "write_prefix xs buf = xs @ drop (length xs) buf"

definition select :: "platform \<Rightarrow> u64 list \<Rightarrow> (u64 \<Rightarrow> bool) \<Rightarrow> buffer_result dev" where
  "select pf input predicate =
     dbind (make_hash_buffer pf (length input)) (\<lambda>output.
     if input = [] then dreturn \<lparr>br_data = output, br_size = 0\<rparr>
     else dbind make_count_buffer (\<lambda>_.
     dbind cuda_try (\<lambda>_.
     let kept = select_if pf predicate input; output = write_prefix kept output;
         selected = [length kept]
     in dbind (read_count selected) (\<lambda>n. dreturn \<lparr>br_data = output, br_size = n\<rparr>))))"

definition unique_sorted :: "platform \<Rightarrow> u64 list \<Rightarrow> buffer_result dev" where
  "unique_sorted pf sorted_keys =
     dbind (make_hash_buffer pf (length sorted_keys)) (\<lambda>output.
     dbind make_count_buffer (\<lambda>_.
     dbind cuda_try (\<lambda>_.
     let kept = select_unique pf sorted_keys; output = write_prefix kept output;
         selected = [length kept]
     in dbind (read_count selected) (\<lambda>n. dreturn \<lparr>br_data = output, br_size = n\<rparr>))))"

text \<open>
  The radix sort alternates between the two buffers and looks at the bits below
  \<^verbatim>\<open>bit_width(bound)\<close> only; the current buffer holds the sorted keys afterwards.
\<close>

definition sort_unique :: "platform \<Rightarrow> u64 list \<Rightarrow> nat \<Rightarrow> u64 \<Rightarrow> buffer_result dev" where
  "sort_unique pf input n bound =
     dbind (make_hash_buffer pf n) (\<lambda>alternate.
     dbind cuda_try (\<lambda>_.
     unique_sorted pf (sort_keys pf 0 (bit_width (unat bound)) (take n input))))"

text \<open>A launch with an empty grid is an invalid configuration, which the next check reports.\<close>

definition screen :: "platform \<Rightarrow> sketch \<Rightarrow> key list \<Rightarrow> buffer_result dev" where
  "screen pf s keys =
     (let capacity = min (length keys) (sk_survivor_budget s) in
     dbind (make_hash_buffer pf capacity) (\<lambda>output.
     dbind make_count_buffer (\<lambda>_.
     dbind take_sched (\<lambda>sched.
     let grid = unat (grid_size (length keys));
         launch = \<lparr>l_keys = keys, l_hasher = theta_hash pf (sk_seed s), l_theta = sk_theta s,
                   l_capacity = capacity, l_grid = grid\<rparr>
     in if grid = 0 then dthrow Cuda_error
        else let (output, cnt) = screen_kernel launch sched output in
        dbind cuda_try (\<lambda>_.
        dbind (read_count [cnt]) (\<lambda>n. dreturn \<lparr>br_data = output, br_size = n\<rparr>))))))"

definition merge_unique :: "platform \<Rightarrow> u64 list \<Rightarrow> u64 list \<Rightarrow> buffer_result dev" where
  "merge_unique pf first second =
     (let merged_size = length first + length second in
     dbind (make_hash_buffer pf merged_size) (\<lambda>merged.
     if merged_size = 0 then dreturn \<lparr>br_data = merged, br_size = 0\<rparr>
     else if length first = 0 \<or> length second = 0
     then dbind cuda_try (\<lambda>_. dreturn
            \<lparr>br_data = write_prefix (if length first = 0 then second else first) merged,
             br_size = merged_size\<rparr>)
     else dbind cuda_try (\<lambda>_. unique_sorted pf (merge_keys pf first second))))"

section \<open>Operations that change the sketch\<close>

definition install :: "platform \<Rightarrow> buffer_result \<Rightarrow> u64 \<Rightarrow> bool \<Rightarrow> unit meth" where
  "install pf input theta emp s =
     (let retained = min (br_size input) (k_of s); data = br_data input;
          reuse = (length data = retained) in
     mbind (if reuse then mreturn data else call (make_hash_buffer pf retained)) (\<lambda>next.
     mbind (if \<not> reuse \<and> retained \<noteq> 0
            then mbind (call cuda_try) (\<lambda>_. mreturn (write_prefix (take retained data) next))
            else mreturn next) (\<lambda>next.
     mbind (if k_of s < br_size input
            then mbind (call cuda_try) (\<lambda>_. mreturn (data ! k_of s)) else mreturn theta) (\<lambda>theta.
     mbind (call sync) (\<lambda>_.
     mbind (modify (\<lambda>s. s\<lparr>sk_hashes := next\<rparr>)) (\<lambda>_.
     mbind (modify (\<lambda>s. s\<lparr>sk_theta := if emp then sk_initial_theta s else theta\<rparr>)) (\<lambda>_.
     modify (\<lambda>s. s\<lparr>sk_is_empty := emp\<rparr>))))))) s)"

definition next_chunk :: "sketch \<Rightarrow> nat \<Rightarrow> nat \<Rightarrow> fp \<Rightarrow> nat" where
  "next_chunk s remaining previous duplicate_factor =
     (let hedged = fmin (Fin 1) (fmul duplicate_hedge duplicate_factor);
          rate = fmul (theta_rate s) hedged;
          target = (if fless (Fin 0) rate
                    then fdiv (f_of_nat (sk_survivor_budget s)) (fmul budget_margin rate)
                    else f_of_nat remaining);
          sized = (if fleq (f_of_nat remaining) target then remaining else f_to_nat target);
          sized = (if fless hedged (Fin 1) \<and> previous \<noteq> 0 \<and> previous < sized div max_chunk_growth
                   then previous * max_chunk_growth mod 2 ^ 64 else sized);
          sized = max sized 1
      in if sk_theta s = max_theta
         then let doubling = max (max (chunk_target_multiple * k_of s) min_chunk_keys)
                               (previous * 2 mod 2 ^ 64)
              in min (min doubling sized) remaining
         else min (max sized min_chunk_keys) remaining)"

text \<open>One pass; the count of survivors is returned, and installed when it fits.\<close>

definition update_chunk :: "platform \<Rightarrow> key list \<Rightarrow> nat meth" where
  "update_chunk pf keys s =
     mbind (call (screen pf s keys)) (\<lambda>screened.
     if length (br_data screened) < br_size screened \<or> br_size screened = 0
     then mreturn (br_size screened)
     else mbind (call (sort_unique pf (br_data screened) (br_size screened) (sk_theta s)))
       (\<lambda>incoming.
     mbind (if sk_hashes s = [] then mreturn incoming
            else call (merge_unique pf (sk_hashes s) (take (br_size incoming) (br_data incoming))))
       (\<lambda>combined.
     mbind (install pf combined (sk_theta s) False) (\<lambda>_.
     mreturn (br_size screened))))) s"

definition key_range :: "(int \<Rightarrow> key) \<Rightarrow> int \<Rightarrow> nat \<Rightarrow> key list" where
  "key_range mem first n = map (\<lambda>i. mem (first + int i)) [0..<n]"

text \<open>
  The two loops of \<^verbatim>\<open>update\<close>: the retries of a chunk that overflowed, and the chunks. Both
  run as long as their conditions hold, so that returning at all is something to prove.
\<close>

partial_function (option) retry_chunk ::
  "platform \<Rightarrow> (int \<Rightarrow> key) \<Rightarrow> int \<Rightarrow> nat \<Rightarrow> nat \<Rightarrow> fp \<Rightarrow> nat \<Rightarrow> nat \<Rightarrow> sketch \<Rightarrow> world
     \<Rightarrow> ((nat \<times> nat) result \<times> sketch \<times> world) option" where
  "retry_chunk pf mem pos remaining previous rate chunk outcome s w =
     (if sk_survivor_budget s < outcome then
        let duplicate_factor = fdiv (fdiv (f_of_nat outcome) (f_of_nat chunk)) rate;
            chunk = min (chunk div 2) (next_chunk s remaining previous duplicate_factor)
        in (case update_chunk pf (key_range mem pos chunk) s w of (r, s, w) \<Rightarrow>
             (case r of Inl e \<Rightarrow> Some (Inl e, s, w)
              | Inr outcome \<Rightarrow> retry_chunk pf mem pos remaining previous rate chunk outcome s w))
      else Some (Inr (chunk, outcome), s, w))"

partial_function (option) update_loop ::
  "platform \<Rightarrow> (int \<Rightarrow> key) \<Rightarrow> int \<Rightarrow> nat \<Rightarrow> nat \<Rightarrow> nat \<Rightarrow> fp \<Rightarrow> sketch \<Rightarrow> world
     \<Rightarrow> (unit result \<times> sketch \<times> world) option" where
  "update_loop pf mem first n offset previous duplicate_factor s w =
     (if offset < n then
        let chunk = next_chunk s (n - offset) previous duplicate_factor;
            rate = theta_rate s; pos = first + int offset
        in (case update_chunk pf (key_range mem pos chunk) s w of (r, s, w) \<Rightarrow>
             (case r of Inl e \<Rightarrow> Some (Inl e, s, w)
              | Inr outcome \<Rightarrow>
                  Option.bind (retry_chunk pf mem pos (n - offset) previous rate chunk outcome s w)
                    (\<lambda>(r, s, w). case r of Inl e \<Rightarrow> Some (Inl e, s, w)
                     | Inr (chunk, outcome) \<Rightarrow>
                         update_loop pf mem first n (offset + chunk) chunk
                           (fdiv (fdiv (f_of_nat outcome) (f_of_nat chunk)) rate)
                           (s\<lparr>sk_is_empty := False\<rparr>) w)))
      else Some (Inr (), s, w))"

text \<open>\<open>mem\<close> is what the iterators give at every position of the range.\<close>

definition update ::
  "platform \<Rightarrow> (int \<Rightarrow> key) \<Rightarrow> int \<Rightarrow> int \<Rightarrow> sketch \<Rightarrow> world
     \<Rightarrow> (unit result \<times> sketch \<times> world) option" where
  "update pf mem first stop s w =
     (let distance = stop - first
      in if distance < 0
         then Some (Inl (Invalid_argument ''theta_sketch::update requires a non-negative range''), s, w)
         else update_loop pf mem first (nat distance) 0 0 (Fin 1) s w)"

definition merge :: "platform \<Rightarrow> sketch \<Rightarrow> unit meth" where
  "merge pf other s =
     (if sk_is_empty other then mreturn () s
      else if compute_seed_hash pf (sk_seed s) \<noteq> compute_seed_hash pf (sk_seed other)
      then mthrow (Invalid_argument ''theta_sketch::merge: seed hash mismatch'') s
      else let theta = min (sk_theta s) (effective_theta other) in
      mbind (call (merge_unique pf (sk_hashes s) (sk_hashes other))) (\<lambda>combined.
      mbind (call (select pf (take (br_size combined) (br_data combined)) (screen_hash theta)))
        (\<lambda>screened. install pf screened theta False)) s)"

definition reset :: "platform \<Rightarrow> unit meth" where
  "reset pf =
     mbind (call (make_hash_buffer pf 0)) (\<lambda>buffer.
     install pf \<lparr>br_data = buffer, br_size = 0\<rparr> max_theta True)"

definition retain_matching :: "platform \<Rightarrow> sketch \<Rightarrow> bool \<Rightarrow> unit meth" where
  "retain_matching pf other keep_matches s =
     (if compute_seed_hash pf (sk_seed s) \<noteq> compute_seed_hash pf (sk_seed other)
      then mthrow (Invalid_argument
             (if keep_matches then ''theta_sketch::intersect: seed hash mismatch''
              else ''theta_sketch::a_not_b: seed hash mismatch'')) s
      else let theta = min (effective_theta s) (effective_theta other) in
      mbind (call (select pf (sk_hashes s)
                (membership_filter (sk_hashes other) theta keep_matches))) (\<lambda>kept.
      let emp = (br_size kept = 0 \<and> theta = max_theta)
      in install pf kept theta emp) s)"

definition intersect :: "platform \<Rightarrow> sketch \<Rightarrow> unit meth" where
  "intersect pf other s =
     (if sk_is_empty s then mreturn () s
      else if sk_is_empty other then reset pf s
      else retain_matching pf other True s)"

definition a_not_b :: "platform \<Rightarrow> sketch \<Rightarrow> unit meth" where
  "a_not_b pf other s =
     (if sk_is_empty s \<or> (sk_hashes s \<noteq> [] \<and> sk_is_empty other) then mreturn () s
      else retain_matching pf other False s)"

section \<open>Reading out and serialization\<close>

definition get_retained_hashes :: "sketch \<Rightarrow> u64 list dev" where
  "get_retained_hashes s =
     (if sk_hashes s \<noteq> []
      then dbind cuda_try (\<lambda>_. dbind sync (\<lambda>_. dreturn (sk_hashes s)))
      else dbind sync (\<lambda>_. dreturn []))"

definition serialize_compact :: "platform \<Rightarrow> sketch \<Rightarrow> u8 list dev" where
  "serialize_compact pf s =
     dbind (get_retained_hashes s) (\<lambda>entries. dreturn
       (serialize_compact_v3 (sk_is_empty s) (compute_seed_hash pf (sk_seed s))
          (effective_theta s) entries))"

definition load_compact :: "platform \<Rightarrow> compact_image \<Rightarrow> unit meth" where
  "load_compact pf img s =
     (if k_of s < length (ci_entries img)
      then mthrow (Invalid_argument
             ''theta_sketch::deserialize: retained entries exceed configured nominal k'') s
      else mbind (call (make_hash_buffer pf (length (ci_entries img)))) (\<lambda>next.
      mbind (if ci_entries img \<noteq> []
             then mbind (call cuda_try) (\<lambda>_. mreturn (write_prefix (ci_entries img) next))
             else mreturn next) (\<lambda>next.
      install pf \<lparr>br_data = next, br_size = length (ci_entries img)\<rparr>
        (ci_theta img) (ci_empty img))) s)"

text \<open>The default sampling probability of the constructor is \<^verbatim>\<open>1.0F\<close>.\<close>

definition deserialize :: "platform \<Rightarrow> u8 list \<Rightarrow> u8 \<Rightarrow> u64 \<Rightarrow> sketch dev" where
  "deserialize pf bytes lg_k seed =
     dbind sync (\<lambda>_ w.
     case parse_compact_v3 pf bytes seed of Inl e \<Rightarrow> (Inl e, w)
     | Inr img \<Rightarrow>
         dbind (construct pf lg_k seed 0x3f800000) (\<lambda>s w.
         case load_compact pf img s w of (r, s, w) \<Rightarrow>
           (case r of Inl e \<Rightarrow> (Inl e, w) | Inr _ \<Rightarrow> (Inr s, w))) w)"

end
