(* ===== verification/Theta_Spec.thy ===== *)
theory Theta_Spec
  imports Theta_Policy
begin

text \<open>
  What a Theta sketch promises, without reference to buffers or kernels. A sample of a set
  of hashes at a threshold is the ascending list of the nonzero hashes below it. A summary
  is the sample a sketch of nominal size \<open>n\<close> keeps: at most \<open>n\<close> hashes, at the largest
  threshold that allows it. It is unique, so two histories with the same set of hashes end
  in the same summary.
\<close>

section \<open>Samples and summaries\<close>

definition below :: "u64 set \<Rightarrow> u64 \<Rightarrow> u64 set" where
  "below H theta = {h \<in> H. h \<noteq> 0 \<and> h < theta}"

definition up_to :: "u64 set \<Rightarrow> u64 \<Rightarrow> u64 set" where
  "up_to H theta = {h \<in> H. h \<noteq> 0 \<and> h \<le> theta}"

definition sample :: "u64 set \<Rightarrow> u64 \<Rightarrow> u64 list \<Rightarrow> bool" where
  "sample H theta xs \<longleftrightarrow> ascending xs \<and> set xs = below H theta"

definition summary :: "nat \<Rightarrow> u64 \<Rightarrow> u64 set \<Rightarrow> u64 \<Rightarrow> u64 list \<Rightarrow> bool" where
  "summary n theta0 H theta xs \<longleftrightarrow>
     sample H theta xs \<and> theta \<le> theta0 \<and> length xs \<le> n \<and>
     (theta < theta0 \<longrightarrow> n < card (up_to H theta))"

text \<open>What \<open>install\<close> does to a sample: beyond \<open>n\<close> hashes, the first one left out is theta.\<close>

definition trim :: "nat \<Rightarrow> u64 \<Rightarrow> u64 list \<Rightarrow> u64 \<times> u64 list" where
  "trim n theta xs = (if n < length xs then (xs ! n, take n xs) else (theta, xs))"

definition summarize :: "nat \<Rightarrow> u64 \<Rightarrow> u64 list \<Rightarrow> u64 \<times> u64 list" where
  "summarize n theta0 hs =
     trim n theta0 (remdups_adj (sort (filter (\<lambda>h. h \<noteq> 0 \<and> h < theta0) hs)))"

section \<open>Samples\<close>

lemma below_mono: "theta \<le> theta' \<Longrightarrow> below (below H theta') theta = below H theta"
  by (auto simp: below_def)

lemma below_Un: "below (H \<union> K) theta = below H theta \<union> below K theta"
  by (auto simp: below_def)

lemma below_empty [simp]: "below {} theta = {}"
  by (simp add: below_def)

lemma below_subset_up_to: "theta \<le> theta' \<Longrightarrow> below H theta \<subseteq> up_to H theta'"
  by (auto simp: below_def up_to_def)

lemma up_to_subset_below: "theta < theta' \<Longrightarrow> up_to H theta \<subseteq> below H theta'"
  by (auto simp: below_def up_to_def)

lemma up_to_mono: "H \<subseteq> K \<Longrightarrow> card (up_to H theta) \<le> card (up_to K theta)"
  by (rule card_mono) (auto simp: up_to_def)

lemma sample_unique: "sample H theta xs \<Longrightarrow> sample H theta ys \<Longrightarrow> xs = ys"
  unfolding sample_def by (metis ascending_unique)

lemma sample_length: "sample H theta xs \<Longrightarrow> length xs = card (below H theta)"
  unfolding sample_def by (metis ascending_length)

lemma sample_Nil [intro]: "below H theta = {} \<Longrightarrow> sample H theta []"
  by (simp add: sample_def)

lemma sampleD:
  assumes "sample H theta xs"
  shows "ascending xs" and "set xs = below H theta"
    and "\<And>h. h \<in> set xs \<Longrightarrow> h \<noteq> 0 \<and> h < theta"
  using assms by (simp_all add: sample_def below_def)

text \<open>Lowering the threshold filters the list.\<close>

lemma sample_lower:
  "sample H theta xs \<Longrightarrow> theta' \<le> theta \<Longrightarrow> sample H theta' (filter (\<lambda>h. h < theta') xs)"
  unfolding sample_def below_def
  by (rule conjI, blast intro: ascending_filter, simp, blast intro: less_le_trans)

section \<open>Trimming\<close>

lemma sample_trim:
  assumes "sample H theta xs" and "trim n theta xs = (theta', xs')"
  shows "sample H theta' xs'" and "length xs' \<le> n" and "theta' \<le> theta"
    and "theta' < theta \<Longrightarrow> n < card (up_to H theta')"
    and "theta \<noteq> 0 \<Longrightarrow> theta' \<noteq> 0"
proof -
  note s = sampleD [OF assms(1)]
  consider (keep) "length xs \<le> n" "theta' = theta" "xs' = xs"
    | (cut) "n < length xs" "theta' = xs ! n" "xs' = take n xs"
    using assms(2) by (simp add: trim_def not_less split: if_splits)
  then have "sample H theta' xs' \<and> length xs' \<le> n \<and> theta' \<le> theta \<and>
     (theta' < theta \<longrightarrow> n < card (up_to H theta')) \<and> (theta \<noteq> 0 \<longrightarrow> theta' \<noteq> 0)"
  proof cases
    case keep
    then show ?thesis using assms(1) by simp
  next
    case cut
    have at: "xs ! n \<in> set xs" using cut(1) by simp
    then have lt: "xs ! n < theta" "xs ! n \<noteq> 0" using s(3) by auto
    have "set (take n xs) = below H (xs ! n)"
      unfolding ascending_take_set [OF s(1) cut(1)] s(2) below_def
      using lt(1) by (intro set_eqI) (simp, meson less_trans)
    moreover have "set (take (Suc n) xs) \<subseteq> up_to H (xs ! n)"
      using \<open>set (take n xs) = below H (xs ! n)\<close> at s(2) cut(1)
      by (auto simp: take_Suc_conv_app_nth below_def up_to_def)
    then have "card (set (take (Suc n) xs)) \<le> card (up_to H (xs ! n))"
      by (rule card_mono [rotated]) (simp add: up_to_def)
    moreover have "card (set (take (Suc n) xs)) = Suc n"
      using ascending_length [OF ascending_take [OF s(1), of "Suc n"]] cut(1) by simp
    ultimately show ?thesis
      using cut lt s(1) by (auto simp: sample_def ascending_take)
  qed
  then show "sample H theta' xs'" "length xs' \<le> n" "theta' \<le> theta"
    "theta' < theta \<Longrightarrow> n < card (up_to H theta')" "theta \<noteq> 0 \<Longrightarrow> theta' \<noteq> 0"
    by auto
qed

text \<open>
  Trimming a sample gives a summary whenever a threshold below \<open>theta0\<close> is explained by
  more than \<open>n\<close> hashes up to it.
\<close>

lemma summary_trim:
  assumes "sample H theta xs" and "trim n theta xs = (theta', xs')" and "theta \<le> theta0"
    and "theta < theta0 \<Longrightarrow> n < card (up_to H theta)"
  shows "summary n theta0 H theta' xs'"
proof -
  note t = sample_trim [OF assms(1,2)]
  have "n < card (up_to H theta')" if "theta' < theta0"
    using t(3,4) assms(4) that by (cases "theta' < theta") auto
  with t assms(3) show ?thesis by (auto simp: summary_def)
qed

lemma summary_unique:
  assumes "summary n theta0 H theta xs" and "summary n theta0 H theta' xs'"
  shows "theta = theta' \<and> xs = xs'"
proof -
  have no: "\<not> t < t'" if "summary n theta0 H t ys" and "summary n theta0 H t' ys'" for t t' ys ys'
  proof
    assume less: "t < t'"
    with that have "n < card (up_to H t)" by (auto simp: summary_def)
    also have "\<dots> \<le> card (below H t')"
      by (rule card_mono) (use up_to_subset_below [OF less] in auto)
    also have "\<dots> = length ys'" using that(2) sample_length [of H t' ys'] by (simp add: summary_def)
    also have "\<dots> \<le> n" using that(2) by (simp add: summary_def)
    finally show False by simp
  qed
  have "theta = theta'" using no [OF assms] no [OF assms(2,1)] by simp
  with assms show ?thesis by (auto simp: summary_def intro: sample_unique)
qed

lemma sample_summarize:
  "sample (set hs) theta0 (remdups_adj (sort (filter (\<lambda>h. h \<noteq> 0 \<and> h < theta0) hs)))"
  by (auto simp: sample_def below_def ascending_remdups_adj)

text \<open>The relation and the function are the same specification.\<close>

lemma summary_iff_summarize:
  "summary n theta0 (set hs) theta xs \<longleftrightarrow> summarize n theta0 hs = (theta, xs)"
proof
  assume s: "summary n theta0 (set hs) theta xs"
  obtain t ys where ty: "summarize n theta0 hs = (t, ys)" by fastforce
  then have "summary n theta0 (set hs) t ys"
    unfolding summarize_def by (rule summary_trim [OF sample_summarize]) auto
  with s ty show "summarize n theta0 hs = (theta, xs)" using summary_unique by blast
next
  assume "summarize n theta0 hs = (theta, xs)"
  then show "summary n theta0 (set hs) theta xs"
    unfolding summarize_def by (rule summary_trim [OF sample_summarize]) auto
qed

lemma summary_empty: "summary n theta0 {} theta0 []"
  by (auto simp: summary_def)

text \<open>A summary is one at every larger size, when its own threshold is taken as the initial one.\<close>

lemma summary_at_theta:
  "summary n theta0 H theta xs \<Longrightarrow> n \<le> m \<Longrightarrow> summary m theta H theta xs"
  by (auto simp: summary_def)

section \<open>Feeding and merging\<close>

text \<open>New hashes, screened at the current threshold, then trimmed.\<close>

lemma summary_feed:
  assumes "summary n theta0 H theta xs" and "sample (H \<union> K) theta ys"
    and "trim n theta ys = (theta', xs')"
  shows "summary n theta0 (H \<union> K) theta' xs'"
proof (rule summary_trim [OF assms(2,3)])
  show "theta \<le> theta0" using assms(1) by (simp add: summary_def)
  show "n < card (up_to (H \<union> K) theta)" if "theta < theta0"
    using assms(1) that up_to_mono [of H "H \<union> K" theta] by (auto simp: summary_def)
qed

lemma summary_merge:
  assumes a: "summary n theta1 H thetaA as" and b: "summary m theta2 K thetaB bs"
    and nm: "n \<le> m" and s: "sample (H \<union> K) (min thetaA thetaB) ys"
    and t: "trim n (min thetaA thetaB) ys = (theta', xs')"
  shows "summary n (min theta1 theta2) (H \<union> K) theta' xs'"
proof (rule summary_trim [OF s t])
  show "min thetaA thetaB \<le> min theta1 theta2"
    using a b by (auto simp: summary_def min_le_iff_disj)
  assume less: "min thetaA thetaB < min theta1 theta2"
  have "n < card (up_to H thetaA)" if "thetaA < theta1" using a that by (simp add: summary_def)
  moreover have "n < card (up_to K thetaB)" if "thetaB < theta2"
    using b that nm by (simp add: summary_def)
  ultimately show "n < card (up_to (H \<union> K) (min thetaA thetaB))"
    using less up_to_mono [of H "H \<union> K" thetaA] up_to_mono [of K "H \<union> K" thetaB]
    by (fastforce simp: min_def split: if_splits)
qed

end
