(* ===== verification/Theta_Ops.thy ===== *)
theory Theta_Ops
  imports Theta_Sketch Theta_Spec
begin

text \<open>
  What each device operation and each member of the Theta sketch returns: with what value,
  what it leaves of the sketch when it throws, and that it returns when nothing fails.
\<close>

section \<open>The method monad\<close>

lemma mreturn_Inr [simp]: "mreturn x s w = (Inr y, s', w') \<longleftrightarrow> y = x \<and> s' = s \<and> w' = w"
  by (auto simp: mreturn_def)

lemma mreturn_Inl [simp]: "mreturn x s w \<noteq> (Inl e, s', w')"
  by (simp add: mreturn_def)

lemma mthrow_Inr [simp]: "mthrow e s w \<noteq> (Inr y, s', w')"
  by (simp add: mthrow_def)

lemma mthrow_Inl [simp]: "mthrow e s w = (Inl e', s', w') \<longleftrightarrow> e' = e \<and> s' = s \<and> w' = w"
  by (auto simp: mthrow_def)

lemma mbind_Inr [simp]:
  "mbind m f s w = (Inr y, s'', w'') \<longleftrightarrow>
     (\<exists>x s' w'. m s w = (Inr x, s', w') \<and> f x s' w' = (Inr y, s'', w''))"
  by (auto simp: mbind_def split: prod.splits sum.splits)

lemma mbind_Inl:
  "mbind m f s w = (Inl e, s'', w'') \<longleftrightarrow>
     m s w = (Inl e, s'', w'') \<or>
     (\<exists>x s' w'. m s w = (Inr x, s', w') \<and> f x s' w' = (Inl e, s'', w''))"
  by (auto simp: mbind_def split: prod.splits sum.splits)

lemma call_eq [simp]: "call m s w = (r, s', w') \<longleftrightarrow> s' = s \<and> m w = (r, w')"
  by (auto simp: call_def split: prod.splits)

lemma modify_Inr [simp]: "modify f s w = (Inr y, s', w') \<longleftrightarrow> s' = f s \<and> w' = w"
  by (auto simp: modify_def)

lemma modify_Inl [simp]: "modify f s w \<noteq> (Inl e, s', w')"
  by (simp add: modify_def)

text \<open>\<open>keeps m\<close>: when \<open>m\<close> throws, the sketch is as before the call.\<close>

definition keeps :: "'a meth \<Rightarrow> bool" where
  "keeps m \<longleftrightarrow> (\<forall>s w e s' w'. m s w = (Inl e, s', w') \<longrightarrow> s' = s)"

text \<open>\<open>pure m\<close>: \<open>m\<close> leaves the sketch alone, whatever it returns.\<close>

definition pure :: "'a meth \<Rightarrow> bool" where
  "pure m \<longleftrightarrow> (\<forall>s w r s' w'. m s w = (r, s', w') \<longrightarrow> s' = s)"

lemma keepsD: "keeps m \<Longrightarrow> m s w = (Inl e, s', w') \<Longrightarrow> s' = s"
  unfolding keeps_def by blast

lemma pure_mreturn [intro]: "pure (mreturn x)"
  by (simp add: pure_def mreturn_def)

lemma pure_mthrow [intro]: "pure (mthrow e)"
  by (simp add: pure_def mthrow_def)

lemma pure_call [intro]: "pure (call m)"
  by (simp add: pure_def)

lemma pure_mbind [intro]: "pure m \<Longrightarrow> (\<And>x. pure (f x)) \<Longrightarrow> pure (mbind m f)"
  unfolding pure_def mbind_def by (fastforce split: prod.splits sum.splits)

lemma pure_keeps [intro]: "pure m \<Longrightarrow> keeps m"
  by (auto simp: pure_def keeps_def)

lemma keeps_modify [intro]: "keeps (modify f)"
  by (simp add: keeps_def)

lemma keeps_mbind: "pure m \<Longrightarrow> (\<And>x. keeps (f x)) \<Longrightarrow> keeps (mbind m f)"
  unfolding pure_def keeps_def by (fastforce simp: mbind_Inl)

lemma keeps_if: "(b \<Longrightarrow> keeps m) \<Longrightarrow> (\<not> b \<Longrightarrow> keeps n) \<Longrightarrow> keeps (if b then m else n)"
  by simp

text \<open>\<open>returns m s\<close>: from the sketch \<open>s\<close> and a world without faults \<open>m\<close> returns.\<close>

definition returns :: "'a meth \<Rightarrow> sketch \<Rightarrow> bool" where
  "returns m s \<longleftrightarrow>
     (\<forall>w. no_faults w \<longrightarrow> (\<exists>x s' w'. m s w = (Inr x, s', w') \<and> no_faults w'))"

lemma returns_mreturn [intro]: "returns (mreturn x) s"
  by (simp add: returns_def)

lemma returns_modify [intro]: "returns (modify f) s"
  by (simp add: returns_def)

lemma returns_call [intro]: "total m \<Longrightarrow> returns (call m) s"
  by (fastforce simp: returns_def total_def)

lemma returns_mbind:
  assumes "returns m s" and "\<And>x s' w w'. m s w = (Inr x, s', w') \<Longrightarrow> returns (f x) s'"
  shows "returns (mbind m f) s"
  unfolding returns_def
proof (intro allI impI)
  fix w assume "no_faults w"
  then obtain x s' w' where m: "m s w = (Inr x, s', w')" "no_faults w'"
    using assms(1) by (fastforce simp: returns_def)
  then obtain y s'' w'' where "f x s' w' = (Inr y, s'', w'')" "no_faults w''"
    using assms(2) [OF m(1)] by (fastforce simp: returns_def)
  with m show "\<exists>y s' w'. mbind m f s w = (Inr y, s', w') \<and> no_faults w'"
    by fastforce
qed

section \<open>Device operations\<close>

text \<open>\<open>holds r xs\<close>: the result \<open>r\<close> is the list \<open>xs\<close>, at the front of its buffer.\<close>

definition holds :: "buffer_result \<Rightarrow> u64 list \<Rightarrow> bool" where
  "holds r xs \<longleftrightarrow> br_size r = length xs \<and> length xs \<le> length (br_data r) \<and>
     take (length xs) (br_data r) = xs"

lemma holdsD:
  assumes "holds r xs"
  shows "br_size r = length xs" and "length xs \<le> length (br_data r)"
    and "take (br_size r) (br_data r) = xs"
  using assms by (simp_all add: holds_def)

lemma total_alloc [intro]: "total alloc"
  by (simp add: total_def alloc_def next_fault_def no_faults_def)

lemma total_sync [intro]: "total sync"
  unfolding sync_def by (rule total_cuda_try)

lemma total_make_hash_buffer [intro]: "total (make_hash_buffer pf n)"
  unfolding make_hash_buffer_def by (rule total_dbind) auto

lemma total_make_count_buffer [intro]: "total make_count_buffer"
  unfolding make_count_buffer_def by (rule total_dbind) auto

lemma total_read_count [intro]: "total (read_count c)"
  unfolding read_count_def by (rule total_dbind [OF _ total_dbind]) auto

lemma make_hash_buffer_Inr:
  "make_hash_buffer pf n w = (Inr buf, w') \<Longrightarrow> length buf = n"
  by (auto simp: make_hash_buffer_def)

lemma read_count_Inr: "read_count c w = (Inr n, w') \<Longrightarrow> n = c ! 0"
  by (auto simp: read_count_def)

lemma holds_write_prefix:
  "length xs \<le> length buf \<Longrightarrow> holds \<lparr>br_data = write_prefix xs buf, br_size = length xs\<rparr> xs"
  by (simp add: holds_def write_prefix_def)

lemma total_select [intro]: "total (select pf xs P)"
  unfolding select_def by (rule total_dbind) (auto simp: Let_def intro!: total_dbind)

lemma select_Inr:
  assumes "cub_ok pf" and "select pf xs P w = (Inr r, w')"
  shows "holds r (filter P xs)"
proof (cases "xs = []")
  case True
  with assms(2) show ?thesis by (auto simp: select_def holds_def)
next
  case False
  with assms obtain buf where "length buf = length xs"
    and "r = \<lparr>br_data = write_prefix (filter P xs) buf, br_size = length (filter P xs)\<rparr>"
    by (auto simp: select_def Let_def cub_okD dest!: make_hash_buffer_Inr read_count_Inr)
  then show ?thesis by (simp add: holds_write_prefix)
qed

lemma total_unique_sorted [intro]: "total (unique_sorted pf xs)"
  unfolding unique_sorted_def by (rule total_dbind) (auto simp: Let_def intro!: total_dbind)

lemma unique_sorted_Inr:
  assumes "cub_ok pf" and "unique_sorted pf xs w = (Inr r, w')"
  shows "holds r (remdups_adj xs)"
proof -
  from assms obtain buf where "length buf = length xs"
    and "r = \<lparr>br_data = write_prefix (remdups_adj xs) buf, br_size = length (remdups_adj xs)\<rparr>"
    by (auto simp: unique_sorted_def Let_def cub_okD dest!: make_hash_buffer_Inr read_count_Inr)
  then show ?thesis by (simp add: holds_write_prefix remdups_adj_length)
qed

lemma total_sort_unique [intro]: "total (sort_unique pf xs n b)"
  unfolding sort_unique_def by (intro total_dbind) auto

text \<open>Keys below the bound have no bit at or above its width: the sort is complete.\<close>

lemma sort_keys_sorted:
  assumes "cub_ok pf" and "\<And>x. x \<in> set xs \<Longrightarrow> x < bound"
  shows "sorted (sort_keys pf 0 (bit_width (unat bound)) xs)"
proof -
  let ?ys = "sort_keys pf 0 (bit_width (unat bound)) xs"
  have "set ?ys = set xs" using cub_okD(3) [OF assms(1)] by (metis set_mset_mset)
  moreover have "take_bit (bit_width (unat bound)) x = x" if "x < bound" for x :: u64
  proof -
    have "unat x < 2 ^ bit_width (unat bound)"
      using that bit_width_le_iff [of "unat bound" "bit_width (unat bound)"]
      by (simp add: word_less_nat_alt)
    then have "take_bit (bit_width (unat bound)) (unat x) = unat x"
      by (simp add: take_bit_nat_eq_self)
    then show ?thesis
      by (intro unsigned_word_eqI [where ?'a = nat]) (simp add: unsigned_take_bit_eq)
  qed
  ultimately have "map (\<lambda>x. drop_bit 0 (take_bit (bit_width (unat bound)) x)) ?ys = ?ys"
    using assms(2) by (intro map_idI) auto
  then show ?thesis using cub_okD(4) [OF assms(1), of 0 "bit_width (unat bound)" xs] by simp
qed

lemma sort_unique_Inr:
  assumes "cub_ok pf" and "sort_unique pf xs n bound w = (Inr r, w')"
    and "\<And>x. x \<in> set (take n xs) \<Longrightarrow> x < bound"
  obtains ys where "holds r ys" and "ascending ys" and "set ys = set (take n xs)"
proof -
  let ?ys = "sort_keys pf 0 (bit_width (unat bound)) (take n xs)"
  have "sorted ?ys" using sort_keys_sorted [OF assms(1,3)] .
  moreover have "set ?ys = set (take n xs)" using cub_okD(3) [OF assms(1)] by (metis set_mset_mset)
  moreover have "holds r (remdups_adj ?ys)"
    using assms(2) by (auto simp: sort_unique_def dest: unique_sorted_Inr [OF assms(1)])
  ultimately show thesis using that by (metis ascending_remdups_adj remdups_adj_set)
qed

lemma total_merge_unique [intro]: "total (merge_unique pf xs ys)"
  unfolding merge_unique_def by (auto simp: Let_def intro!: total_dbind)

lemma merge_unique_Inr:
  assumes "cub_ok pf" and "ascending xs" and "ascending ys"
    and "merge_unique pf xs ys w = (Inr r, w')"
  obtains zs where "holds r zs" and "ascending zs" and "set zs = set xs \<union> set ys"
proof (cases "xs = [] \<or> ys = []")
  case True
  with assms(4) have "holds r (xs @ ys)"
    by (auto simp: merge_unique_def Let_def holds_def write_prefix_def
        dest!: make_hash_buffer_Inr split: if_splits)
  with True assms(2,3) that [of "xs @ ys"] show thesis by auto
next
  case False
  let ?m = "merge_keys pf xs ys"
  have s: "sorted xs" "sorted ys" using assms(2,3) by (auto simp: ascending_iff)
  have "holds r (remdups_adj ?m)"
    using False assms(4)
    by (auto simp: merge_unique_def Let_def dest: unique_sorted_Inr [OF assms(1)])
  moreover have "sorted ?m" using cub_okD(5) [OF assms(1) s] .
  moreover have "set ?m = set xs \<union> set ys"
    using cub_okD(6) [OF assms(1) s] by (metis set_mset_mset set_mset_union)
  ultimately show thesis using that by (metis ascending_remdups_adj remdups_adj_set)
qed

end
