(* ===== verification/Theta_Chunk.thy ===== *)
theory Theta_Chunk
  imports Theta_Ops
begin

text \<open>
  The steps of an update: screening a chunk of keys with the kernel, installing a result,
  choosing the size of a chunk, and one pass over a chunk, with the invariant of a sketch.
\<close>

section \<open>Screening\<close>

definition theta_hashes :: "platform \<Rightarrow> sketch \<Rightarrow> key list \<Rightarrow> u64 set" where
  "theta_hashes pf s keys = theta_hash pf (sk_seed s) ` set keys"

lemma set_surviving_keys:
  "set (filter (screen_hash theta) (map (theta_hash pf (sk_seed s)) keys)) = below (theta_hashes pf s keys) theta"
  by (auto simp: below_def screen_hash_def theta_hashes_def)

lemma screen_Inr:
  assumes "screen pf s keys w = (Inr r, w')"
  shows "length (br_data r) = min (length keys) (sk_survivor_budget s)"
    and "br_size r \<le> length keys"
    and "br_size r = 0 \<longleftrightarrow> below (theta_hashes pf s keys) (sk_theta s) = {}"
    and "br_size r \<le> length (br_data r) \<Longrightarrow>
      set (take (br_size r) (br_data r)) = below (theta_hashes pf s keys) (sk_theta s)"
proof -
  let ?cap = "min (length keys) (sk_survivor_budget s)"
  let ?L = "\<lparr>l_keys = keys, l_hasher = theta_hash pf (sk_seed s), l_theta = sk_theta s,
      l_capacity = ?cap, l_grid = unat (grid_size (length keys))\<rparr>"
  let ?below = "below (theta_hashes pf s keys) (sk_theta s)"
  obtain sched out where out: "length out = ?cap" and grid: "0 < l_grid ?L"
    and run: "screen_kernel ?L sched out = (br_data r, br_size r)"
    using assms
    by (auto simp: screen_def Let_def split: prod.splits if_splits
        dest!: make_hash_buffer_Inr read_count_Inr)
  have out': "length out = l_capacity ?L" using out by simp
  have set: "set (surviving ?L) = ?below"
    using set_surviving_keys by (simp add: surviving_def)
  show "length (br_data r) = ?cap"
    using kernel.run_length [OF grid out' run] by simp
  have "length (surviving ?L) \<le> length keys"
    by (simp add: surviving_def)
  then show "br_size r \<le> length keys"
    using kernel.run_count [OF grid out' run] by simp
  show "br_size r = 0 \<longleftrightarrow> ?below = {}"
    using kernel.count_zero_iff [OF grid out' run] set by (metis set_empty)
  show "set (take (br_size r) (br_data r)) = ?below" if "br_size r \<le> length (br_data r)"
    using kernel.run_fits [OF grid out' run] set that \<open>length (br_data r) = ?cap\<close> by simp
qed

lemma total_screen:
  assumes "keys \<noteq> []" and "length keys < 2 ^ 63"
  shows "total (screen pf s keys)"
proof -
  have g: "unat (grid_size (length keys)) \<noteq> 0"
    using grid_size_bounds(1) [of "length keys"] assms by simp
  show ?thesis
    unfolding screen_def Let_def using g
    by (auto intro!: total_dbind split: prod.splits)
qed

section \<open>Installing a result\<close>

lemma keeps_install: "keeps (install pf input theta emp)"
proof -
  have fields: "pure (mbind (call m) f)" if "\<And>x. pure (f x)" for m and f :: "'a \<Rightarrow> 'b meth"
    using that by auto
  have *: "install pf input theta emp s w = (Inl e, s', w') \<Longrightarrow> s' = s" for s w e s' w'
    unfolding install_def Let_def
    by (auto simp: mbind_Inl split: if_splits)
  then show ?thesis unfolding keeps_def by blast
qed

lemma install_Inr:
  assumes "holds input xs" and "install pf input theta emp s w = (Inr u, s', w')"
    and "trim (k_of s) theta xs = (theta', xs')"
  shows "s' = s\<lparr>sk_hashes := xs', sk_theta := if emp then sk_initial_theta s else theta',
    sk_is_empty := emp\<rparr>"
proof -
  note h = holdsD [OF assms(1)]
  have nth: "br_data input ! n = xs ! n" if "n < length xs" for n
    using that h by (metis nth_take)
  have tk: "take (length xs) (br_data input) = xs" using h by simp
  have tk': "take n (br_data input) = take n xs" if "n \<le> length xs" for n
    using tk that by (metis min.absorb1 take_take)
  show ?thesis
  proof (cases "k_of s < length xs")
    case True
    then have t: "theta' = xs ! k_of s" "xs' = take (k_of s) xs"
      using assms(3) by (auto simp: trim_def)
    have "k_of s \<noteq> 0" by (simp add: k_of_def)
    moreover have "length (br_data input) \<noteq> k_of s" using True h(2) by simp
    ultimately show ?thesis
      using assms(2) True t nth [OF True] tk' [of "k_of s"] h(1,2)
      by (auto simp: install_def Let_def write_prefix_def dest!: make_hash_buffer_Inr)
  next
    case False
    then have t: "theta' = theta" "xs' = xs" using assms(3) by (auto simp: trim_def)
    have m: "min (length xs) (k_of s) = length xs" using False by simp
    have nil: "xs = [] \<Longrightarrow> length (br_data input) = 0 \<Longrightarrow> br_data input = xs" by simp
    show ?thesis
      using assms(2) False t tk h(1,2)
      by (auto simp: install_def Let_def m write_prefix_def dest!: make_hash_buffer_Inr
          split: if_splits)
  qed
qed

text \<open>The body of a member refers to the sketch it is called on.\<close>

lemma returns_self:
  assumes "returns (m s) s" and "\<And>x s' w w'. m s s w = (Inr x, s', w') \<Longrightarrow> returns (f s x) s'"
  shows "returns (\<lambda>t. mbind (m t) (f t) t) s"
  using returns_mbind [OF assms] by (simp add: returns_def)

lemma returns_install: "returns (install pf input theta emp) s"
  unfolding install_def Let_def
  by (rule returns_self) (auto intro!: returns_mbind)

section \<open>The size of the next chunk\<close>

lemma next_chunk_le: "next_chunk s remaining previous d \<le> remaining"
  unfolding next_chunk_def Let_def
  by (cases "sk_theta s = max_theta"; simp only: if_True if_False simp_thms; rule min.cobounded2)

lemma next_chunk_pos: "0 < remaining \<Longrightarrow> 0 < next_chunk s remaining previous d"
  by (cases "sk_theta s = max_theta")
    (simp_all only: next_chunk_def Let_def if_True if_False min_less_iff_conj less_max_iff_disj
      min_chunk_keys_def zero_less_power zero_less_numeral zero_less_one simp_thms)

section \<open>One pass over a chunk\<close>

lemma keeps_call_bind: "(\<And>x. keeps (f x)) \<Longrightarrow> keeps (mbind (call m) f)"
  by (rule keeps_mbind) auto

lemma update_chunk_Inl:
  assumes "update_chunk pf keys s w = (Inl e, s', w')" shows "s' = s"
  using assms keepsD [OF keeps_install]
  by (auto simp: update_chunk_def mbind_Inl split: if_splits)

text \<open>The invariant of a sketch.\<close>

definition wf_sketch :: "sketch \<Rightarrow> bool" where
  "wf_sketch s \<longleftrightarrow>
     min_lg_k \<le> sk_lg_k s \<and> sk_lg_k s \<le> max_lg_k \<and>
     sk_initial_theta s \<noteq> 0 \<and> sk_initial_theta s \<le> max_theta \<and>
     sk_theta s \<noteq> 0 \<and> sk_theta s \<le> max_theta \<and>
     0 < sk_survivor_budget s \<and>
     ascending (sk_hashes s) \<and> (\<forall>h \<in> set (sk_hashes s). h \<noteq> 0 \<and> h < sk_theta s) \<and>
     length (sk_hashes s) \<le> k_of s \<and>
     (sk_is_empty s \<longrightarrow> sk_hashes s = [] \<and> sk_theta s = sk_initial_theta s)"

text \<open>The settings of a sketch, which no operation changes.\<close>

definition same_config :: "sketch \<Rightarrow> sketch \<Rightarrow> bool" where
  "same_config s s' \<longleftrightarrow> sk_lg_k s' = sk_lg_k s \<and> sk_seed s' = sk_seed s \<and>
     sk_initial_theta s' = sk_initial_theta s \<and> sk_survivor_budget s' = sk_survivor_budget s"

lemma update_chunk_Inr:
  assumes "cub_ok pf" and "wf_sketch s" and "update_chunk pf keys s w = (Inr n, s', w')"
  defines "K \<equiv> theta_hashes pf s keys"
  shows "n \<le> length keys"
    and "sk_survivor_budget s < n \<Longrightarrow> s' = s"
    and "n \<le> sk_survivor_budget s \<Longrightarrow>
      \<exists>ys theta' xs'. sample (set (sk_hashes s) \<union> K) (sk_theta s) ys \<and>
        trim (k_of s) (sk_theta s) ys = (theta', xs') \<and>
        s'\<lparr>sk_is_empty := False\<rparr> = s\<lparr>sk_hashes := xs', sk_theta := theta', sk_is_empty := False\<rparr>"
proof -
  obtain r w1 where r: "screen pf s keys w = (Inr r, w1)" and n: "n = br_size r"
    using assms(3) by (auto simp: update_chunk_def split: if_splits)
  note scr = screen_Inr [OF r, folded K_def]
  show "n \<le> length keys" using scr(2) n by simp
  show "s' = s" if "sk_survivor_budget s < n"
    using assms(3) that n scr(1) r by (auto simp: update_chunk_def split: if_splits)
  have hs: "set (sk_hashes s) = below (set (sk_hashes s)) (sk_theta s)" "ascending (sk_hashes s)"
    "length (sk_hashes s) \<le> k_of s"
    using assms(2) by (auto simp: wf_sketch_def below_def)
  assume fits: "n \<le> sk_survivor_budget s"
  then have cap: "br_size r \<le> length (br_data r)" using scr(1,2) n by simp
  show "\<exists>ys theta' xs'. sample (set (sk_hashes s) \<union> K) (sk_theta s) ys \<and>
        trim (k_of s) (sk_theta s) ys = (theta', xs') \<and>
        s'\<lparr>sk_is_empty := False\<rparr> = s\<lparr>sk_hashes := xs', sk_theta := theta', sk_is_empty := False\<rparr>"
  proof (cases "br_size r = 0")
    case True
    with scr(3) have "sample (set (sk_hashes s) \<union> K) (sk_theta s) (sk_hashes s)"
      using hs by (simp add: sample_def below_Un)
    moreover have "trim (k_of s) (sk_theta s) (sk_hashes s) = (sk_theta s, sk_hashes s)"
      using hs(3) by (simp add: trim_def)
    moreover have "s' = s" using assms(3) True r by (auto simp: update_chunk_def)
    ultimately show ?thesis by (intro exI conjI) auto
  next
    case False
    obtain i w2 c w3 u w4 where i: "sort_unique pf (br_data r) (br_size r) (sk_theta s) w1 = (Inr i, w2)"
      and c: "(if sk_hashes s = [] then mreturn i
            else call (merge_unique pf (sk_hashes s) (take (br_size i) (br_data i)))) s w2 = (Inr c, s, w3)"
      and u: "install pf c (sk_theta s) False s w3 = (Inr u, s', w4)"
    proof (cases "sk_hashes s = []")
      case True
      with assms(3) False cap r that show thesis by (auto simp: update_chunk_def)
    next
      case nonempty: False
      with assms(3) False cap r that show thesis by (auto simp: update_chunk_def)
    qed
    have lt: "x < sk_theta s" if "x \<in> set (take (br_size r) (br_data r))" for x
      using that scr(4) [OF cap] by (auto simp: below_def)
    obtain zs where zs: "holds i zs" "ascending zs" "set zs = below K (sk_theta s)"
      using sort_unique_Inr [OF assms(1) i lt] scr(4) [OF cap] by auto
    obtain ys where ys: "holds c ys" "ascending ys" "set ys = set (sk_hashes s) \<union> set zs"
    proof (cases "sk_hashes s = []")
      case True
      with c zs that show thesis by auto
    next
      case nonempty: False
      with c have "merge_unique pf (sk_hashes s) zs w2 = (Inr c, w3)"
        using holdsD(3) [OF zs(1)] by auto
      from merge_unique_Inr [OF assms(1) hs(2) zs(2) this] that show thesis by blast
    qed
    have "sample (set (sk_hashes s) \<union> K) (sk_theta s) ys"
      using ys zs(3) hs(1) by (simp add: sample_def below_Un)
    moreover obtain theta' xs' where t: "trim (k_of s) (sk_theta s) ys = (theta', xs')" by fastforce
    ultimately show ?thesis using install_Inr [OF ys(1) u t] by (intro exI conjI) auto
  qed
qed

lemma returns_update_chunk:
  assumes "keys \<noteq> []" and "length keys < 2 ^ 63"
  shows "returns (update_chunk pf keys) s"
  unfolding update_chunk_def
  by (rule returns_self) (auto intro!: returns_mbind returns_call total_screen returns_install assms)

end
