(* ===== verification/Theta_Update.thy ===== *)
theory Theta_Update
  imports Theta_Chunk
begin

text \<open>
  \<^verbatim>\<open>update\<close> as a whole: its two loops end, it commits chunks one by one, and what it leaves
  is the sample, and the summary, of everything committed.
\<close>

section \<open>What committing keys means\<close>

text \<open>
  \<open>fed s K s'\<close>: the sketch went from \<open>s\<close> to \<open>s'\<close> by taking in the hashes \<open>K\<close>. Whatever set
  the sketch was a sample or a summary of, it now is one of the union.
\<close>

definition fed :: "sketch \<Rightarrow> u64 set \<Rightarrow> sketch \<Rightarrow> bool" where
  "fed s K s' \<longleftrightarrow>
     wf_sketch s' \<and> same_config s s' \<and> sk_theta s' \<le> sk_theta s \<and>
     (\<forall>H. sample H (sk_theta s) (sk_hashes s) \<longrightarrow>
        sample (H \<union> K) (sk_theta s') (sk_hashes s')) \<and>
     (\<forall>theta0 H. summary (k_of s) theta0 H (sk_theta s) (sk_hashes s) \<longrightarrow>
        summary (k_of s) theta0 (H \<union> K) (sk_theta s') (sk_hashes s'))"

definition committed :: "sketch \<Rightarrow> u64 set \<Rightarrow> sketch \<Rightarrow> bool" where
  "committed s K s' \<longleftrightarrow>
     (\<exists>ys theta' xs'. sample (set (sk_hashes s) \<union> K) (sk_theta s) ys \<and>
        trim (k_of s) (sk_theta s) ys = (theta', xs') \<and>
        s' = s\<lparr>sk_hashes := xs', sk_theta := theta', sk_is_empty := False\<rparr>)"

lemma k_of_config: "same_config s s' \<Longrightarrow> k_of s' = k_of s"
  by (simp add: same_config_def k_of_def)

lemma same_config_refl [simp, intro]: "same_config s s"
  by (simp add: same_config_def)

lemma same_config_trans: "same_config s s' \<Longrightarrow> same_config s' s'' \<Longrightarrow> same_config s s''"
  by (simp add: same_config_def)

lemma theta_hashes_config: "same_config s s' \<Longrightarrow> theta_hashes pf s' keys = theta_hashes pf s keys"
  by (simp add: same_config_def theta_hashes_def)

lemma fed_refl: "wf_sketch s \<Longrightarrow> fed s {} s"
  by (simp add: fed_def)

lemma fed_trans:
  assumes "fed s K s'" and "fed s' L s''"
  shows "fed s (K \<union> L) s''"
proof -
  have k: "k_of s' = k_of s" using assms(1) by (simp add: fed_def k_of_config)
  have "sample (H \<union> (K \<union> L)) (sk_theta s'') (sk_hashes s'')"
    if "sample H (sk_theta s) (sk_hashes s)" for H
    using assms that unfolding fed_def by (metis sup_assoc)
  moreover have "summary (k_of s) theta0 (H \<union> (K \<union> L)) (sk_theta s'') (sk_hashes s'')"
    if "summary (k_of s) theta0 H (sk_theta s) (sk_hashes s)" for theta0 H
    using assms that k unfolding fed_def by (metis sup_assoc)
  ultimately show ?thesis
    using assms unfolding fed_def by (blast intro: same_config_trans order_trans)
qed

lemma sample_replace:
  assumes "sample H theta xs" and "sample (set xs \<union> K) theta ys"
  shows "sample (H \<union> K) theta ys"
  using assms by (simp add: sample_def below_Un below_mono)

lemma committed_fed:
  assumes "wf_sketch s" and "committed s K s'"
  shows "fed s K s'" and "\<not> sk_is_empty s'"
proof -
  obtain ys theta' xs' where ys: "sample (set (sk_hashes s) \<union> K) (sk_theta s) ys"
    and t: "trim (k_of s) (sk_theta s) ys = (theta', xs')"
    and s': "s' = s\<lparr>sk_hashes := xs', sk_theta := theta', sk_is_empty := False\<rparr>"
    using assms(2) by (auto simp: committed_def)
  note st = sample_trim [OF ys t]
  have k: "k_of s' = k_of s" by (simp add: s' k_of_def)
  have "theta' \<noteq> 0" using st(5) assms(1) by (simp add: wf_sketch_def)
  moreover have "theta' \<le> max_theta" using st(3) assms(1) by (auto simp: wf_sketch_def)
  ultimately have "wf_sketch s'"
    using assms(1) st(2) sampleD [OF st(1)] k by (simp add: wf_sketch_def s')
  moreover have "same_config s s'" by (simp add: s' same_config_def)
  moreover have "sample (H \<union> K) theta' xs'" if "sample H (sk_theta s) (sk_hashes s)" for H
    using sample_trim(1) [OF sample_replace [OF that ys] t] .
  moreover have "summary (k_of s) theta0 (H \<union> K) theta' xs'"
    if "summary (k_of s) theta0 H (sk_theta s) (sk_hashes s)" for theta0 H
    using summary_feed [OF that sample_replace [OF _ ys] t] that by (simp add: summary_def)
  ultimately show "fed s K s'" using st(3) by (simp add: fed_def s')
  show "\<not> sk_is_empty s'" by (simp add: s')
qed

section \<open>The retries of a chunk\<close>

lemma length_key_range [simp]: "length (key_range mem first n) = n"
  by (simp add: key_range_def)

lemma key_range_append:
  "key_range mem first (a + b) = key_range mem first a @ key_range mem (first + int a) b"
  by (rule nth_equalityI) (auto simp: key_range_def nth_append)

lemma theta_hashes_append:
  "theta_hashes pf s (xs @ ys) = theta_hashes pf s xs \<union> theta_hashes pf s ys"
  by (simp add: theta_hashes_def image_Un)

lemma theta_hashes_Nil [simp]: "theta_hashes pf s [] = {}"
  by (simp add: theta_hashes_def)

text \<open>What one pass guarantees, on success, on overflow and on an exception.\<close>

definition pass :: "platform \<Rightarrow> sketch \<Rightarrow> key list \<Rightarrow> nat \<Rightarrow> sketch \<Rightarrow> bool" where
  "pass pf s0 keys outcome s \<longleftrightarrow> outcome \<le> length keys \<and>
     (if sk_survivor_budget s0 < outcome then s = s0
      else committed s0 (theta_hashes pf s0 keys) (s\<lparr>sk_is_empty := False\<rparr>) \<and>
        sk_survivor_budget s = sk_survivor_budget s0)"

lemma update_chunk_pass:
  assumes "cub_ok pf" and "wf_sketch s" and "update_chunk pf keys s w = (Inr n, s', w')"
  shows "pass pf s keys n s'"
proof (cases "sk_survivor_budget s < n")
  case True
  with update_chunk_Inr(1,2) [OF assms] show ?thesis by (simp add: pass_def)
next
  case False
  then have "committed s (theta_hashes pf s keys) (s'\<lparr>sk_is_empty := False\<rparr>)"
    using update_chunk_Inr(3) [OF assms] by (auto simp: committed_def)
  moreover from this have "sk_survivor_budget s' = sk_survivor_budget s"
    by (auto simp: committed_def dest!: arg_cong [where f = sk_survivor_budget])
  ultimately show ?thesis using update_chunk_Inr(1) [OF assms] False by (simp add: pass_def)
qed

lemma retry_chunk_returns:
  assumes "cub_ok pf" and "wf_sketch s0" and "0 < remaining" and "remaining < 2 ^ 63"
    and "0 < chunk" and "chunk \<le> remaining" and "pass pf s0 (key_range mem pos chunk) outcome s"
  shows "\<exists>r s' w'. retry_chunk pf mem pos remaining previous rate chunk outcome s w = Some (r, s', w')
    \<and> (case r of Inl e \<Rightarrow> s' = s0
       | Inr (c, n) \<Rightarrow> 0 < c \<and> c \<le> remaining \<and> n \<le> sk_survivor_budget s0 \<and>
           committed s0 (theta_hashes pf s0 (key_range mem pos c)) (s'\<lparr>sk_is_empty := False\<rparr>))
    \<and> (no_faults w \<longrightarrow> (\<exists>x. r = Inr x) \<and> no_faults w')"
  using assms(5-7)
proof (induction chunk arbitrary: outcome s w rule: less_induct)
  case (less chunk)
  show ?case
  proof (cases "sk_survivor_budget s0 < outcome")
    case False
    with less.prems have "\<not> sk_survivor_budget s < outcome" by (simp add: pass_def)
    with False less.prems show ?thesis
      by (subst retry_chunk.simps) (simp add: pass_def)
  next
    case True
    with less.prems have s: "s = s0" and le: "outcome \<le> chunk" by (simp_all add: pass_def)
    define c where "c = min (chunk div 2) (next_chunk s0 remaining previous
      (fdiv (fdiv (f_of_nat outcome) (f_of_nat chunk)) rate))"
    have "0 < sk_survivor_budget s0" using assms(2) by (simp add: wf_sketch_def)
    then have c: "0 < c" "c < chunk"
      using True le next_chunk_pos [OF assms(3), of s0 previous]
      by (auto simp: c_def min_less_iff_conj min_less_iff_disj)
    obtain r1 s1 w1 where u: "update_chunk pf (key_range mem pos c) s0 w = (r1, s1, w1)"
      by (cases "update_chunk pf (key_range mem pos c) s0 w") auto
    have eq: "retry_chunk pf mem pos remaining previous rate chunk outcome s w =
       (case r1 of Inl e \<Rightarrow> Some (Inl e, s1, w1)
        | Inr n \<Rightarrow> retry_chunk pf mem pos remaining previous rate c n s1 w1)"
      using True u unfolding c_def by (subst retry_chunk.simps) (simp add: s Let_def)
    have ok: "(\<exists>x. r1 = Inr x) \<and> no_faults w1" if "no_faults w"
      using returns_update_chunk [of "key_range mem pos c" pf s0] c less.prems(2) assms(4) that u
      by (fastforce simp: returns_def key_range_def)
    show ?thesis
    proof (cases r1)
      case (Inl e)
      with u have "s1 = s0" using update_chunk_Inl by blast
      with Inl eq ok show ?thesis by auto
    next
      case (Inr n)
      with u have "pass pf s0 (key_range mem pos c) n s1"
        using update_chunk_pass [OF assms(1,2)] by blast
      from less.IH [OF c(2,1) _ this, of w1] c less.prems(2) eq ok Inr show ?thesis by auto
    qed
  qed
qed

section \<open>The loop over the chunks\<close>

lemma update_loop_returns:
  assumes "cub_ok pf" and "wf_sketch s" and "n < 2 ^ 63" and "offset \<le> n"
  shows "\<exists>r s' w' m. update_loop pf mem first n offset previous d s w = Some (r, s', w')
    \<and> offset \<le> m \<and> m \<le> n
    \<and> fed s (theta_hashes pf s (key_range mem (first + int offset) (m - offset))) s'
    \<and> (m = offset \<longrightarrow> s' = s) \<and> (offset < m \<longrightarrow> \<not> sk_is_empty s')
    \<and> (r = Inr () \<longrightarrow> m = n) \<and> (no_faults w \<longrightarrow> r = Inr () \<and> no_faults w')"
  using assms(2,4)
proof (induction "n - offset" arbitrary: offset previous d s w rule: less_induct)
  case less
  note wf = less.prems(1)
  show ?case
  proof (cases "offset < n")
    case False
    then show ?thesis
      using less.prems by (subst update_loop.simps) (auto simp: key_range_def intro!: fed_refl)
  next
    case True
    define chunk where "chunk = next_chunk s (n - offset) previous d"
    define pos where "pos = first + int offset"
    have chunk: "0 < chunk" "chunk \<le> n - offset"
      using True next_chunk_pos next_chunk_le by (auto simp: chunk_def)
    obtain r1 s1 w1 where u: "update_chunk pf (key_range mem pos chunk) s w = (r1, s1, w1)"
      by (cases "update_chunk pf (key_range mem pos chunk) s w") auto
    have ok: "(\<exists>x. r1 = Inr x) \<and> no_faults w1" if "no_faults w"
      using returns_update_chunk [of "key_range mem pos chunk" pf s] chunk assms(3) that u
      by (fastforce simp: returns_def key_range_def)
    have eq: "update_loop pf mem first n offset previous d s w =
       (case r1 of Inl e \<Rightarrow> Some (Inl e, s1, w1)
        | Inr outcome \<Rightarrow>
            Option.bind (retry_chunk pf mem pos (n - offset) previous (theta_rate s) chunk outcome s1 w1)
              (\<lambda>(r, s', w). case r of Inl e \<Rightarrow> Some (Inl e, s', w)
               | Inr (chunk, outcome) \<Rightarrow>
                   update_loop pf mem first n (offset + chunk) chunk
                     (fdiv (fdiv (f_of_nat outcome) (f_of_nat chunk)) (theta_rate s))
                     (s'\<lparr>sk_is_empty := False\<rparr>) w))"
      using True u unfolding chunk_def pos_def by (subst update_loop.simps) (simp add: Let_def)
    show ?thesis
    proof (cases r1)
      case (Inl e)
      with u have "s1 = s" using update_chunk_Inl by blast
      with Inl eq ok wf True show ?thesis by (auto simp: key_range_def intro!: fed_refl exI [of _ offset])
    next
      case (Inr outcome)
      have "pass pf s (key_range mem pos chunk) outcome s1"
        using u Inr update_chunk_pass [OF assms(1) wf] by blast
      then obtain r2 s2 w2 where
        r2: "retry_chunk pf mem pos (n - offset) previous (theta_rate s) chunk outcome s1 w1
              = Some (r2, s2, w2)"
        and c: "case r2 of Inl e \<Rightarrow> s2 = s
          | Inr (c, m) \<Rightarrow> 0 < c \<and> c \<le> n - offset \<and> m \<le> sk_survivor_budget s \<and>
             committed s (theta_hashes pf s (key_range mem pos c)) (s2\<lparr>sk_is_empty := False\<rparr>)"
        and ok2: "no_faults w1 \<longrightarrow> (\<exists>x. r2 = Inr x) \<and> no_faults w2"
        using retry_chunk_returns [OF assms(1) wf _ _ chunk, of mem pos outcome s1 previous "theta_rate s" w1]
          True assms(3) by fastforce
      show ?thesis
      proof (cases r2)
        case (Inl e)
        with c Inr eq r2 ok ok2 wf True show ?thesis
          by (auto simp: key_range_def intro!: fed_refl exI [of _ offset])
      next
        case r2_Inr: (Inr cm)
        obtain c1 m1 where cm: "cm = (c1, m1)" by (cases cm)
        let ?s = "s2\<lparr>sk_is_empty := False\<rparr>"
        let ?K = "theta_hashes pf s (key_range mem pos c1)"
        have c1: "0 < c1" "c1 \<le> n - offset" and com: "committed s ?K ?s"
          using c r2_Inr cm by auto
        note f = committed_fed [OF wf com]
        have wf2: "wf_sketch ?s" using f(1) by (simp add: fed_def)
        have less': "n - (offset + c1) < n - offset" "offset + c1 \<le> n" using c1 True by auto
        let ?d = "fdiv (fdiv (f_of_nat m1) (f_of_nat c1)) (theta_rate s)"
        obtain r s' w' m where it:
          "update_loop pf mem first n (offset + c1) c1 ?d ?s w2 = Some (r, s', w')"
          "offset + c1 \<le> m" "m \<le> n"
          "fed ?s (theta_hashes pf ?s (key_range mem (first + int (offset + c1)) (m - (offset + c1)))) s'"
          "m = offset + c1 \<longrightarrow> s' = ?s" "offset + c1 < m \<longrightarrow> \<not> sk_is_empty s'"
          "r = Inr () \<longrightarrow> m = n" "no_faults w2 \<longrightarrow> r = Inr () \<and> no_faults w'"
          using less.hyps [OF less'(1) wf2 less'(2), of c1 ?d w2] by blast
        have th: "theta_hashes pf ?s keys = theta_hashes pf s keys" for keys
          using f(1) theta_hashes_config unfolding fed_def by blast
        have sl: "key_range mem pos (m - offset)
            = key_range mem pos c1 @ key_range mem (first + int (offset + c1)) (m - (offset + c1))"
          using key_range_append [of mem pos c1 "m - (offset + c1)"] it(2)
          by (simp add: pos_def add.assoc)
        have "fed s (theta_hashes pf s (key_range mem pos (m - offset))) s'"
          unfolding sl theta_hashes_append using fed_trans [OF f(1) it(4)] by (simp only: th)
        moreover have "\<not> sk_is_empty s'" using it(2,5,6) f(2) by (cases "m = offset + c1") auto
        moreover have "update_loop pf mem first n offset previous d s w = Some (r, s', w')"
          using eq Inr r2 r2_Inr cm it(1) by simp
        ultimately show ?thesis
          using it c1 ok ok2 Inr r2_Inr
          by (intro exI [of _ r] exI [of _ s'] exI [of _ w'] exI [of _ m]) (auto simp: pos_def)
      qed
    qed
  qed
qed

lemma update_returns:
  assumes "cub_ok pf" and "wf_sketch s" and "first \<le> stop" and "stop - first < 2 ^ 63"
  obtains r s' w' m where "update pf mem first stop s w = Some (r, s', w')"
    and "m \<le> nat (stop - first)" and "fed s (theta_hashes pf s (key_range mem first m)) s'"
    and "m = 0 \<Longrightarrow> s' = s" and "0 < m \<Longrightarrow> \<not> sk_is_empty s'"
    and "r = Inr () \<Longrightarrow> m = nat (stop - first)" and "no_faults w \<Longrightarrow> r = Inr () \<and> no_faults w'"
proof -
  have "nat (stop - first) < 2 ^ 63" using assms(3,4) by (simp add: nat_less_iff)
  from update_loop_returns [OF assms(1,2) this, of 0 mem first 0 "Fin 1" w]
  show thesis using assms(3) by (auto simp: update_def intro: that)
qed

lemma update_committed:
  assumes "cub_ok pf" and "wf_sketch s" and "first \<le> stop" and "stop - first < 2 ^ 63"
    and "update pf mem first stop s w = Some (r, s', w')"
  obtains m where "m \<le> nat (stop - first)" and "fed s (theta_hashes pf s (key_range mem first m)) s'"
    and "m = 0 \<Longrightarrow> s' = s" and "0 < m \<Longrightarrow> \<not> sk_is_empty s'"
    and "r = Inr () \<Longrightarrow> m = nat (stop - first)"
proof (rule update_returns [OF assms(1-4), of mem w])
  fix r2 s2 w2 m
  assume u: "update pf mem first stop s w = Some (r2, s2, w2)"
    and m: "m \<le> nat (stop - first)" "fed s (theta_hashes pf s (key_range mem first m)) s2"
      "m = 0 \<Longrightarrow> s2 = s" "0 < m \<Longrightarrow> \<not> sk_is_empty s2" "r2 = Inr () \<Longrightarrow> m = nat (stop - first)"
  from u assms(5) have eq: "r2 = r" "s2 = s'" by simp_all
  show thesis by (rule that [OF m [unfolded eq]])
qed

end
