(* ===== verification/Theta_Operations.thy ===== *)
theory Theta_Operations
  imports Theta_Update
begin

text \<open>
  The set operations of the Theta sketch, reset, and loading and storing an image: what
  each leaves of the sketch on success, that an exception leaves it untouched, and what the
  result is a sample of.
\<close>

section \<open>What the operations compute\<close>

lemma merge_Inr:
  assumes "cub_ok pf" and "wf_sketch s" and "wf_sketch other"
    and "merge pf other s w = (Inr u, s', w')" and "\<not> sk_is_empty other"
  defines "theta \<equiv> min (sk_theta s) (sk_theta other)"
  obtains ys theta' xs' where
    "sample (set (sk_hashes s) \<union> set (sk_hashes other)) theta ys"
    and "trim (k_of s) theta ys = (theta', xs')"
    and "s' = s\<lparr>sk_hashes := xs', sk_theta := theta', sk_is_empty := False\<rparr>"
proof -
  have eff: "effective_theta other = sk_theta other" using assms(5) by (simp add: effective_theta_def)
  obtain c w1 r w2 where c: "merge_unique pf (sk_hashes s) (sk_hashes other) w = (Inr c, w1)"
    and r: "select pf (take (br_size c) (br_data c)) (screen_hash theta) w1 = (Inr r, w2)"
    and i: "install pf r theta False s w2 = (Inr u, s', w')"
    using assms(4,5) by (auto simp: merge_def Let_def eff theta_def split: if_splits)
  have asc: "ascending (sk_hashes s)" "ascending (sk_hashes other)"
    using assms(2,3) by (simp_all add: wf_sketch_def)
  obtain zs where zs: "holds c zs" "ascending zs"
    "set zs = set (sk_hashes s) \<union> set (sk_hashes other)"
    using merge_unique_Inr [OF assms(1) asc c] by blast
  let ?ys = "filter (screen_hash theta) zs"
  have "holds r ?ys" using select_Inr [OF assms(1) r] holdsD(3) [OF zs(1)] by simp
  moreover have "sample (set (sk_hashes s) \<union> set (sk_hashes other)) theta ?ys"
    using zs by (auto simp: sample_def below_def screen_hash_def ascending_filter)
  moreover obtain theta' xs' where "trim (k_of s) theta ?ys = (theta', xs')" by fastforce
  ultimately show thesis using that install_Inr [OF _ i] by auto
qed

lemma retain_matching_Inr:
  assumes "cub_ok pf" and "wf_sketch s" and "wf_sketch other"
    and "retain_matching pf other keep s w = (Inr u, s', w')"
  defines "theta \<equiv> min (effective_theta s) (effective_theta other)"
  defines "xs \<equiv> filter (\<lambda>h. h \<noteq> 0 \<and> h < theta \<and> (h \<in> set (sk_hashes other)) = keep) (sk_hashes s)"
  defines "emp \<equiv> xs = [] \<and> theta = max_theta"
  shows "s' = s\<lparr>sk_hashes := xs, sk_theta := if emp then sk_initial_theta s else theta,
    sk_is_empty := emp\<rparr>"
proof -
  obtain r w1 where r: "select pf (sk_hashes s)
      (membership_filter (sk_hashes other) theta keep) w = (Inr r, w1)"
    and i: "install pf r theta (br_size r = 0 \<and> theta = max_theta) s w1 = (Inr u, s', w')"
    using assms(4) by (auto simp: retain_matching_def Let_def theta_def split: if_splits)
  have "sorted (sk_hashes other)" using assms(3) by (simp add: wf_sketch_def ascending_iff)
  then have "filter (membership_filter (sk_hashes other) theta keep) (sk_hashes s) = xs"
    unfolding xs_def by (intro filter_cong refl) (simp add: membership_filter_iff)
  then have h: "holds r xs" using select_Inr [OF assms(1) r] by simp
  moreover have "length xs \<le> k_of s"
    using assms(2) unfolding xs_def wf_sketch_def by (meson le_trans length_filter_le)
  then have "trim (k_of s) theta xs = (theta, xs)" by (simp add: trim_def)
  ultimately show ?thesis
    using install_Inr [OF h i] holdsD(1) [OF h] by (simp add: emp_def)
qed

lemma reset_Inr:
  assumes "reset pf s w = (Inr u, s', w')"
  shows "s' = s\<lparr>sk_hashes := [], sk_theta := sk_initial_theta s, sk_is_empty := True\<rparr>"
proof -
  obtain buf w1 where "install pf \<lparr>br_data = buf, br_size = 0\<rparr> max_theta True s w1 = (Inr u, s', w')"
    using assms by (auto simp: reset_def)
  moreover have "holds \<lparr>br_data = buf, br_size = 0\<rparr> []" by (simp add: holds_def)
  ultimately show ?thesis using install_Inr [of _ "[]"] by (fastforce simp: trim_def)
qed

lemma load_compact_Inr:
  assumes "load_compact pf im s w = (Inr u, s', w')"
  shows "length (ci_entries im) \<le> k_of s"
    and "s' = s\<lparr>sk_hashes := ci_entries im,
      sk_theta := if ci_empty im then sk_initial_theta s else ci_theta im,
      sk_is_empty := ci_empty im\<rparr>"
proof -
  show le: "length (ci_entries im) \<le> k_of s"
    using assms by (auto simp: load_compact_def split: if_splits)
  obtain buf w1 where
    "install pf \<lparr>br_data = buf, br_size = length (ci_entries im)\<rparr> (ci_theta im) (ci_empty im) s w1
       = (Inr u, s', w')"
    and "holds \<lparr>br_data = buf, br_size = length (ci_entries im)\<rparr> (ci_entries im)"
  proof (cases "ci_entries im = []")
    case True
    with assms that show thesis by (auto simp: load_compact_def holds_def)
  next
    case False
    with assms that le show thesis
      by (auto simp: load_compact_def holds_def write_prefix_def dest!: make_hash_buffer_Inr)
  qed
  from install_Inr [OF this(2,1)] le show "s' = s\<lparr>sk_hashes := ci_entries im,
      sk_theta := if ci_empty im then sk_initial_theta s else ci_theta im,
      sk_is_empty := ci_empty im\<rparr>"
    by (auto simp: trim_def)
qed

section \<open>Exceptions\<close>

text \<open>
  The strong guarantee: an operation that throws leaves the object as it was. A client may
  then try again.
\<close>

locale strong_guarantee =
  fixes op :: "'s \<Rightarrow> 'w \<Rightarrow> ('e + 'a) \<times> 's \<times> 'w"
  assumes throw_unchanged: "op s w = (Inl e, s', w') \<Longrightarrow> s' = s"
begin

text \<open>Call again in the next world until a call returns.\<close>

fun attempts :: "'s \<Rightarrow> 'w list \<Rightarrow> ('a \<times> 's \<times> 'w) option" where
  "attempts s [] = None"
| "attempts s (w # ws) =
     (case op s w of (Inl e, s', w') \<Rightarrow> attempts s' ws | (Inr x, s', w') \<Rightarrow> Some (x, s', w'))"

lemma attempts_as_one:
  assumes "attempts s ws = Some (x, s', w')"
  shows "\<exists>w \<in> set ws. op s w = (Inr x, s', w')"
  using assms
proof (induction ws)
  case (Cons w ws)
  then show ?case
    by (auto split: prod.splits sum.splits dest: throw_unchanged)
qed simp

lemma attempts_returns:
  assumes "w \<in> set ws" and "op s w = (Inr x, s', w')"
  shows "attempts s ws \<noteq> None"
  using assms(1)
proof (induction ws)
  case (Cons v vs)
  then show ?case
    using assms(2) by (auto split: prod.splits sum.splits dest: throw_unchanged)
qed simp

end

lemma reset_Inl: "reset pf s w = (Inl e, s', w') \<Longrightarrow> s' = s"
  using keepsD [OF keeps_install] by (auto simp: reset_def mbind_Inl)

lemma merge_Inl: "merge pf other s w = (Inl e, s', w') \<Longrightarrow> s' = s"
  using keepsD [OF keeps_install] by (auto simp: merge_def Let_def mbind_Inl split: if_splits)

lemma retain_matching_Inl: "retain_matching pf other keep s w = (Inl e, s', w') \<Longrightarrow> s' = s"
  using keepsD [OF keeps_install]
  by (auto simp: retain_matching_def Let_def mbind_Inl split: if_splits)

lemma intersect_Inl: "intersect pf other s w = (Inl e, s', w') \<Longrightarrow> s' = s"
  by (auto simp: intersect_def dest: reset_Inl retain_matching_Inl split: if_splits)

lemma a_not_b_Inl: "a_not_b pf other s w = (Inl e, s', w') \<Longrightarrow> s' = s"
  by (auto simp: a_not_b_def dest: retain_matching_Inl split: if_splits)

lemma load_compact_Inl: "load_compact pf im s w = (Inl e, s', w') \<Longrightarrow> s' = s"
  using keepsD [OF keeps_install] by (auto simp: load_compact_def mbind_Inl split: if_splits)

interpretation merge_op: strong_guarantee "merge pf other" for pf other
  by unfold_locales (rule merge_Inl)

interpretation intersect_op: strong_guarantee "intersect pf other" for pf other
  by unfold_locales (rule intersect_Inl)

interpretation a_not_b_op: strong_guarantee "a_not_b pf other" for pf other
  by unfold_locales (rule a_not_b_Inl)

interpretation reset_op: strong_guarantee "reset pf" for pf
  by unfold_locales (rule reset_Inl)

interpretation load_op: strong_guarantee "load_compact pf im" for pf im
  by unfold_locales (rule load_compact_Inl)

end
