(* ===== verification/Theta_Config.thy ===== *)
theory Theta_Config
  imports Theta_Chunk
begin

text \<open>
  The constructor of the Theta sketch: which sampling probabilities it accepts and the
  initial theta each gives, and that a constructed sketch meets the invariant.
\<close>

section \<open>The sampling probability\<close>

lemma unat_mask_less: "unat (w AND mask n :: u32) < 2 ^ n"
  by (simp add: take_bit_eq_mask [symmetric] unsigned_take_bit_eq take_bit_nat_less_exp)

lemma decode32_Fin:
  assumes "decode32 w = Fin x"
  obtains m e where "x = of_int m * 2 powi e" and "\<bar>m\<bar> < 2 ^ 24" and "- 149 \<le> e"
proof -
  define f where "f = unat (w AND mask 23)"
  define g where "g = unat (drop_bit 23 w AND 0xff)"
  have f: "int f < 2 ^ 23"
    unfolding f_def using unat_mask_less [of w 23] by (metis of_nat_less_iff of_nat_numeral of_nat_power)
  define sg :: int where "sg = (if bit w 31 then - 1 else 1)"
  have sg: "\<bar>sg\<bar> = 1" and sgr: "of_int sg = (if bit w 31 then - 1 else 1 :: rat)"
    by (simp_all add: sg_def)
  consider "x = 0" | "x = of_int (sg * int f) * 2 powi (- 149)"
    | "g \<noteq> 0" "x = of_int (sg * (2 ^ 23 + int f)) * 2 powi (int g - 150)"
    using assms by (auto simp: decode32_def Let_def sgr f_def [symmetric] g_def [symmetric] split: if_splits)
  then show thesis
  proof cases
    case 1
    then show thesis by (intro that [of 0 0]) auto
  next
    case 2
    then show thesis using f sg by (intro that [OF 2]) (auto simp: abs_mult)
  next
    case 3
    show thesis using 3(1) f sg by (intro that [OF 3(2)]) (auto simp: abs_mult)
  qed
qed

lemma f_of_nat_max_theta: "f_of_nat (unat max_theta) = Fin 9223372036854775808"
proof -
  have "ilog2 9223372036854775807 = 62"
    using ilog2_le_iff [of 9223372036854775807 62] ilog2_le_iff [of 9223372036854775807 63]
    by (simp add: power_int_def)
  then have "ulp_exp 9223372036854775807 = 10" by (simp add: ulp_exp_def)
  moreover have "\<lfloor>9223372036854775807 / 1024 :: rat\<rfloor> = 9007199254740991"
    by (simp add: floor_eq_iff)
  ultimately have "rnd64 9223372036854775807 = 9223372036854775808"
    by (simp add: rnd64_def round_half_even_def Let_def power_int_def)
  then show ?thesis by (simp add: max_theta_def f_of_nat_def fp_round_def)
qed

lemma nat_floor_less: "x < 1 \<Longrightarrow> nat \<lfloor>2 ^ 63 * x\<rfloor> < 2 ^ 63" for x :: rat
proof -
  assume "x < 1"
  then have "\<lfloor>2 ^ 63 * x\<rfloor> < 2 ^ 63" by (simp add: floor_less_iff)
  then show ?thesis by (cases "0 \<le> \<lfloor>2 ^ 63 * x\<rfloor>") (simp_all add: nat_less_iff del: floor_less_numeral)
qed

text \<open>Scaling a float by \<open>2^63\<close> is exact.\<close>

lemma scale_exact:
  assumes "decode32 w = Fin x" and "0 < x" and "x < 1"
  shows "fmul (f_of_nat (unat max_theta)) (Fin x) = Fin (2 ^ 63 * x)"
proof -
  obtain m e where x: "x = of_int m * 2 powi e" and m: "\<bar>m\<bar> < 2 ^ 24" and e: "- 149 \<le> e"
    using decode32_Fin [OF assms(1)] .
  have "2 ^ 63 * x = of_int m * 2 powi (e + 63)"
    by (simp add: x power_int_add)
  then have "representable (2 ^ 63 * x)"
    unfolding representable_def using m e by (intro exI [of _ m] exI [of _ "e + 63"]) auto
  moreover have "\<bar>2 ^ 63 * x\<bar> < 2 ^ 1024"
  proof -
    have "\<bar>2 ^ 63 * x\<bar> < 2 ^ 63" using assms(2,3) by simp
    also have "\<dots> < (2 :: rat) ^ 1024" by (rule power_strict_increasing) auto
    finally show ?thesis .
  qed
  ultimately have "fp_round False (2 ^ 63 * x) = Fin (2 ^ 63 * x)"
    by (rule fp_round_Fin_nonneg)
  then show ?thesis using assms(2) by (simp add: f_of_nat_max_theta)
qed

text \<open>
  Exactly the probabilities in \<open>[2^-63, 1]\<close> are accepted, and theta is \<open>p * 2^63\<close> rounded
  down, or the maximum for \<open>p = 1\<close>.
\<close>

lemma checked_theta_iff:
  assumes "decode32 p = Fin x"
  shows "checked_theta p = Inr theta \<longleftrightarrow>
    (x = 1 \<and> theta = max_theta) \<or>
    (1 / 2 ^ 63 \<le> x \<and> x < 1 \<and> unat theta = nat \<lfloor>2 ^ 63 * x\<rfloor>)"
proof -
  consider "x \<le> 0" | "0 < x" "x < 1" | "x = 1" | "1 < x" by linarith
  then show ?thesis
  proof cases
    case 2
    let ?n = "nat \<lfloor>2 ^ 63 * x\<rfloor>"
    have n: "?n < 2 ^ 63" using nat_floor_less [OF 2(2)] .
    then have u: "unat (word_of_nat ?n :: u64) = ?n" by (simp add: unat_of_nat)
    have z: "(word_of_nat ?n :: u64) = 0 \<longleftrightarrow> x < 1 / 2 ^ 63"
    proof -
      have "(word_of_nat ?n :: u64) = 0 \<longleftrightarrow> ?n = 0" using u by (metis unat_eq_zero)
      also have "\<dots> \<longleftrightarrow> x < 1 / 2 ^ 63" using 2(1) by (auto simp: floor_less_iff field_simps)
      finally show ?thesis .
    qed
    have "checked_theta p = (if x < 1 / 2 ^ 63 then
        Inl (Invalid_argument
           ''theta_sketch sampling probability must be in (0, 1] and yield a nonzero theta'')
        else Inr (word_of_nat ?n))"
      using 2 z scale_exact [OF assms 2] by (simp add: checked_theta_def assms fleq_def)
    moreover have "theta = word_of_nat ?n \<longleftrightarrow> unat theta = ?n"
      using u by (metis word_nat_cases word_unat_eq_iff)
    ultimately show ?thesis using 2 by (auto simp: not_less simp del: of_nat_nat)
  qed (auto simp: checked_theta_def assms fleq_def Let_def max_theta_def)
qed

lemma checked_theta_not_Fin:
  assumes "\<And>x. decode32 p \<noteq> Fin x" shows "checked_theta p \<noteq> Inr theta"
  using assms by (cases "decode32 p") (auto simp: checked_theta_def fleq_def Let_def)

lemma checked_theta_range:
  assumes "checked_theta p = Inr theta" shows "theta \<noteq> 0" and "theta \<le> max_theta"
proof -
  show "theta \<noteq> 0" using assms by (auto simp: checked_theta_def Let_def split: if_splits)
  obtain x where x: "decode32 p = Fin x" using assms checked_theta_not_Fin by blast
  show "theta \<le> max_theta"
  proof (cases "x = 1")
    case True
    with assms checked_theta_iff [OF x] show ?thesis by simp
  next
    case False
    with assms checked_theta_iff [OF x] have "x < 1" and u: "unat theta = nat \<lfloor>2 ^ 63 * x\<rfloor>" by auto
    with u nat_floor_less [of x] show ?thesis by (simp add: word_le_nat_alt max_theta_def)
  qed
qed

lemma checked_theta_default: "checked_theta 0x3f800000 = Inr max_theta"
proof -
  have "decode32 0x3f800000 = Fin 1"
    by (simp add: decode32_def Let_def take_bit_eq_mask [symmetric])
  then show ?thesis by (simp add: checked_theta_iff)
qed

section \<open>Construction\<close>

lemma total_construct:
  assumes "check_lg_k lg_k = Inr lg_k" and "checked_theta p = Inr theta"
  shows "total (construct pf lg_k seed p)"
  using assms by (auto simp: construct_def intro!: total_dbind)

lemma construct_Inr:
  assumes "construct pf lg_k seed p w = (Inr s, w')"
  shows "wf_sketch s" and "sk_is_empty s" and "sk_hashes s = []" and "sk_lg_k s = lg_k"
    and "sk_seed s = seed" and "checked_theta p = Inr (sk_initial_theta s)"
    and "sk_theta s = sk_initial_theta s" and "min_lg_k \<le> lg_k \<and> lg_k \<le> max_lg_k"
proof -
  obtain theta where lg: "check_lg_k lg_k = Inr lg_k" and th: "checked_theta p = Inr theta"
    and s: "s = \<lparr>sk_lg_k = lg_k, sk_seed = seed, sk_initial_theta = theta, sk_theta = theta,
       sk_is_empty = True,
       sk_survivor_budget = max min_survivor_budget (chunk_target_multiple * 2 ^ unat lg_k),
       sk_hashes = []\<rparr>"
    using assms
    by (auto simp: construct_def check_lg_k_def split: sum.splits if_splits dest!: make_hash_buffer_Inr)
  note lgk = lg [unfolded check_lg_k_def]
  show "min_lg_k \<le> lg_k \<and> lg_k \<le> max_lg_k"
    using lgk by (auto split: if_splits)
  then show "wf_sketch s"
    using checked_theta_range [OF th] by (simp add: s wf_sketch_def min_survivor_budget_def)
  show "sk_is_empty s" "sk_hashes s = []" "sk_lg_k s = lg_k" "sk_seed s = seed"
    "checked_theta p = Inr (sk_initial_theta s)" "sk_theta s = sk_initial_theta s"
    by (simp_all add: s th)
qed

end
