(* ===== verification/Theta_Contract.thy ===== *)
theory Theta_Contract
  imports Sketch_Contract Theta_Operations Theta_Config
begin

text \<open>
  The meaning of a Theta sketch: the set of hashes it is a sample of, and what the operations
  do to it.
\<close>

section \<open>The sketch as a sample\<close>

definition represents :: "sketch \<Rightarrow> u64 set \<Rightarrow> bool" where
  "represents s H \<longleftrightarrow> wf_sketch s \<and> sample H (effective_theta s) (sk_hashes s)"

lemma wf_effective_theta: "wf_sketch s \<Longrightarrow> sk_theta s \<le> effective_theta s"
  by (auto simp: wf_sketch_def effective_theta_def)

lemma represents_sample:
  assumes "represents s H" shows "sample H (sk_theta s) (sk_hashes s)"
proof (cases "sk_is_empty s")
  case True
  then have "below H max_theta = {}" and "sk_hashes s = []"
    using assms by (auto simp: represents_def sample_def effective_theta_def wf_sketch_def)
  moreover have "sk_theta s \<le> max_theta" using assms by (simp add: represents_def wf_sketch_def)
  ultimately have "below H (sk_theta s) = {}"
    using below_mono [of "sk_theta s" max_theta H] by simp
  with \<open>sk_hashes s = []\<close> show ?thesis by auto
next
  case False
  with assms show ?thesis by (simp add: represents_def effective_theta_def)
qed

lemma represents_fed:
  assumes "represents s H" and "fed s K s'" and "\<not> sk_is_empty s'"
  shows "represents s' (H \<union> K)"
  using represents_sample [OF assms(1)] assms(2,3)
  by (simp add: represents_def fed_def effective_theta_def)

lemma represents_merge:
  assumes "cub_ok pf" and "represents s A" and "represents other B"
    and "merge pf other s w = (Inr u, s', w')"
  shows "represents s' (A \<union> B)"
proof (cases "sk_is_empty other")
  case True
  then have s': "s' = s" using assms(4) by (simp add: merge_def)
  have "below B max_theta = {}"
    using True assms(3) by (auto simp: represents_def sample_def effective_theta_def wf_sketch_def)
  moreover have "effective_theta s \<le> max_theta"
    using assms(2) by (auto simp: represents_def wf_sketch_def effective_theta_def)
  ultimately have "below B (effective_theta s) = {}"
    using below_mono [of "effective_theta s" max_theta B] by simp
  with assms(2) s' show ?thesis by (simp add: represents_def sample_def below_Un)
next
  case False
  have wf: "wf_sketch s" "wf_sketch other" using assms(2,3) by (simp_all add: represents_def)
  let ?t = "min (sk_theta s) (sk_theta other)"
  obtain ys theta' xs' where ys: "sample (set (sk_hashes s) \<union> set (sk_hashes other)) ?t ys"
    and t: "trim (k_of s) ?t ys = (theta', xs')"
    and s': "s' = s\<lparr>sk_hashes := xs', sk_theta := theta', sk_is_empty := False\<rparr>"
    using merge_Inr [OF assms(1) wf assms(4) False] by blast
  have "sample (A \<union> B) ?t ys"
    using ys represents_sample [OF assms(2)] represents_sample [OF assms(3)]
    by (simp add: sample_def below_Un below_mono)
  note st = sample_trim [OF this t]
  have k: "k_of s' = k_of s" by (simp add: s' k_of_def)
  have "?t \<noteq> 0" "?t \<le> max_theta" using wf by (auto simp: wf_sketch_def min_def)
  then have "theta' \<noteq> 0" "theta' \<le> max_theta" using st(3,5) by (blast, meson order_trans)
  then have "wf_sketch s'"
    using wf(1) st(2) sampleD [OF st(1)] k by (simp add: wf_sketch_def s')
  with st(1) show ?thesis by (simp add: represents_def effective_theta_def s')
qed

lemma represents_retain:
  assumes "cub_ok pf" and "represents s A" and "represents other B"
    and "retain_matching pf other keep s w = (Inr u, s', w')"
  shows "represents s' {h \<in> A. (h \<in> B) = keep}"
proof -
  have wf: "wf_sketch s" "wf_sketch other" using assms(2,3) by (simp_all add: represents_def)
  define theta where "theta = min (effective_theta s) (effective_theta other)"
  define xs where "xs = filter (\<lambda>h. h \<noteq> 0 \<and> h < theta \<and> (h \<in> set (sk_hashes other)) = keep)
    (sk_hashes s)"
  define emp where "emp \<longleftrightarrow> xs = [] \<and> theta = max_theta"
  have s': "s' = s\<lparr>sk_hashes := xs, sk_theta := if emp then sk_initial_theta s else theta,
      sk_is_empty := emp\<rparr>"
    using retain_matching_Inr [OF assms(1) wf assms(4)] by (simp only: emp_def xs_def theta_def)
  have A: "set (sk_hashes s) = below A (effective_theta s)" "ascending (sk_hashes s)"
    and B: "set (sk_hashes other) = below B (effective_theta other)"
    using assms(2,3) by (simp_all add: represents_def sample_def)
  have "set xs = below {h \<in> A. (h \<in> B) = keep} theta"
    unfolding xs_def theta_def by (auto simp: A(1) B below_def)
  then have sam: "sample {h \<in> A. (h \<in> B) = keep} theta xs"
    using A(2) by (simp add: sample_def xs_def ascending_filter)
  have "theta \<noteq> 0" "theta \<le> max_theta"
    using wf by (auto simp: theta_def wf_sketch_def effective_theta_def min_def max_theta_def)
  moreover have "length xs \<le> k_of s"
    using wf(1) unfolding xs_def wf_sketch_def by (meson le_trans length_filter_le)
  moreover have "k_of s' = k_of s" by (simp add: s' k_of_def)
  ultimately have "wf_sketch s'"
    using wf(1) sampleD(1,3) [OF sam] by (auto simp: wf_sketch_def s' emp_def)
  moreover have "effective_theta s' = theta" by (auto simp: s' effective_theta_def emp_def)
  ultimately show ?thesis using sam by (simp add: represents_def s')
qed

end
