(* ===== verification/Theta_Meaning.thy ===== *)
theory Theta_Meaning
  imports Theta_Contract
begin

text \<open>
  The Theta sketch meets its contracts: it interprets the locales of \<^theory_text>\<open>Sketch_Contract\<close>, its
  operations keep the invariant and return when the device does not fail, and a stored
  sketch is loaded back.
\<close>

section \<open>The set operations\<close>

lemma empty_below:
  assumes "represents s A" and "sk_is_empty s"
  shows "below A max_theta = {}" and "sk_hashes s = []"
  using assms by (auto simp: represents_def sample_def effective_theta_def wf_sketch_def)

lemma below_empty_lower: "below A max_theta = {} \<Longrightarrow> theta \<le> max_theta \<Longrightarrow> below A theta = {}"
  using below_mono [of theta max_theta A] by simp

lemma effective_theta_le: "wf_sketch s \<Longrightarrow> effective_theta s \<le> max_theta"
  by (simp add: effective_theta_def wf_sketch_def)

lemma represents_reset:
  assumes "wf_sketch s" and "reset pf s w = (Inr u, s', w')" and "below H max_theta = {}"
  shows "represents s' H"
proof -
  have s': "s' = s\<lparr>sk_hashes := [], sk_theta := sk_initial_theta s, sk_is_empty := True\<rparr>"
    using reset_Inr [OF assms(2)] .
  then have "k_of s' = k_of s" by (simp add: k_of_def)
  with assms(1,3) s' show ?thesis
    by (auto simp: represents_def wf_sketch_def effective_theta_def)
qed

lemma represents_intersect:
  assumes "cub_ok pf" and "represents s A" and "represents other B"
    and "intersect pf other s w = (Inr u, s', w')"
  shows "represents s' (A \<inter> B)"
proof -
  have sub: "below (A \<inter> B) theta \<subseteq> below A theta \<inter> below B theta" for theta
    by (auto simp: below_def)
  consider "sk_is_empty s" | "\<not> sk_is_empty s" "sk_is_empty other"
    | "\<not> sk_is_empty s" "\<not> sk_is_empty other" by blast
  then show ?thesis
  proof cases
    case 1
    then have "s' = s" using assms(4) by (simp add: intersect_def)
    moreover have "effective_theta s = max_theta" using 1 by (simp add: effective_theta_def)
    ultimately show ?thesis
      using 1 assms(2) empty_below [OF assms(2) 1] sub [of max_theta]
      by (auto simp: represents_def)
  next
    case 2
    have "below (A \<inter> B) max_theta = {}" using sub empty_below(1) [OF assms(3) 2(2)] by blast
    moreover have "reset pf s w = (Inr u, s', w')" using assms(4) 2 by (simp add: intersect_def)
    ultimately show ?thesis using represents_reset assms(2) by (auto simp: represents_def)
  next
    case 3
    then have "retain_matching pf other True s w = (Inr u, s', w')"
      using assms(4) by (simp add: intersect_def)
    from represents_retain [OF assms(1-3) this] show ?thesis
      by (simp add: Int_def)
  qed
qed

lemma represents_a_not_b:
  assumes "cub_ok pf" and "represents s A" and "represents other B"
    and "a_not_b pf other s w = (Inr u, s', w')"
  shows "represents s' (A - B)"
proof (cases "sk_is_empty s \<or> (sk_hashes s \<noteq> [] \<and> sk_is_empty other)")
  case True
  then have s': "s' = s" using assms(4) by (simp add: a_not_b_def)
  have "below (A - B) (effective_theta s) = below A (effective_theta s)"
  proof (cases "sk_is_empty s")
    case True
    then have "effective_theta s = max_theta" by (simp add: effective_theta_def)
    with empty_below(1) [OF assms(2) True] show ?thesis by (auto simp: below_def)
  next
    case False
    with True have "below B max_theta = {}" using empty_below(1) [OF assms(3)] by blast
    moreover have "effective_theta s \<le> max_theta"
      using assms(2) effective_theta_le by (simp add: represents_def)
    ultimately have "below B (effective_theta s) = {}" by (rule below_empty_lower)
    then show ?thesis by (auto simp: below_def)
  qed
  with assms(2) s' show ?thesis by (simp add: represents_def sample_def)
next
  case False
  then have "retain_matching pf other False s w = (Inr u, s', w')"
    using assms(4) unfolding a_not_b_def if_not_P [OF False] by blast
  from represents_retain [OF assms(1-3) this] show ?thesis
    by (simp add: set_diff_eq)
qed

lemma represents_update:
  assumes "cub_ok pf" and "represents s A"
    and "update pf mem first stop s w = Some (Inr u, s', w')" and "stop - first < 2 ^ 63"
  shows "represents s' (A \<union> theta_hashes pf s (key_range mem first (nat (stop - first))))"
proof -
  have le: "first \<le> stop" using assms(3) by (auto simp: update_def split: if_splits)
  have wf: "wf_sketch s" using assms(2) by (simp add: represents_def)
  obtain m where m: "fed s (theta_hashes pf s (key_range mem first m)) s'"
    "m = 0 \<Longrightarrow> s' = s" "0 < m \<Longrightarrow> \<not> sk_is_empty s'" "m = nat (stop - first)"
    using update_returns [OF assms(1) wf le assms(4), of mem w] assms(3) by auto
  show ?thesis
  proof (cases "m = 0")
    case True
    with m assms(2) show ?thesis by (simp add: key_range_def)
  next
    case False
    with represents_fed [OF assms(2) m(1)] m(3,4) show ?thesis by simp
  qed
qed

lemma represents_construct:
  "construct pf lg_k seed p w = (Inr s, w') \<Longrightarrow> represents s {}"
  using construct_Inr by (auto simp: represents_def)

section \<open>The sketch interprets the set contract\<close>

text \<open>
  A batch is the range of keys a sketch is built from. All sketches of an expression share
  a platform and a hash seed; their sizes and sampling probabilities may differ.
\<close>

definition theta_rep :: "platform \<Rightarrow> u64 \<Rightarrow> sketch \<Rightarrow> u64 set \<Rightarrow> bool" where
  "theta_rep pf seed s H \<longleftrightarrow> cub_ok pf \<and> sk_seed s = seed \<and> represents s H"

definition key_hashes :: "platform \<Rightarrow> u64 \<Rightarrow> key list \<Rightarrow> u64 set" where
  "key_hashes pf seed keys = theta_hash pf seed ` set keys"

definition theta_build :: "platform \<Rightarrow> u64 \<Rightarrow> key list \<Rightarrow> sketch \<Rightarrow> bool" where
  "theta_build pf seed keys s \<longleftrightarrow> cub_ok pf \<and> length keys < 2 ^ 63 \<and>
     (\<exists>lg_k p s0 w0 w1 w2 w3. construct pf lg_k seed p w0 = (Inr s0, w1) \<and>
        update pf (\<lambda>i. keys ! nat i) 0 (int (length keys)) s0 w2 = Some (Inr (), s, w3))"

definition runs :: "(sketch \<Rightarrow> unit meth) \<Rightarrow> sketch \<Rightarrow> sketch \<Rightarrow> sketch \<Rightarrow> bool" where
  "runs op s other s' \<longleftrightarrow> (\<exists>w w'. op other s w = (Inr (), s', w'))"

lemma key_range_nth: "key_range (\<lambda>i. keys ! nat i) 0 (length keys) = keys"
  by (rule nth_equalityI) (simp_all add: key_range_def)

lemma install_config:
  assumes "install pf input theta emp s w = (Inr u, s', w')" shows "same_config s s'"
  using assms by (auto simp: install_def Let_def same_config_def split: if_splits)

lemma merge_config: "merge pf other s w = (Inr u, s', w') \<Longrightarrow> same_config s s'"
  by (auto simp: merge_def Let_def split: if_splits dest: install_config)

lemma reset_config: "reset pf s w = (Inr u, s', w') \<Longrightarrow> same_config s s'"
  by (auto simp: reset_def dest: install_config)

lemma retain_matching_config: "retain_matching pf other keep s w = (Inr u, s', w') \<Longrightarrow> same_config s s'"
  by (auto simp: retain_matching_def Let_def split: if_splits dest: install_config)

lemma intersect_config: "intersect pf other s w = (Inr u, s', w') \<Longrightarrow> same_config s s'"
  by (auto simp: intersect_def split: if_splits dest: reset_config retain_matching_config)

lemma a_not_b_config: "a_not_b pf other s w = (Inr u, s', w') \<Longrightarrow> same_config s s'"
  by (auto simp: a_not_b_def split: if_splits dest: retain_matching_config)

lemma theta_rep_build: "theta_build pf seed keys s \<Longrightarrow> theta_rep pf seed s (key_hashes pf seed keys)"
proof -
  assume "theta_build pf seed keys s"
  then obtain lg_k p s0 w0 w1 w2 w3 where pf: "cub_ok pf" and len: "length keys < 2 ^ 63"
    and c: "construct pf lg_k seed p w0 = (Inr s0, w1)"
    and u: "update pf (\<lambda>i. keys ! nat i) 0 (int (length keys)) s0 w2 = Some (Inr (), s, w3)"
    by (auto simp: theta_build_def)
  note s0 = construct_Inr [OF c]
  have l: "int (length keys) - 0 < 2 ^ 63" using len by (simp add: nat_less_iff [symmetric])
  have "represents s ({} \<union> theta_hashes pf s0 (key_range (\<lambda>i. keys ! nat i) 0 (nat (int (length keys) - 0))))"
    using represents_update [OF pf represents_construct [OF c] u l] .
  then have "represents s (key_hashes pf seed keys)"
    using s0(5) by (simp add: key_range_nth theta_hashes_def key_hashes_def)
  moreover have "sk_seed s = seed"
    using update_returns [OF pf s0(1) _ l, of "\<lambda>i. keys ! nat i" w2] u s0(5)
    by (auto simp: fed_def same_config_def)
  ultimately show ?thesis using pf by (simp add: theta_rep_def)
qed

interpretation theta_sets: set_sketch "theta_rep pf seed" "key_hashes pf seed" "theta_build pf seed"
  "runs (merge pf)" "runs (intersect pf)" "runs (a_not_b pf)" for pf :: platform and seed :: u64
proof unfold_locales
  show "theta_build pf seed b s \<Longrightarrow> theta_rep pf seed s (key_hashes pf seed b)" for b s
    by (rule theta_rep_build)
  show "theta_rep pf seed s A \<Longrightarrow> theta_rep pf seed t B \<Longrightarrow> runs (merge pf) s t s' \<Longrightarrow>
      theta_rep pf seed s' (A \<union> B)" for s A t B s'
    by (auto simp: theta_rep_def runs_def same_config_def dest: merge_config intro: represents_merge)
  show "theta_rep pf seed s A \<Longrightarrow> theta_rep pf seed t B \<Longrightarrow> runs (intersect pf) s t s' \<Longrightarrow>
      theta_rep pf seed s' (A \<inter> B)" for s A t B s'
    by (auto simp: theta_rep_def runs_def same_config_def dest: intersect_config
        intro: represents_intersect)
  show "theta_rep pf seed s A \<Longrightarrow> theta_rep pf seed t B \<Longrightarrow> runs (a_not_b pf) s t s' \<Longrightarrow>
      theta_rep pf seed s' (A - B)" for s A t B s'
    by (auto simp: theta_rep_def runs_def same_config_def dest: a_not_b_config
        intro: represents_a_not_b)
qed

section \<open>The sketch interprets the contract of mergeable summaries\<close>

lemma summary_merged:
  assumes "cub_ok pf" and "wf_sketch s" and "wf_sketch other" and "k_of s \<le> m"
    and "summary (k_of s) theta1 A (sk_theta s) (sk_hashes s)"
    and "summary m theta2 B (sk_theta other) (sk_hashes other)"
    and "merge pf other s w = (Inr u, s', w')" and "\<not> sk_is_empty other"
  shows "summary (k_of s) (min theta1 theta2) (A \<union> B) (sk_theta s') (sk_hashes s')"
proof -
  let ?t = "min (sk_theta s) (sk_theta other)"
  obtain ys theta' xs' where ys: "sample (set (sk_hashes s) \<union> set (sk_hashes other)) ?t ys"
    and t: "trim (k_of s) ?t ys = (theta', xs')"
    and s': "s' = s\<lparr>sk_hashes := xs', sk_theta := theta', sk_is_empty := False\<rparr>"
    using merge_Inr [OF assms(1-3,7,8)] by blast
  have "sample (A \<union> B) ?t ys"
    using ys assms(5,6) by (simp add: summary_def sample_def below_Un below_mono)
  from summary_merge [OF assms(5,6,4) this t] show ?thesis by (simp add: s')
qed

definition theta_canon :: "platform \<Rightarrow> u64 \<Rightarrow> nat \<Rightarrow> u64 \<Rightarrow> sketch \<Rightarrow> u64 set \<Rightarrow> bool" where
  "theta_canon pf seed n theta0 s H \<longleftrightarrow> cub_ok pf \<and> wf_sketch s \<and> sk_seed s = seed \<and>
     k_of s = n \<and> sk_initial_theta s = theta0 \<and> summary n theta0 H (sk_theta s) (sk_hashes s)"

definition theta_feed :: "platform \<Rightarrow> sketch \<Rightarrow> u64 set \<Rightarrow> sketch \<Rightarrow> bool" where
  "theta_feed pf s K s' \<longleftrightarrow> (\<exists>mem first stop w w'. stop - first < 2 ^ 63 \<and>
     K = theta_hashes pf s (key_range mem first (nat (stop - first))) \<and>
     update pf mem first stop s w = Some (Inr (), s', w'))"

lemma theta_feed_fed:
  assumes "cub_ok pf" and "wf_sketch s" and "theta_feed pf s K s'" shows "fed s K s'"
proof -
  obtain mem first stop w w' where l: "stop - first < 2 ^ 63"
    and K: "K = theta_hashes pf s (key_range mem first (nat (stop - first)))"
    and u: "update pf mem first stop s w = Some (Inr (), s', w')"
    using assms(3) by (auto simp: theta_feed_def)
  have le: "first \<le> stop" using u by (auto simp: update_def split: if_splits)
  show ?thesis using update_returns [OF assms(1,2) le l, of mem w] u K by auto
qed

lemma theta_canon_merge:
  assumes "theta_canon pf seed n theta0 s H" and "theta_canon pf seed n theta0 t K"
    and "runs (merge pf) s t s'"
  shows "theta_canon pf seed n theta0 s' (H \<union> K)"
proof -
  obtain w w' where m: "merge pf t s w = (Inr (), s', w')" using assms(3) by (auto simp: runs_def)
  note a = assms(1,2) [unfolded theta_canon_def]
  have cfg: "same_config s s'" using merge_config [OF m] .
  have "represents s' (set (sk_hashes s) \<union> set (sk_hashes t))"
  proof (rule represents_merge [OF _ _ _ m])
    have "represents x (set (sk_hashes x))" if "wf_sketch x" for x
      using that wf_effective_theta [OF that] unfolding represents_def sample_def wf_sketch_def below_def
      by (auto intro: less_le_trans)
    then show "represents s (set (sk_hashes s))" "represents t (set (sk_hashes t))" using a by auto
  qed (use a in simp)
  then have wf: "wf_sketch s'" by (simp add: represents_def)
  have "summary n theta0 (H \<union> K) (sk_theta s') (sk_hashes s')"
  proof (cases "sk_is_empty t")
    case True
    then have "s' = s" using m by (simp add: merge_def)
    moreover have "sk_hashes t = []" "sk_theta t = theta0" using True a by (auto simp: wf_sketch_def)
    then have K: "below K theta0 = {}" using a by (simp add: summary_def sample_def)
    have "below K (sk_theta s) = {}" using a below_mono [of "sk_theta s" theta0 K] K by (simp add: summary_def)
    then have "sample (H \<union> K) (sk_theta s) (sk_hashes s)"
      using a by (simp add: summary_def sample_def below_Un)
    ultimately show ?thesis
      using a up_to_mono [of H "H \<union> K" "sk_theta s"] by (auto simp: summary_def)
  next
    case False
    with summary_merged [OF _ _ _ _ _ _ m, of n theta0 H theta0 K] a show ?thesis by simp
  qed
  with a cfg wf show ?thesis
    by (simp add: theta_canon_def same_config_def k_of_def)
qed

interpretation theta_summaries: mergeable "theta_canon pf seed n theta0"
  "\<lambda>s. (sk_theta s, sk_hashes s)" "theta_feed pf" "runs (merge pf)"
  for pf :: platform and seed :: u64 and n :: nat and theta0 :: u64
proof unfold_locales
  show "theta_canon pf seed n theta0 s H \<Longrightarrow> theta_canon pf seed n theta0 t H \<Longrightarrow>
      (sk_theta s, sk_hashes s) = (sk_theta t, sk_hashes t)" for s t H
    unfolding theta_canon_def using summary_unique by blast
  show "theta_canon pf seed n theta0 s' (H \<union> K)"
    if c: "theta_canon pf seed n theta0 s H" and f: "theta_feed pf s K s'" for s H K s'
  proof -
    have "fed s K s'" using theta_feed_fed [OF _ _ f] c by (simp add: theta_canon_def)
    with c show ?thesis by (auto simp: theta_canon_def fed_def same_config_def k_of_def)
  qed
qed (rule theta_canon_merge)

end
