(* ===== verification/Theta_Storage.thy ===== *)
theory Theta_Storage
  imports Theta_Meaning
begin

text \<open>
  Storing and loading a Theta sketch, and that every operation of it returns when the
  device does not fail and its arguments are acceptable.
\<close>

section \<open>Storing\<close>

definition image_of :: "sketch \<Rightarrow> compact_image" where
  "image_of s = \<lparr>ci_empty = sk_is_empty s, ci_theta = effective_theta s, ci_entries = sk_hashes s\<rparr>"

lemma k_of_bounds:
  assumes "min_lg_k \<le> sk_lg_k s" and "sk_lg_k s \<le> max_lg_k"
  shows "32 \<le> k_of s" and "k_of s \<le> 2 ^ 26"
proof -
  have "5 \<le> unat (sk_lg_k s)" "unat (sk_lg_k s) \<le> 26"
    using assms by (simp_all add: min_lg_k_def max_lg_k_def word_le_nat_alt)
  then have "(2::nat) ^ 5 \<le> k_of s" "k_of s \<le> 2 ^ 26"
    unfolding k_of_def by (intro power_increasing; simp)+
  then show "32 \<le> k_of s" and "k_of s \<le> 2 ^ 26" by simp_all
qed

lemma image_ok_image_of: "wf_sketch s \<Longrightarrow> image_ok (image_of s)"
proof -
  assume wf: "wf_sketch s"
  have "length (sk_hashes s) < 2 ^ 32"
    using wf k_of_bounds(2) [of s] by (simp add: wf_sketch_def)
  then show ?thesis
    using wf wf_effective_theta [OF wf] effective_theta_le [OF wf]
    by (auto simp: image_ok_def image_of_def wf_sketch_def effective_theta_def max_theta_def)
qed

lemma serialize_compact_Inr:
  "serialize_compact pf s w = (Inr bytes, w') \<Longrightarrow>
   bytes = serialize_image pf (sk_seed s) (image_of s)"
  by (auto simp: serialize_compact_def get_retained_hashes_def serialize_image_def image_of_def
      split: if_splits)

lemma total_serialize_compact: "total (serialize_compact pf s)"
  unfolding serialize_compact_def get_retained_hashes_def by (auto intro!: total_dbind)

section \<open>Loading\<close>

lemma deserialize_Inr:
  assumes "deserialize pf bytes lg_k seed w = (Inr s, w')"
  obtains im s0 w0 w1 where "parse_compact_v3 pf bytes seed = Inr im"
    and "construct pf lg_k seed 0x3f800000 w0 = (Inr s0, w1)"
    and "length (ci_entries im) \<le> k_of s0"
    and "s = s0\<lparr>sk_hashes := ci_entries im, sk_theta := ci_theta im, sk_is_empty := ci_empty im\<rparr>"
proof -
  obtain im where p: "parse_compact_v3 pf bytes seed = Inr im"
    using assms by (cases "parse_compact_v3 pf bytes seed") (auto simp: deserialize_def)
  obtain w0 s0 w1 where c: "construct pf lg_k seed 0x3f800000 w0 = (Inr s0, w1)"
    and "(case load_compact pf im s0 w1 of (r, s, w) \<Rightarrow>
      (case r of Inl e \<Rightarrow> (Inl e, w) | Inr _ \<Rightarrow> (Inr s, w))) = (Inr s, w')"
    using assms by (auto simp: deserialize_def p)
  then obtain u where l: "load_compact pf im s0 w1 = (Inr u, s, w')"
    by (cases "load_compact pf im s0 w1") (auto split: sum.splits)
  have "sk_initial_theta s0 = max_theta"
    using construct_Inr(6) [OF c] by (simp add: checked_theta_default)
  moreover have "ci_empty im \<Longrightarrow> ci_theta im = max_theta"
    using parse_image_ok [OF p] by (simp add: image_ok_def)
  ultimately show thesis
    using that [OF p c] load_compact_Inr [OF l] by auto
qed

lemma wf_deserialize:
  assumes "deserialize pf bytes lg_k seed w = (Inr s, w')"
  shows "wf_sketch s" and "sk_lg_k s = lg_k" and "sk_seed s = seed"
    and "\<exists>im. parse_compact_v3 pf bytes seed = Inr im \<and> image_of s = im"
proof -
  obtain im s0 w0 w1 where p: "parse_compact_v3 pf bytes seed = Inr im"
    and c: "construct pf lg_k seed 0x3f800000 w0 = (Inr s0, w1)"
    and le: "length (ci_entries im) \<le> k_of s0"
    and s: "s = s0\<lparr>sk_hashes := ci_entries im, sk_theta := ci_theta im, sk_is_empty := ci_empty im\<rparr>"
    using deserialize_Inr [OF assms] .
  note s0 = construct_Inr [OF c] and im = parse_image_ok [OF p]
  have "sk_initial_theta s0 = max_theta" using s0(6) by (simp add: checked_theta_default)
  moreover have "k_of s = k_of s0" by (simp add: s k_of_def)
  ultimately show "wf_sketch s"
    using s0(1) im le by (auto simp: wf_sketch_def image_ok_def s)
  show "sk_lg_k s = lg_k" "sk_seed s = seed" using s0 by (simp_all add: s)
  have "image_of s = im"
    using im by (auto simp: image_of_def s effective_theta_def image_ok_def)
  with p show "\<exists>im. parse_compact_v3 pf bytes seed = Inr im \<and> image_of s = im" by blast
qed

section \<open>Operations return\<close>

lemma returns_reset: "returns (reset pf) s"
  unfolding reset_def by (auto intro!: returns_mbind returns_install)

lemma returns_merge:
  assumes "sk_is_empty other \<or> compute_seed_hash pf (sk_seed s) = compute_seed_hash pf (sk_seed other)"
  shows "returns (merge pf other) s"
proof (cases "sk_is_empty other")
  case True
  then show ?thesis by (simp add: returns_def merge_def mreturn_def)
next
  case False
  have "returns (\<lambda>t. mbind (call (merge_unique pf (sk_hashes t) (sk_hashes other))) (\<lambda>combined.
      mbind (call (select pf (take (br_size combined) (br_data combined))
               (screen_hash (min (sk_theta t) (effective_theta other)))))
        (\<lambda>screened. install pf screened (min (sk_theta t) (effective_theta other)) False)) t) s"
    by (rule returns_self) (auto intro!: returns_mbind returns_install)
  then show ?thesis using False assms by (simp add: returns_def merge_def Let_def)
qed

lemma returns_retain_matching:
  assumes "compute_seed_hash pf (sk_seed s) = compute_seed_hash pf (sk_seed other)"
  shows "returns (retain_matching pf other keep) s"
proof -
  have "returns (\<lambda>t. mbind (call (select pf (sk_hashes t)
        (membership_filter (sk_hashes other) (min (effective_theta t) (effective_theta other)) keep)))
      (\<lambda>kept. install pf kept (min (effective_theta t) (effective_theta other))
        (br_size kept = 0 \<and> min (effective_theta t) (effective_theta other) = max_theta)) t) s"
    by (rule returns_self) (auto intro!: returns_install)
  then show ?thesis using assms by (simp add: returns_def retain_matching_def Let_def)
qed

lemma returns_intersect:
  assumes "sk_is_empty s \<or> sk_is_empty other \<or>
    compute_seed_hash pf (sk_seed s) = compute_seed_hash pf (sk_seed other)"
  shows "returns (intersect pf other) s"
  using assms returns_reset [of pf s] returns_retain_matching [of pf s other True]
  by (auto simp: returns_def intersect_def mreturn_def)

lemma returns_a_not_b:
  assumes "sk_is_empty s \<or> compute_seed_hash pf (sk_seed s) = compute_seed_hash pf (sk_seed other)"
  shows "returns (a_not_b pf other) s"
  using assms returns_retain_matching [of pf s other False]
  by (auto simp: returns_def a_not_b_def mreturn_def)

lemma returns_load_compact:
  assumes "length (ci_entries im) \<le> k_of s"
  shows "returns (load_compact pf im) s"
proof -
  have "returns (\<lambda>t. mbind (call (make_hash_buffer pf (length (ci_entries im)))) (\<lambda>buf.
      mbind (if ci_entries im \<noteq> []
             then mbind (call cuda_try) (\<lambda>_. mreturn (write_prefix (ci_entries im) buf))
             else mreturn buf) (\<lambda>buf.
      install pf \<lparr>br_data = buf, br_size = length (ci_entries im)\<rparr>
        (ci_theta im) (ci_empty im))) t) s"
    by (rule returns_self) (auto intro!: returns_mbind returns_install)
  then show ?thesis using assms by (simp add: returns_def load_compact_def)
qed

text \<open>Loading what was stored, into a sketch with room for it.\<close>

lemma deserialize_serialized:
  assumes "wf_sketch s" and "min_lg_k \<le> lg_k" and "lg_k \<le> max_lg_k"
    and "length (sk_hashes s) \<le> 2 ^ unat lg_k" and "no_faults w"
  shows "\<exists>s' w'. deserialize pf (serialize_image pf (sk_seed s) (image_of s)) lg_k (sk_seed s) w
      = (Inr s', w') \<and> no_faults w' \<and> image_of s' = image_of s \<and> sk_lg_k s' = lg_k"
proof -
  have lg: "check_lg_k lg_k = Inr lg_k" using assms(2,3) by (simp add: check_lg_k_def not_less)
  note p = parse_serialize_image [OF image_ok_image_of [OF assms(1)], of pf "sk_seed s"]
  obtain w1 where w1: "sync w = (Inr (), w1)" "no_faults w1"
    using total_sync assms(5) by (fastforce simp: total_def)
  obtain s0 w2 where c: "construct pf lg_k (sk_seed s) 0x3f800000 w1 = (Inr s0, w2)" "no_faults w2"
    using total_construct [OF lg checked_theta_default] w1(2) by (fastforce simp: total_def)
  have "k_of s0 = 2 ^ unat lg_k" using construct_Inr(4) [OF c(1)] by (simp add: k_of_def)
  then have "length (ci_entries (image_of s)) \<le> k_of s0" using assms(4) by (simp add: image_of_def)
  from returns_load_compact [OF this] obtain u s' w' where
    l: "load_compact pf (image_of s) s0 w2 = (Inr u, s', w')" "no_faults w'"
    using c(2) by (fastforce simp: returns_def)
  have d: "deserialize pf (serialize_image pf (sk_seed s) (image_of s)) lg_k (sk_seed s) w = (Inr s', w')"
    using w1(1) p c(1) l(1) by (simp add: deserialize_def)
  from wf_deserialize [OF this] p have "image_of s' = image_of s" "sk_lg_k s' = lg_k" by auto
  with d l(2) show ?thesis by blast
qed

end
