(* ===== verification/Theta_Properties.thy ===== *)
theory Theta_Properties
  imports Theta_Storage
begin

text \<open>
  The properties of the Theta sketch, each with an application at a concrete input. The
  inputs are a fresh sketch of nominal size 32 on the reference platform, whose device does
  not fail, and worlds with a fault where a property is about exceptions.
\<close>

section \<open>Inputs for the applications\<close>

definition idle :: world where "idle = \<lparr>faults = [], scheds = []\<rparr>"
definition failing :: world where "failing = \<lparr>faults = [True], scheds = []\<rparr>"

definition fresh :: sketch where
  "fresh = \<lparr>sk_lg_k = 5, sk_seed = 9001, sk_initial_theta = max_theta, sk_theta = max_theta,
     sk_is_empty = True, sk_survivor_budget = min_survivor_budget, sk_hashes = []\<rparr>"

definition filled :: sketch where
  "filled = fresh\<lparr>sk_is_empty := False, sk_hashes := [5, 7]\<rparr>"

definition counting :: "int \<Rightarrow> key" where "counting i = Key_u64 (word_of_int i)"

lemma no_faults_idle: "no_faults idle"
  by (simp add: no_faults_def idle_def)

lemma wf_fresh: "wf_sketch fresh"
  by (simp add: wf_sketch_def fresh_def min_lg_k_def max_lg_k_def max_theta_def min_survivor_budget_def)

lemma wf_filled: "wf_sketch filled"
  by (simp add: wf_sketch_def filled_def fresh_def min_lg_k_def max_lg_k_def max_theta_def
      min_survivor_budget_def k_of_def)

lemma k_of_demo: "k_of fresh = 32" "k_of filled = 32"
  by (simp_all add: k_of_def fresh_def filled_def)

lemma construct_fresh: "construct reference_platform 5 9001 0x3f800000 idle = (Inr fresh, idle)"
  by (simp add: construct_def check_lg_k_def min_lg_k_def max_lg_k_def checked_theta_default
      make_hash_buffer_def alloc_def next_fault_def idle_def dbind_def dreturn_def fresh_def
      min_survivor_budget_def chunk_target_multiple_def)

lemma update_runs:
  assumes "wf_sketch s" and "a \<le> b" and "b - a < 2 ^ 63"
  shows "\<exists>s' w'. update reference_platform mem a b s idle = Some (Inr (), s', w') \<and>
    wf_sketch s' \<and> (a < b \<longrightarrow> \<not> sk_is_empty s') \<and> sk_seed s' = sk_seed s"
proof -
  obtain s' w' m where u: "update reference_platform mem a b s idle = Some (Inr (), s', w')"
    and m: "m = nat (b - a)" "0 < m \<Longrightarrow> \<not> sk_is_empty s'"
    and f: "fed s (theta_hashes reference_platform s (key_range mem a m)) s'"
    using update_returns [OF cub_ok_reference assms, of mem idle] no_faults_idle by metis
  from f have "wf_sketch s'" "sk_seed s' = sk_seed s" by (auto simp: fed_def same_config_def)
  with u m show ?thesis by auto
qed

section \<open>Update\<close>

text \<open>
  C1: updating a fresh sketch with a range of keys leaves exactly the reference summary of the
  hashes of the keys: the hashes below theta, sorted and without duplicates, at most \<open>2^lg_k\<close>
  of them, theta being the first hash left out or the initial theta. Chunk sizes, schedules
  of the kernel and retries after an overflow leave no trace.
\<close>

theorem theta_update_reference:
  assumes "cub_ok pf" and "construct pf lg_k seed p w0 = (Inr s, w1)"
    and "stop - first < 2 ^ 63" and "update pf mem first stop s w2 = Some (Inr (), s', w3)"
  shows "(sk_theta s', sk_hashes s') =
    summarize (2 ^ unat lg_k) (sk_initial_theta s)
      (map (theta_hash pf seed) (key_range mem first (nat (stop - first))))"
proof -
  note s = construct_Inr [OF assms(2)]
  have k: "k_of s = 2 ^ unat lg_k" by (simp add: k_of_def s(4))
  have le: "first \<le> stop" using assms(4) by (auto simp: update_def split: if_splits)
  have "fed s (theta_hashes pf s (key_range mem first (nat (stop - first)))) s'"
    using update_returns [OF assms(1) s(1) le assms(3), of mem w2] assms(4) by auto
  then have "summary (k_of s) (sk_initial_theta s)
      ({} \<union> theta_hashes pf s (key_range mem first (nat (stop - first)))) (sk_theta s') (sk_hashes s')"
    unfolding fed_def using s(3,7) summary_empty by metis
  moreover have "{} \<union> theta_hashes pf s (key_range mem first (nat (stop - first)))
      = set (map (theta_hash pf seed) (key_range mem first (nat (stop - first))))"
    by (simp add: theta_hashes_def s(5))
  ultimately show ?thesis by (simp only: k summary_iff_summarize)
qed

theorem theta_update_reference_witness:
  "\<exists>s' w3. update reference_platform counting 0 100 fresh idle = Some (Inr (), s', w3) \<and>
     (sk_theta s', sk_hashes s') = summarize 32 max_theta
       (map (theta_hash reference_platform 9001) (key_range counting 0 100))"
proof -
  obtain s' w3 where u: "update reference_platform counting 0 100 fresh idle = Some (Inr (), s', w3)"
    using update_runs [OF wf_fresh, of 0 100 counting] by auto
  from theta_update_reference [OF cub_ok_reference construct_fresh _ this] u show ?thesis
    by (simp add: fresh_def)
qed

text \<open>
  C10: an update always returns. Both loops end for every range, platform, world and schedule:
  a chunk that overflows is halved and retried, and every committed chunk is nonempty. When
  no CUDA call fails it returns without an exception.
\<close>

theorem theta_update_returns:
  assumes "cub_ok pf" and "wf_sketch s" and "stop - first < 2 ^ 63"
  shows "\<exists>r s' w'. update pf mem first stop s w = Some (r, s', w') \<and>
    (no_faults w \<and> first \<le> stop \<longrightarrow> r = Inr ()) \<and>
    (stop < first \<longrightarrow> s' = s \<and> r = Inl (Invalid_argument
       ''theta_sketch::update requires a non-negative range''))"
proof (cases "first \<le> stop")
  case True
  then show ?thesis using update_returns [OF assms(1,2) True assms(3), of mem w] by (metis not_less)
next
  case False
  then show ?thesis by (simp add: update_def)
qed

theorem theta_update_returns_witness:
  "\<exists>s' w'. update reference_platform counting 3 1000 filled idle = Some (Inr (), s', w')"
  using theta_update_returns [OF cub_ok_reference wf_filled, of 1000 3 counting idle] no_faults_idle
  by auto

text \<open>
  C13: an update that throws has committed a prefix of its range. The sketch is well formed
  and a sample of what it represented before and the hashes of the first \<open>m\<close> keys; with
  \<open>m = 0\<close> it is unchanged, the empty flag included.
\<close>

theorem theta_update_exception:
  assumes "cub_ok pf" and "represents s A" and "stop - first < 2 ^ 63"
    and "update pf mem first stop s w = Some (Inl e, s', w')"
  shows "\<exists>m \<le> nat (stop - first).
    represents s' (A \<union> theta_hashes pf s (key_range mem first m)) \<and> (m = 0 \<longrightarrow> s' = s)"
proof (cases "first \<le> stop")
  case True
  have wf: "wf_sketch s" using assms(2) by (simp add: represents_def)
  obtain m where m: "m \<le> nat (stop - first)"
    "fed s (theta_hashes pf s (key_range mem first m)) s'"
    "m = 0 \<Longrightarrow> s' = s" "0 < m \<Longrightarrow> \<not> sk_is_empty s'"
    by (rule update_committed [OF assms(1) wf True assms(3,4)], rule that)
  then have "represents s' (A \<union> theta_hashes pf s (key_range mem first m))"
  proof (cases "m = 0")
    case True
    with m(3) assms(2) show ?thesis by (simp add: key_range_def)
  next
    case False
    then show ?thesis using represents_fed [OF assms(2) m(2)] m(4) by simp
  qed
  with m show ?thesis by blast
next
  case False
  then have "s' = s" using assms(4) by (simp add: update_def Let_def)
  then have "represents s' (A \<union> theta_hashes pf s (key_range mem first 0)) \<and> (0 = 0 \<longrightarrow> s' = s)"
    using assms(2) by (simp add: key_range_def)
  then show ?thesis by blast
qed

lemma update_failing:
  "update pf mem 0 5 filled failing = Some (Inl Alloc_error, filled, idle)"
proof -
  have "update_chunk pf keys filled failing = (Inl Alloc_error, filled, idle)" for keys
    by (simp add: update_chunk_def mbind_def call_def screen_def Let_def make_hash_buffer_def alloc_def
        next_fault_def failing_def idle_def dbind_def)
  then show ?thesis
    unfolding update_def Let_def by (subst update_loop.simps) (simp add: Let_def)
qed

lemma represents_filled: "represents filled {5, 7}"
  using wf_filled
  by (auto simp: represents_def sample_def below_def filled_def fresh_def effective_theta_def max_theta_def)

theorem theta_update_exception_witness:
  "\<exists>e s' w'. update reference_platform counting 0 5 filled failing = Some (Inl e, s', w') \<and>
     (\<exists>m \<le> 5. represents s' ({5, 7} \<union>
        theta_hashes reference_platform filled (key_range counting 0 m)) \<and> (m = 0 \<longrightarrow> s' = filled))"
  using theta_update_exception [OF cub_ok_reference represents_filled _
      update_failing [of reference_platform counting]] update_failing
  by fastforce

lemma theta_feedI:
  "update pf mem first stop s w = Some (Inr (), s', w') \<Longrightarrow> stop - first < 2 ^ 63 \<Longrightarrow>
   theta_feed pf s (theta_hashes pf s (key_range mem first (nat (stop - first)))) s'"
  unfolding theta_feed_def by blast

text \<open>
  C27: how the input is cut into updates cannot be observed. Two updates with adjacent ranges
  leave the same theta and the same hashes as one update with the whole range, whatever the
  schedules and the retries of each.
\<close>

theorem theta_update_split:
  assumes "cub_ok pf" and "construct pf lg_k seed p w0 = (Inr s, w1)"
    and "first \<le> mid" and "mid \<le> stop" and "stop - first < 2 ^ 63"
    and "update pf mem first mid s w2 = Some (Inr (), t, w3)"
    and "update pf mem mid stop t w4 = Some (Inr (), u, w5)"
    and "update pf mem first stop s w6 = Some (Inr (), v, w7)"
  shows "sk_theta u = sk_theta v \<and> sk_hashes u = sk_hashes v"
proof -
  note s = construct_Inr [OF assms(2)]
  let ?c = "theta_canon pf seed (k_of s) (sk_initial_theta s)"
  have c: "?c s {}" using assms(1) s(1,3,5,7) summary_empty by (simp add: theta_canon_def)
  let ?K = "theta_hashes pf s (key_range mem first (nat (mid - first)))"
  let ?L = "theta_hashes pf t (key_range mem mid (nat (stop - mid)))"
  let ?M = "theta_hashes pf s (key_range mem first (nat (stop - first)))"
  have f: "theta_feed pf s ?K t" "theta_feed pf t ?L u" "theta_feed pf s ?M v"
    using theta_feedI [OF assms(6)] theta_feedI [OF assms(7)] theta_feedI [OF assms(8)] assms(3-5)
    by simp_all
  have "sk_seed t = sk_seed s"
    using theta_feed_fed [OF assms(1) s(1) f(1)] by (simp add: fed_def same_config_def)
  moreover have "key_range mem first (nat (stop - first))
      = key_range mem first (nat (mid - first)) @ key_range mem mid (nat (stop - mid))"
    using key_range_append [of mem first "nat (mid - first)" "nat (stop - mid)"] assms(3,4)
    by (simp add: nat_add_distrib [symmetric])
  ultimately have "?M = ?K \<union> ?L" by (simp add: theta_hashes_def image_Un)
  moreover have "theta_summaries.feeds pf s [?K, ?L] u" "theta_summaries.feeds pf s [?M] v"
    using f by (auto intro: theta_summaries.feeds.intros)
  ultimately show ?thesis
    using theta_summaries.batches_irrelevant [OF c c, of "[?K, ?L]" "[?M]" u v] by simp
qed

theorem theta_update_split_witness:
  "\<exists>t u v w3 w5 w7. update reference_platform counting 0 40 fresh idle = Some (Inr (), t, w3) \<and>
     update reference_platform counting 40 100 t idle = Some (Inr (), u, w5) \<and>
     update reference_platform counting 0 100 fresh idle = Some (Inr (), v, w7) \<and>
     sk_theta u = sk_theta v \<and> sk_hashes u = sk_hashes v"
proof -
  obtain t w3 where t: "update reference_platform counting 0 40 fresh idle = Some (Inr (), t, w3)"
    and f: "wf_sketch t"
    using update_runs [OF wf_fresh, of 0 40 counting] by auto
  obtain u w5 where u: "update reference_platform counting 40 100 t idle = Some (Inr (), u, w5)"
    using update_runs [OF f, of 40 100 counting] by auto
  obtain v w7 where v: "update reference_platform counting 0 100 fresh idle = Some (Inr (), v, w7)"
    using update_runs [OF wf_fresh, of 0 100 counting] by auto
  from theta_update_split [OF cub_ok_reference construct_fresh _ _ _ t u v] t u v show ?thesis by auto
qed

section \<open>Merge and the set operations\<close>

text \<open>
  C4: a merge is the reference summary of both inputs together. An empty other sketch leaves the
  sketch as it is, also when it was made with sampling. Otherwise merging the summary of \<open>ks\<close> into
  the summary of \<open>hs\<close> gives the summary of \<open>hs @ ks\<close> at the initial theta or the theta of the other
  sketch, whichever is smaller; and when the other sketch has at least the same nominal size
  this is the summary at the smaller of the two initial thetas.
\<close>

theorem theta_merge_reference:
  assumes "cub_ok pf" and "wf_sketch s" and "wf_sketch other"
    and "(sk_theta s, sk_hashes s) = summarize (k_of s) theta1 hs"
    and "(sk_theta other, sk_hashes other) = summarize (k_of other) theta2 ks"
    and "merge pf other s w = (Inr u, s', w')"
  shows "(sk_is_empty other \<longrightarrow> s' = s) \<and>
    (\<not> sk_is_empty other \<longrightarrow>
      (sk_theta s', sk_hashes s') = summarize (k_of s) (min theta1 (sk_theta other)) (hs @ ks) \<and>
      (k_of s \<le> k_of other \<longrightarrow>
        (sk_theta s', sk_hashes s') = summarize (k_of s) (min theta1 theta2) (hs @ ks)))"
proof (intro conjI impI)
  have sum: "summary (k_of s) theta1 (set hs) (sk_theta s) (sk_hashes s)"
    "summary (k_of other) theta2 (set ks) (sk_theta other) (sk_hashes other)"
    using assms(4,5) by (simp_all add: summary_iff_summarize)
  note fold = summary_iff_summarize [of "k_of s" _ "hs @ ks"]
  note merged = summary_merged [OF assms(1-3) _ sum(1) _ assms(6)]
  show "s' = s" if "sk_is_empty other" using assms(6) that by (simp add: merge_def)
  assume ne: "\<not> sk_is_empty other"
  have "summary (max (k_of s) (k_of other)) (sk_theta other) (set ks) (sk_theta other) (sk_hashes other)"
    using summary_at_theta [OF sum(2)] by simp
  from merged [OF max.cobounded1 this ne]
  show "(sk_theta s', sk_hashes s') = summarize (k_of s) (min theta1 (sk_theta other)) (hs @ ks)"
    using fold by simp
  assume "k_of s \<le> k_of other"
  from merged [OF this sum(2) ne]
  show "(sk_theta s', sk_hashes s') = summarize (k_of s) (min theta1 theta2) (hs @ ks)"
    using fold by simp
qed

lemma summarize_filled: "summarize 32 max_theta [7, 5, 7] = (max_theta, [5, 7])"
  by (simp add: summarize_def trim_def max_theta_def)

lemma sk_filled: "(sk_theta filled, sk_hashes filled) = (max_theta, [5, 7])"
  by (simp add: filled_def fresh_def)

lemma merge_runs:
  "\<exists>s' w'. merge reference_platform filled filled idle = (Inr (), s', w')"
  using returns_merge [of filled reference_platform filled] no_faults_idle
  by (fastforce simp: returns_def)

theorem theta_merge_reference_witness:
  "\<exists>s' w'. merge reference_platform filled filled idle = (Inr (), s', w') \<and>
     (sk_theta s', sk_hashes s') = summarize 32 (min max_theta max_theta) ([7, 5, 7] @ [7, 5, 7])"
proof -
  obtain s' w' where m: "merge reference_platform filled filled idle = (Inr (), s', w')"
    using merge_runs by blast
  have f: "(sk_theta filled, sk_hashes filled) = summarize (k_of filled) max_theta [7, 5, 7]"
    by (simp only: k_of_demo sk_filled summarize_filled)
  have e: "\<not> sk_is_empty filled" by (simp add: filled_def)
  from theta_merge_reference [OF cub_ok_reference wf_filled wf_filled f f m] e m
  show ?thesis by (auto simp: k_of_demo)
qed

text \<open>
  C2: sketches compute set expressions. When \<open>s\<close> is the result of evaluating an expression of
  unions (merge), intersections and differences (a-not-b) over sketches built from key
  ranges, with any sizes, sampling probabilities and schedules, its hashes are exactly the
  hashes of the set the expression denotes that lie below its theta, in ascending order.
\<close>

theorem theta_set_expressions:
  assumes "theta_sets.evaluates pf seed e s"
  shows "wf_sketch s \<and> ascending (sk_hashes s) \<and>
    set (sk_hashes s) = {h \<in> denotes (key_hashes pf seed) e. h \<noteq> 0 \<and> h < get_theta64 s}"
  using theta_sets.evaluates_rep [OF assms]
  by (auto simp: theta_rep_def represents_def sample_def below_def get_theta64_def)

lemma build_ex:
  assumes "length keys < 2 ^ 63"
  shows "\<exists>s. theta_build reference_platform 9001 keys s"
proof -
  obtain s' w' where
    "update reference_platform (\<lambda>i. keys ! nat i) 0 (int (length keys)) fresh idle = Some (Inr (), s', w')"
    using update_runs [OF wf_fresh, of 0 "int (length keys)" "\<lambda>i. keys ! nat i"] assms
    by (auto simp: nat_less_iff [symmetric])
  with construct_fresh cub_ok_reference assms show ?thesis
    unfolding theta_build_def by blast
qed

lemma runs_ex:
  assumes "returns (op t) s" shows "\<exists>s'. runs op s t s'"
  using assms no_faults_idle by (fastforce simp: runs_def returns_def)

theorem theta_set_expressions_witness:
  "\<exists>s. theta_sets.evaluates reference_platform 9001
       (Diff_of (Union_of (Batch [Key_u64 1, Key_i32 2]) (Batch [Key_double 3])) (Batch [Key_u64 1])) s \<and>
     wf_sketch s \<and> ascending (sk_hashes s) \<and> set (sk_hashes s) =
       {h \<in> denotes (key_hashes reference_platform 9001)
          (Diff_of (Union_of (Batch [Key_u64 1, Key_i32 2]) (Batch [Key_double 3])) (Batch [Key_u64 1])).
        h \<noteq> 0 \<and> h < get_theta64 s}"
proof -
  let ?ev = "theta_sets.evaluates reference_platform 9001"
  have ex: "\<exists>s. ?ev (Batch keys) s" if "length keys < 2 ^ 63" for keys
    using build_ex [OF that] by (blast intro: theta_sets.evaluates.batch)
  obtain a b c where abc: "?ev (Batch [Key_u64 1, Key_i32 2]) a" "?ev (Batch [Key_double 3]) b"
    "?ev (Batch [Key_u64 1]) c"
    using ex [of "[Key_u64 1, Key_i32 2]"] ex [of "[Key_double 3]"] ex [of "[Key_u64 1]"] by auto
  have seed: "sk_seed s = 9001" if "?ev e s" for e s
    using theta_sets.evaluates_rep [OF that] by (simp add: theta_rep_def)
  obtain d where "runs (merge reference_platform) a b d"
    using runs_ex [where op = "merge reference_platform", OF returns_merge [of b reference_platform a]]
      seed [OF abc(1)] seed [OF abc(2)] by auto
  then have d: "?ev (Union_of (Batch [Key_u64 1, Key_i32 2]) (Batch [Key_double 3])) d"
    using abc by (blast intro: theta_sets.evaluates.union_of)
  obtain s where "runs (a_not_b reference_platform) d c s"
    using runs_ex [where op = "a_not_b reference_platform", OF returns_a_not_b [of d reference_platform c]]
      seed [OF d] seed [OF abc(3)] by auto
  then have "?ev (Diff_of (Union_of (Batch [Key_u64 1, Key_i32 2]) (Batch [Key_double 3]))
      (Batch [Key_u64 1])) s"
    using d abc by (blast intro: theta_sets.evaluates.diff_of)
  with theta_set_expressions [OF this] show ?thesis by blast
qed

text \<open>
  C28: intersection. The result represents the intersection of the represented sets, and a
  result with no hash at maximum theta is the empty sketch again, at its initial theta.
\<close>

theorem theta_intersect:
  assumes "cub_ok pf" and "represents s A" and "represents other B"
    and "intersect pf other s w = (Inr u, s', w')"
  shows "represents s' (A \<inter> B) \<and>
    (sk_is_empty s' \<longleftrightarrow> sk_is_empty s \<or> sk_is_empty other \<or>
       (sk_hashes s' = [] \<and> sk_theta s = max_theta \<and> sk_theta other = max_theta))"
proof (intro conjI)
  show "represents s' (A \<inter> B)" by (rule represents_intersect [OF assms])
  have wf: "wf_sketch s" "wf_sketch other" using assms(2,3) by (simp_all add: represents_def)
  consider "sk_is_empty s" | "\<not> sk_is_empty s" "sk_is_empty other"
    | "\<not> sk_is_empty s" "\<not> sk_is_empty other" by blast
  then show "sk_is_empty s' \<longleftrightarrow> sk_is_empty s \<or> sk_is_empty other \<or>
       (sk_hashes s' = [] \<and> sk_theta s = max_theta \<and> sk_theta other = max_theta)"
  proof cases
    case 1
    then have "s' = s" using assms(4) by (simp add: intersect_def)
    with 1 show ?thesis by simp
  next
    case 2
    then have "reset pf s w = (Inr u, s', w')" using assms(4) by (simp add: intersect_def)
    from reset_Inr [OF this] 2 show ?thesis by simp
  next
    case 3
    then have "retain_matching pf other True s w = (Inr u, s', w')"
      using assms(4) by (simp add: intersect_def)
    note r = retain_matching_Inr [OF assms(1) wf this]
    have "min (sk_theta s) (sk_theta other) = max_theta \<longleftrightarrow>
        sk_theta s = max_theta \<and> sk_theta other = max_theta"
      using wf by (auto simp: wf_sketch_def min_def)
    with 3 show ?thesis unfolding r by (simp add: effective_theta_def)
  qed
qed

lemma intersect_runs:
  "\<exists>s' w'. intersect reference_platform filled filled idle = (Inr (), s', w')"
  using returns_intersect [of filled filled reference_platform] no_faults_idle
  by (fastforce simp: returns_def)

theorem theta_intersect_witness:
  "\<exists>s' w'. intersect reference_platform filled filled idle = (Inr (), s', w') \<and>
     represents s' ({5, 7} \<inter> {5, 7}) \<and> (sk_is_empty s' \<longleftrightarrow> sk_hashes s' = [])"
proof -
  obtain s' w' where m: "intersect reference_platform filled filled idle = (Inr (), s', w')"
    using intersect_runs by blast
  from theta_intersect [OF cub_ok_reference represents_filled represents_filled m] m
  show ?thesis by (auto simp: filled_def fresh_def)
qed

text \<open>
  C29: a-not-b. The result represents the difference of the represented sets. It throws an
  error only when the seed hashes differ or the device fails, and an empty or trivially
  disjoint other sketch leaves it alone.
\<close>

theorem theta_a_not_b:
  assumes "cub_ok pf" and "represents s A" and "represents other B"
    and "a_not_b pf other s w = (r, s', w')"
  shows "(\<forall>u. r = Inr u \<longrightarrow> represents s' (A - B)) \<and>
    (\<forall>e. r = Inl e \<longrightarrow> s' = s \<and>
       (no_faults w \<longrightarrow> compute_seed_hash pf (sk_seed s) \<noteq> compute_seed_hash pf (sk_seed other)))"
proof (cases r)
  case (Inl e)
  have "compute_seed_hash pf (sk_seed s) \<noteq> compute_seed_hash pf (sk_seed other)" if "no_faults w"
  proof
    assume "compute_seed_hash pf (sk_seed s) = compute_seed_hash pf (sk_seed other)"
    then have "returns (a_not_b pf other) s" using returns_a_not_b by blast
    with that obtain u t w1 where "a_not_b pf other s w = (Inr u, t, w1)"
      unfolding returns_def by blast
    with assms(4) Inl show False by simp
  qed
  with Inl a_not_b_op.throw_unchanged assms(4) show ?thesis by blast
next
  case (Inr u)
  with assms represents_a_not_b show ?thesis by blast
qed

theorem theta_a_not_b_witness:
  "\<exists>r s' w'. a_not_b reference_platform filled filled idle = (r, s', w') \<and>
    (\<forall>u. r = Inr u \<longrightarrow> represents s' ({5, 7} - {5, 7})) \<and> (\<forall>e. r \<noteq> Inl e)"
proof -
  obtain r s' w' where m: "a_not_b reference_platform filled filled idle = (r, s', w')"
    by (cases "a_not_b reference_platform filled filled idle") auto
  from theta_a_not_b [OF cub_ok_reference represents_filled represents_filled m] no_faults_idle m
  show ?thesis by blast
qed

section \<open>Exceptions, invariant and liveness\<close>

text \<open>
  C14: the strong exception guarantee. When merge, intersect, a-not-b, reset or the loading
  of an image throws, for whatever reason, the sketch is exactly as before the call.
\<close>

theorem theta_strong_guarantee:
  assumes "op \<in> {merge pf other, intersect pf other, a_not_b pf other, reset pf, load_compact pf im}"
    and "op s w = (Inl e, s', w')"
  shows "s' = s"
  using assms by (auto dest: merge_op.throw_unchanged intersect_op.throw_unchanged
      a_not_b_op.throw_unchanged reset_op.throw_unchanged load_op.throw_unchanged)

lemma reset_failing: "reset pf filled failing = (Inl Alloc_error, filled, idle)"
  by (simp add: reset_def mbind_def call_def make_hash_buffer_def alloc_def next_fault_def
      failing_def idle_def dbind_def)

theorem theta_strong_guarantee_witness:
  "\<exists>e s' w'. reset reference_platform filled failing = (Inl e, s', w') \<and> s' = filled"
  using theta_strong_guarantee [where op = "reset reference_platform" and pf = reference_platform
      and other = filled and im = "image_of filled", OF _ reset_failing]
    reset_failing by blast

lemma wf_represents: "wf_sketch s \<Longrightarrow> represents s (set (sk_hashes s))"
  using wf_effective_theta [of s] unfolding represents_def sample_def wf_sketch_def below_def
  by (auto intro: less_le_trans)

text \<open>
  Every public operation keeps the invariant of a sketch and its settings, whether it
  returns or throws: sizes in range, thetas in \<open>(0, max_theta]\<close>, at most \<open>2^lg_k\<close> hashes,
  nonzero, below theta, strictly ascending, and none in an empty sketch.
\<close>

theorem theta_invariant:
  assumes "cub_ok pf" and "wf_sketch s" and "wf_sketch other"
    and "op \<in> {merge pf other, intersect pf other, a_not_b pf other, reset pf} \<and> op s w = (r, s', w')
      \<or> stop - first < 2 ^ 63 \<and> update pf mem first stop s w = Some (r, s', w')"
  shows "wf_sketch s' \<and> same_config s s'"
  using assms(4)
proof
  note rep = wf_represents [OF assms(2)] wf_represents [OF assms(3)]
  assume op: "op \<in> {merge pf other, intersect pf other, a_not_b pf other, reset pf} \<and>
    op s w = (r, s', w')"
  show ?thesis
  proof (cases r)
    case (Inl e)
    with op have "s' = s"
      by (auto dest: merge_Inl intersect_Inl a_not_b_Inl reset_Inl)
    with assms(2) show ?thesis by simp
  next
    case (Inr u)
    have "represents s' (set (sk_hashes s) \<union> set (sk_hashes other)) \<or>
        represents s' (set (sk_hashes s) \<inter> set (sk_hashes other)) \<or>
        represents s' (set (sk_hashes s) - set (sk_hashes other)) \<or> represents s' {}"
      using op Inr represents_merge [OF assms(1) rep] represents_intersect [OF assms(1) rep]
        represents_a_not_b [OF assms(1) rep] represents_reset [OF assms(2), of pf w u s' w' "{}"]
      by auto
    moreover have "same_config s s'"
      using op Inr by (auto dest: merge_config intersect_config a_not_b_config reset_config)
    ultimately show ?thesis by (auto simp: represents_def)
  qed
next
  assume u: "stop - first < 2 ^ 63 \<and> update pf mem first stop s w = Some (r, s', w')"
  show ?thesis
  proof (cases "first \<le> stop")
    case True
    obtain m where "fed s (theta_hashes pf s (key_range mem first m)) s'"
      using update_committed [OF assms(1,2) True] u by blast
    then show ?thesis by (simp add: fed_def)
  next
    case False
    with u assms(2) show ?thesis by (simp add: update_def Let_def)
  qed
qed

theorem theta_invariant_witness:
  "\<exists>s' w'. merge reference_platform filled filled idle = (Inr (), s', w') \<and>
     wf_sketch s' \<and> same_config filled s'"
proof -
  obtain s' w' where m: "merge reference_platform filled filled idle = (Inr (), s', w')"
    using merge_runs by blast
  with theta_invariant [OF cub_ok_reference wf_filled wf_filled, of "merge reference_platform filled"]
  show ?thesis by blast
qed

text \<open>
  C30: on a device that does not fail, reset always returns, and merge, intersect and a-not-b
  return exactly when the seed hashes agree or one of their shortcuts for empty sketches applies:
  for merge an empty other sketch, for intersect either sketch empty, for a-not-b an empty
  sketch, or one with hashes against an empty other sketch. In all other cases each of them
  throws, names itself in the message, and leaves the sketch and the device alone.
\<close>

theorem theta_operations_return:
  fixes pf s other
  defines "seeds \<equiv> compute_seed_hash pf (sk_seed s) = compute_seed_hash pf (sk_seed other)"
  assumes "no_faults w"
  shows "(\<exists>s' w'. reset pf s w = (Inr (), s', w')) \<and>
    (if seeds \<or> sk_is_empty other then \<exists>s' w'. merge pf other s w = (Inr (), s', w')
     else merge pf other s w =
       (Inl (Invalid_argument ''theta_sketch::merge: seed hash mismatch''), s, w)) \<and>
    (if seeds \<or> sk_is_empty s \<or> sk_is_empty other
     then \<exists>s' w'. intersect pf other s w = (Inr (), s', w')
     else intersect pf other s w =
       (Inl (Invalid_argument ''theta_sketch::intersect: seed hash mismatch''), s, w)) \<and>
    (if seeds \<or> sk_is_empty s \<or> sk_hashes s \<noteq> [] \<and> sk_is_empty other
     then \<exists>s' w'. a_not_b pf other s w = (Inr (), s', w')
     else a_not_b pf other s w =
       (Inl (Invalid_argument ''theta_sketch::a_not_b: seed hash mismatch''), s, w))"
proof (intro conjI)
  have reset: "\<exists>s' w'. reset pf s w = (Inr (), s', w')"
    using returns_reset assms(2) by (fastforce simp: returns_def)
  then show "\<exists>s' w'. reset pf s w = (Inr (), s', w')" .
  have same: "\<exists>s' w'. merge pf other s w = (Inr (), s', w')"
    "\<exists>s' w'. intersect pf other s w = (Inr (), s', w')"
    "\<exists>s' w'. a_not_b pf other s w = (Inr (), s', w')" if seeds
    using that [unfolded seeds_def] returns_merge [of other pf s] returns_intersect [of s other pf]
      returns_a_not_b [of s pf other] assms(2) by (fastforce simp: returns_def)+
  show "if seeds \<or> sk_is_empty other then \<exists>s' w'. merge pf other s w = (Inr (), s', w')
    else merge pf other s w = (Inl (Invalid_argument ''theta_sketch::merge: seed hash mismatch''), s, w)"
    using same(1) by (auto simp: merge_def seeds_def)
  show "if seeds \<or> sk_is_empty s \<or> sk_is_empty other
    then \<exists>s' w'. intersect pf other s w = (Inr (), s', w')
    else intersect pf other s w =
      (Inl (Invalid_argument ''theta_sketch::intersect: seed hash mismatch''), s, w)"
    using same(2) reset by (auto simp: intersect_def retain_matching_def seeds_def)
  show "if seeds \<or> sk_is_empty s \<or> sk_hashes s \<noteq> [] \<and> sk_is_empty other
    then \<exists>s' w'. a_not_b pf other s w = (Inr (), s', w')
    else a_not_b pf other s w =
      (Inl (Invalid_argument ''theta_sketch::a_not_b: seed hash mismatch''), s, w)"
    using same(3) by (auto simp: a_not_b_def retain_matching_def seeds_def)
qed

theorem theta_operations_return_witness:
  "(\<exists>s' w'. reset reference_platform filled idle = (Inr (), s', w')) \<and>
   (\<exists>s' w'. intersect reference_platform fresh filled idle = (Inr (), s', w')) \<and>
   merge reference_platform filled (filled\<lparr>sk_seed := 1\<rparr>) idle =
     (Inl (Invalid_argument ''theta_sketch::merge: seed hash mismatch''), filled\<lparr>sk_seed := 1\<rparr>, idle)"
proof -
  have seeds: "sk_seed filled = 9001" "sk_seed fresh = 9001" "sk_seed (filled\<lparr>sk_seed := 1\<rparr>) = 1"
    "\<not> sk_is_empty filled" "\<not> sk_is_empty (filled\<lparr>sk_seed := 1\<rparr>)"
    by (simp_all add: filled_def fresh_def)
  have hash: "compute_seed_hash reference_platform 9001 \<noteq> compute_seed_hash reference_platform 1"
    by (simp add: reference_platform_def)
  note ret = theta_operations_return [OF no_faults_idle]
  have "\<exists>s' w'. reset reference_platform filled idle = (Inr (), s', w')"
    using ret [of reference_platform filled filled] by (rule conjunct1)
  moreover have "\<exists>s' w'. intersect reference_platform fresh filled idle = (Inr (), s', w')"
    using ret [of reference_platform filled fresh] seeds(1,2) by simp
  moreover have "merge reference_platform filled (filled\<lparr>sk_seed := 1\<rparr>) idle =
     (Inl (Invalid_argument ''theta_sketch::merge: seed hash mismatch''), filled\<lparr>sk_seed := 1\<rparr>, idle)"
    using ret [of reference_platform "filled\<lparr>sk_seed := 1\<rparr>" filled] hash seeds by simp
  ultimately show ?thesis by blast
qed

section \<open>Storage\<close>

text \<open>
  An image written by serialization is parsed back to the same contents, whatever they
  are, as long as they are well formed: all four shapes of the preamble.
\<close>

theorem theta_image_roundtrip:
  assumes "image_ok im"
  shows "parse_compact_v3 pf (serialize_compact_v3 (ci_empty im) (compute_seed_hash pf seed)
    (ci_theta im) (ci_entries im)) seed = Inr im"
  using parse_serialize_image [OF assms] by (simp only: serialize_image_def)

theorem theta_image_roundtrip_witness:
  "parse_compact_v3 reference_platform (serialize_compact_v3 False
     (compute_seed_hash reference_platform 9001) 1000 [3, 999]) 9001 =
   Inr \<lparr>ci_empty = False, ci_theta = 1000, ci_entries = [3, 999]\<rparr>"
  using theta_image_roundtrip [of "\<lparr>ci_empty = False, ci_theta = 1000, ci_entries = [3, 999]\<rparr>"
      reference_platform 9001]
  by (simp add: image_ok_def max_theta_def)

text \<open>
  C32: no truncated and no padded image is accepted: parsing refuses every proper prefix and
  every proper extension of what serialization writes.
\<close>

theorem theta_image_length:
  assumes "image_ok im"
    and "bytes = serialize_compact_v3 (ci_empty im) (compute_seed_hash pf seed) (ci_theta im) (ci_entries im)"
  shows "(\<forall>m < length bytes. \<exists>e. parse_compact_v3 pf (take m bytes) seed = Inl e) \<and>
    (\<forall>rest. rest \<noteq> [] \<longrightarrow> parse_compact_v3 pf (bytes @ rest) seed =
       Inl (Invalid_argument ''theta_sketch::deserialize: image size mismatch''))"
  using parse_prefix [OF assms(1), of _ pf seed] parse_extension [OF assms(1), of _ pf seed]
  unfolding assms(2) serialize_image_def by blast

theorem theta_image_length_witness:
  "\<exists>e. parse_compact_v3 reference_platform (take 17
     (serialize_compact_v3 False (compute_seed_hash reference_platform 9001) 1000 [3, 999])) 9001 = Inl e"
proof -
  let ?im = "\<lparr>ci_empty = False, ci_theta = 1000, ci_entries = [3, 999]\<rparr>"
  have ok: "image_ok ?im" by (simp add: image_ok_def max_theta_def)
  have "17 < length (serialize_compact_v3 False (compute_seed_hash reference_platform 9001) 1000 [3, 999])"
    by (simp add: serialize_layout length_preamble_of preamble_longs_of_def max_theta_def)
  with theta_image_length [OF ok refl, of reference_platform 9001] show ?thesis by simp
qed

text \<open>
  C19: deserialization is safe on any bytes: it never returns an ill-formed sketch, and what
  it returns holds the contents of the image, under the requested size and seed.
\<close>

theorem theta_deserialize_sound:
  assumes "deserialize pf bytes lg_k seed w = (Inr s, w')"
  shows "wf_sketch s \<and> sk_lg_k s = lg_k \<and> sk_seed s = seed \<and>
    parse_compact_v3 pf bytes seed = Inr \<lparr>ci_empty = sk_is_empty s,
      ci_theta = get_theta64 s, ci_entries = sk_hashes s\<rparr>"
  using wf_deserialize [OF assms] by (auto simp: image_of_def get_theta64_def)

lemma deserialize_filled:
  "\<exists>s' w'. deserialize reference_platform (serialize_image reference_platform 9001 (image_of filled))
     5 9001 idle = (Inr s', w') \<and> no_faults w' \<and> image_of s' = image_of filled \<and> sk_lg_k s' = 5"
proof -
  have "sk_seed filled = 9001" by (simp add: filled_def fresh_def)
  with deserialize_serialized [OF wf_filled _ _ _ no_faults_idle, of 5 reference_platform]
  show ?thesis by (simp add: min_lg_k_def max_lg_k_def filled_def)
qed

theorem theta_deserialize_sound_witness:
  "\<exists>bytes s w'. deserialize reference_platform bytes 5 9001 idle = (Inr s, w') \<and>
     wf_sketch s \<and> sk_hashes s = [5, 7]"
proof -
  obtain s w' where d: "deserialize reference_platform
      (serialize_image reference_platform 9001 (image_of filled)) 5 9001 idle = (Inr s, w')"
    and i: "image_of s = image_of filled"
    using deserialize_filled by blast
  then have "sk_hashes s = [5, 7]" by (simp add: image_of_def filled_def)
  with theta_deserialize_sound [OF d] d show ?thesis by blast
qed

text \<open>
  C11: a stored sketch is loaded back. What \<^verbatim>\<open>serialize_compact\<close> writes for a well-formed
  sketch, \<^verbatim>\<open>deserialize\<close> accepts at every size with room for the hashes, and the loaded
  sketch has the same hashes, theta and empty flag.
\<close>

theorem theta_sketch_roundtrip:
  assumes "wf_sketch s" and "serialize_compact pf s w1 = (Inr bytes, w2)"
    and "min_lg_k \<le> lg_k" and "lg_k \<le> max_lg_k" and "length (sk_hashes s) \<le> 2 ^ unat lg_k"
    and "no_faults w"
  shows "\<exists>s' w'. deserialize pf bytes lg_k (sk_seed s) w = (Inr s', w') \<and>
    sk_hashes s' = sk_hashes s \<and> get_theta64 s' = get_theta64 s \<and> is_empty s' = is_empty s \<and>
    get_lg_k s' = lg_k"
proof -
  have "bytes = serialize_image pf (sk_seed s) (image_of s)" by (rule serialize_compact_Inr [OF assms(2)])
  with deserialize_serialized [OF assms(1,3-6), of pf] show ?thesis
    by (auto simp: image_of_def get_theta64_def is_empty_def get_lg_k_def)
qed

theorem theta_sketch_roundtrip_witness:
  "\<exists>bytes s' w'. serialize_compact reference_platform filled idle = (Inr bytes, idle) \<and>
     deserialize reference_platform bytes 5 9001 idle = (Inr s', w') \<and> sk_hashes s' = [5, 7]"
proof -
  have f: "sk_hashes filled = [5, 7]" "sk_seed filled = 9001" by (simp_all add: filled_def fresh_def)
  obtain bytes where b: "serialize_compact reference_platform filled idle = (Inr bytes, idle)"
    using cuda_try_no_faults [OF no_faults_idle]
    by (simp add: serialize_compact_def get_retained_hashes_def f sync_def dbind_def dreturn_def)
  show ?thesis
    using theta_sketch_roundtrip [OF wf_filled b _ _ _ no_faults_idle, of 5] b
    by (auto simp: f min_lg_k_def max_lg_k_def)
qed

section \<open>Configuration and estimates\<close>

text \<open>
  C36: the constructor accepts exactly the sampling probabilities in \<open>[2^-63, 1]\<close>. Below one,
  the initial theta is \<open>p * 2^63\<close> rounded down, computed without rounding error, although
  \<^verbatim>\<open>max_theta\<close> itself is not a double; infinities and NaN are refused.
\<close>

theorem theta_sampling_probability:
  "(checked_theta p = Inr theta) =
    (case decode32 p of
       Fin x \<Rightarrow> x = 1 \<and> theta = max_theta \<or>
         1 / 2 ^ 63 \<le> x \<and> x < 1 \<and> unat theta = nat \<lfloor>2 ^ 63 * x\<rfloor>
     | _ \<Rightarrow> False)"
  using checked_theta_iff [of p _ theta] checked_theta_not_Fin [of p theta]
  by (cases "decode32 p") simp_all

text \<open>
  In exact mode the estimate and both bounds are the number of retained hashes itself,
  as a double, without rounding, at every number of standard deviations.
\<close>

theorem theta_exact_mode:
  assumes "wf_sketch s" and "\<not> is_estimation_mode s"
  shows "get_estimate s = Fin (of_nat (get_num_retained s)) \<and>
    get_lower_bound bl s n = Inr (Fin (of_nat (get_num_retained s))) \<and>
    get_upper_bound bu s n = Inr (Fin (of_nat (get_num_retained s)))"
proof -
  have "get_num_retained s \<le> 2 ^ 26"
    using assms(1) k_of_bounds(2) [of s] by (simp add: get_num_retained_def wf_sketch_def)
  then have small: "get_num_retained s < 2 ^ 53" by simp
  note n = f_of_nat_exact [OF small]
  have "get_theta64 s = max_theta"
    using assms by (auto simp: is_estimation_mode_def get_theta64_def effective_theta_def wf_sketch_def)
  then have t: "get_theta s = Fin 1"
    using representable_of_nat [of 1]
    by (simp add: get_theta_def f_of_nat_max_theta fp_round_Fin_nonneg)
  have "(of_nat (get_num_retained s) :: rat) < of_nat (2 ^ 53)" using small by (simp only: of_nat_less_iff)
  also have "\<dots> \<le> 2 ^ 1024" by simp
  finally have "get_estimate s = Fin (of_nat (get_num_retained s))"
    using representable_of_nat [OF small]
    by (simp add: get_estimate_def n t fp_round_Fin_nonneg)
  with n assms(2) show ?thesis by (simp add: get_lower_bound_def get_upper_bound_def)
qed

theorem theta_exact_mode_witness: "get_estimate filled = Fin 2"
  using theta_exact_mode [OF wf_filled, of "\<lambda>_ _ _. Inr FNaN" 2 "\<lambda>_ _ _. Inr FNaN"]
  by (simp add: is_estimation_mode_def filled_def fresh_def get_num_retained_def)

text \<open>
  A chunk is never empty and never too long: between one key and what remains. At maximum
  theta it at most doubles, from \<open>max(16 k, 2^20)\<close> on; below, it has at least \<open>2^20\<close> keys
  or all that remain.
\<close>

theorem theta_chunk_bounds:
  assumes "0 < remaining"
  shows "1 \<le> next_chunk s remaining previous d \<and> next_chunk s remaining previous d \<le> remaining \<and>
    (if sk_theta s = max_theta
     then next_chunk s remaining previous d \<le> max (max (16 * k_of s) (2 ^ 20)) (2 * previous)
     else min (2 ^ 20) remaining \<le> next_chunk s remaining previous d)"
proof (intro conjI)
  show "1 \<le> next_chunk s remaining previous d" using next_chunk_pos [OF assms] by (simp add: Suc_leI)
  show "next_chunk s remaining previous d \<le> remaining" by (rule next_chunk_le)
  have "previous * 2 mod 2 ^ 64 \<le> 2 * previous" by (simp add: mult.commute)
  then have d: "max (max (16 * k_of s) (2 ^ 20)) (previous * 2 mod 2 ^ 64)
      \<le> max (max (16 * k_of s) (2 ^ 20)) (2 * previous)" by (rule max.mono [OF order_refl])
  show "if sk_theta s = max_theta
     then next_chunk s remaining previous d \<le> max (max (16 * k_of s) (2 ^ 20)) (2 * previous)
     else min (2 ^ 20) remaining \<le> next_chunk s remaining previous d"
  proof (cases "sk_theta s = max_theta")
    case True
    show ?thesis
      unfolding if_P [OF True] next_chunk_def Let_def chunk_target_multiple_def min_chunk_keys_def
      by (rule min.coboundedI1 [OF min.coboundedI1 [OF d]])
  next
    case False
    show ?thesis
      unfolding if_not_P [OF False] next_chunk_def Let_def min_chunk_keys_def
      by (rule min.mono [OF max.cobounded2 order_refl])
  qed
qed

theorem theta_chunk_bounds_witness:
  "1 \<le> next_chunk filled 5000000 0 (Fin 1) \<and> next_chunk filled 5000000 0 (Fin 1) \<le> 2 ^ 20"
proof -
  have "sk_theta filled = max_theta" by (simp add: filled_def fresh_def)
  with theta_chunk_bounds [of 5000000 filled 0 "Fin 1"] show ?thesis by (simp add: k_of_demo)
qed

text \<open>
  Sorting only the bits below \<^verbatim>\<open>bit_width(theta)\<close> sorts completely: the screened hashes are
  all below theta, so the result is ascending, without duplicates and has the same elements.
\<close>

theorem theta_sort_unique:
  assumes "cub_ok pf" and "sort_unique pf input n bound w = (Inr r, w')"
    and "\<forall>x \<in> set (take n input). x < bound"
  shows "br_size r \<le> length (br_data r) \<and> ascending (take (br_size r) (br_data r)) \<and>
    set (take (br_size r) (br_data r)) = set (take n input)"
proof -
  obtain ys where h: "holds r ys" and ys: "ascending ys" "set ys = set (take n input)"
    by (rule sort_unique_Inr [OF assms(1,2)]) (use assms(3) in blast)+
  have "br_size r \<le> length (br_data r)" using holdsD(1,2) [OF h] by simp
  then show ?thesis using ys unfolding holdsD(3) [OF h] by blast
qed

theorem theta_sort_unique_witness:
  "\<exists>r w'. sort_unique reference_platform [9, 4, 9, 77] 3 10 idle = (Inr r, w') \<and>
     set (take (br_size r) (br_data r)) = {4, 9}"
proof -
  obtain r w' where s: "sort_unique reference_platform [9, 4, 9, 77] 3 10 idle = (Inr r, w')"
    using total_sort_unique no_faults_idle by (fastforce simp: total_def)
  with theta_sort_unique [OF cub_ok_reference s] show ?thesis by auto
qed

end
