(* ===== verification/Theta_Class.thy ===== *)
theory Theta_Class
  imports Theta_Properties
begin

text \<open>
  \<^verbatim>\<open>theta.hpp\<close> and the forwarding members of \<^verbatim>\<open>detail/theta/theta.inl\<close>: the public class
  \<^verbatim>\<open>theta_sketch\<close>, which owns one \<^verbatim>\<open>sketch_impl\<close>, and the sketches a program can get through
  its interface, exceptions included.
\<close>

section \<open>The class\<close>

record theta_sketch =
  th_impl :: sketch

definition theta_forward ::
  "unit meth \<Rightarrow> theta_sketch \<Rightarrow> world \<Rightarrow> unit result \<times> theta_sketch \<times> world" where
  "theta_forward m h w = (case m (th_impl h) w of (r, s, w') \<Rightarrow> (r, h\<lparr>th_impl := s\<rparr>, w'))"

definition theta_class_construct :: "platform \<Rightarrow> u8 \<Rightarrow> u64 \<Rightarrow> u32 \<Rightarrow> theta_sketch dev" where
  "theta_class_construct pf lg_k seed p =
     dbind (construct pf lg_k seed p) (\<lambda>s. dreturn \<lparr>th_impl = s\<rparr>)"

definition theta_class_update ::
  "platform \<Rightarrow> (int \<Rightarrow> key) \<Rightarrow> int \<Rightarrow> int \<Rightarrow> theta_sketch \<Rightarrow> world
     \<Rightarrow> (unit result \<times> theta_sketch \<times> world) option" where
  "theta_class_update pf mem first stop h w =
     map_option (\<lambda>(r, s, w'). (r, h\<lparr>th_impl := s\<rparr>, w')) (update pf mem first stop (th_impl h) w)"

definition theta_class_merge ::
  "platform \<Rightarrow> theta_sketch \<Rightarrow> theta_sketch \<Rightarrow> world \<Rightarrow> unit result \<times> theta_sketch \<times> world" where
  "theta_class_merge pf other = theta_forward (merge pf (th_impl other))"

definition theta_class_intersect ::
  "platform \<Rightarrow> theta_sketch \<Rightarrow> theta_sketch \<Rightarrow> world \<Rightarrow> unit result \<times> theta_sketch \<times> world" where
  "theta_class_intersect pf other = theta_forward (intersect pf (th_impl other))"

definition theta_class_a_not_b ::
  "platform \<Rightarrow> theta_sketch \<Rightarrow> theta_sketch \<Rightarrow> world \<Rightarrow> unit result \<times> theta_sketch \<times> world" where
  "theta_class_a_not_b pf other = theta_forward (a_not_b pf (th_impl other))"

definition theta_class_reset ::
  "platform \<Rightarrow> theta_sketch \<Rightarrow> world \<Rightarrow> unit result \<times> theta_sketch \<times> world" where
  "theta_class_reset pf = theta_forward (reset pf)"

definition theta_class_get_retained_hashes :: "theta_sketch \<Rightarrow> u64 list dev" where
  "theta_class_get_retained_hashes h = get_retained_hashes (th_impl h)"

definition theta_class_serialize_compact :: "platform \<Rightarrow> theta_sketch \<Rightarrow> u8 list dev" where
  "theta_class_serialize_compact pf h = serialize_compact pf (th_impl h)"

text \<open>\<open>deserialize\<close> makes the class from the sketch it loads.\<close>

definition theta_class_deserialize :: "platform \<Rightarrow> u8 list \<Rightarrow> u8 \<Rightarrow> u64 \<Rightarrow> theta_sketch dev" where
  "theta_class_deserialize pf bytes lg_k seed =
     dbind (deserialize pf bytes lg_k seed) (\<lambda>s. dreturn \<lparr>th_impl = s\<rparr>)"

text \<open>The default arguments of the constructor and of \<open>deserialize\<close>.\<close>

definition theta_class_default :: "platform \<Rightarrow> theta_sketch dev" where
  "theta_class_default pf = theta_class_construct pf default_lg_k default_seed 0x3f800000"

definition theta_class_deserialize_default :: "platform \<Rightarrow> u8 list \<Rightarrow> theta_sketch dev" where
  "theta_class_deserialize_default pf bytes = theta_class_deserialize pf bytes default_lg_k default_seed"

lemma theta_class_default_returns:
  assumes "no_faults w"
  obtains h w' where "theta_class_default pf w = (Inr h, w')" and "get_lg_k (th_impl h) = 12"
    and "is_empty (th_impl h)" and "get_theta64 (th_impl h) = max_theta"
proof -
  obtain s w' where s: "construct pf default_lg_k default_seed 0x3f800000 w = (Inr s, w')"
  proof -
    have "check_lg_k default_lg_k = Inr default_lg_k"
      by (simp add: check_lg_k_def default_lg_k_def min_lg_k_def max_lg_k_def)
    from total_construct [OF this checked_theta_default] assms show ?thesis
      using that unfolding total_def by blast
  qed
  from construct_Inr [OF this] have "get_lg_k s = 12" "is_empty s" "get_theta64 s = max_theta"
    by (simp_all add: get_lg_k_def is_empty_def get_theta64_def effective_theta_def default_lg_k_def)
  with s that [of "\<lparr>th_impl = s\<rparr>" w'] show thesis
    by (simp add: theta_class_default_def theta_class_construct_def dbind_def dreturn_def)
qed

section \<open>Reachable sketches\<close>

text \<open>
  What a program can get: a sketch that a constructor or \<open>deserialize\<close> returns, and what a
  mutating member leaves of a reachable sketch, whether it returns or throws.
\<close>

inductive theta_reachable :: "platform \<Rightarrow> theta_sketch \<Rightarrow> bool" for pf :: platform where
  construct: "theta_class_construct pf lg_k seed p w = (Inr h, w') \<Longrightarrow> theta_reachable pf h"
| deserialize: "theta_class_deserialize pf bytes lg_k seed w = (Inr h, w') \<Longrightarrow> theta_reachable pf h"
| update: "theta_reachable pf h \<Longrightarrow> stop - first < 2 ^ 63 \<Longrightarrow>
    theta_class_update pf mem first stop h w = Some (r, h', w') \<Longrightarrow> theta_reachable pf h'"
| merge: "theta_reachable pf h \<Longrightarrow> theta_reachable pf other \<Longrightarrow>
    theta_class_merge pf other h w = (r, h', w') \<Longrightarrow> theta_reachable pf h'"
| intersect: "theta_reachable pf h \<Longrightarrow> theta_reachable pf other \<Longrightarrow>
    theta_class_intersect pf other h w = (r, h', w') \<Longrightarrow> theta_reachable pf h'"
| a_not_b: "theta_reachable pf h \<Longrightarrow> theta_reachable pf other \<Longrightarrow>
    theta_class_a_not_b pf other h w = (r, h', w') \<Longrightarrow> theta_reachable pf h'"
| reset: "theta_reachable pf h \<Longrightarrow> theta_class_reset pf h w = (r, h', w') \<Longrightarrow> theta_reachable pf h'"

lemma dbind_wrap:
  "dbind m (\<lambda>s. dreturn \<lparr>th_impl = s\<rparr>) w = (Inr h, w') \<Longrightarrow> m w = (Inr (th_impl h), w')"
  by (auto simp: dbind_def dreturn_def split: prod.splits sum.splits)

lemma theta_forward_impl:
  "theta_forward m h w = (r, h', w') \<Longrightarrow> m (th_impl h) w = (r, th_impl h', w')"
  by (auto simp: theta_forward_def split: prod.splits)

lemmas theta_class_defs = theta_class_merge_def theta_class_intersect_def theta_class_a_not_b_def
  theta_class_reset_def

lemmas member_invariant = theta_invariant [OF _ _ _ disjI1 [OF conjI]]
lemmas update_invariant = theta_invariant [OF _ _ _ disjI2 [OF conjI]]

lemma theta_reachable_wf:
  assumes "cub_ok pf" and "theta_reachable pf h" shows "wf_sketch (th_impl h)"
  using assms(2)
proof (induction rule: theta_reachable.induct)
  case (construct lg_k seed p w h w')
  from construct_Inr(1) [OF dbind_wrap [OF this [unfolded theta_class_construct_def]]] show ?case .
next
  case (deserialize bytes lg_k seed w h w')
  from wf_deserialize(1) [OF dbind_wrap [OF this [unfolded theta_class_deserialize_def]]] show ?case .
next
  case (update h stop first mem w r h' w')
  then have "Theta_Sketch.update pf mem first stop (th_impl h) w = Some (r, th_impl h', w')"
    by (auto simp: theta_class_update_def)
  from update_invariant [OF assms(1) update.IH update.IH update.hyps(2) this] show ?case by simp
next
  case (merge h other w r h' w')
  then have "Theta_Sketch.merge pf (th_impl other) (th_impl h) w = (r, th_impl h', w')"
    unfolding theta_class_defs by (blast dest: theta_forward_impl)
  with member_invariant [OF assms(1) merge.IH(1) merge.IH(2), of "Theta_Sketch.merge pf (th_impl other)" w r "th_impl h'" w'] show ?case by simp
next
  case (intersect h other w r h' w')
  then have "Theta_Sketch.intersect pf (th_impl other) (th_impl h) w = (r, th_impl h', w')"
    unfolding theta_class_defs by (blast dest: theta_forward_impl)
  with member_invariant [OF assms(1) intersect.IH(1) intersect.IH(2), of "Theta_Sketch.intersect pf (th_impl other)" w r "th_impl h'" w'] show ?case by simp
next
  case (a_not_b h other w r h' w')
  then have "Theta_Sketch.a_not_b pf (th_impl other) (th_impl h) w = (r, th_impl h', w')"
    unfolding theta_class_defs by (blast dest: theta_forward_impl)
  with member_invariant [OF assms(1) a_not_b.IH(1) a_not_b.IH(2), of "Theta_Sketch.a_not_b pf (th_impl other)" w r "th_impl h'" w'] show ?case by simp
next
  case (reset h w r h' w')
  then have "Theta_Sketch.reset pf (th_impl h) w = (r, th_impl h', w')"
    unfolding theta_class_defs by (blast dest: theta_forward_impl)
  with member_invariant [OF assms(1) reset.IH reset.IH, of "Theta_Sketch.reset pf" w r "th_impl h'" w'] show ?case by simp
qed

lemma total_get_retained_hashes: "total (get_retained_hashes s)"
  unfolding get_retained_hashes_def by (auto intro!: total_dbind)

lemma get_retained_hashes_Inr: "get_retained_hashes s w = (Inr hs, w') \<Longrightarrow> hs = sk_hashes s"
  by (auto simp: get_retained_hashes_def dbind_def dreturn_def split: if_splits prod.splits sum.splits)

text \<open>
  C15: every sketch a program can get through the public interface, after any sequence of calls,
  with any of them ended by an exception, satisfies the invariant. What it hands out are at
  most \<open>2^lg_k\<close> nonzero hashes, strictly ascending and below theta, and an empty one has none.
\<close>

theorem theta_reachable_invariant:
  assumes "cub_ok pf" and "theta_reachable pf h"
    and "theta_class_get_retained_hashes h w = (Inr hs, w')"
  shows "wf_sketch (th_impl h) \<and> length hs = get_num_retained (th_impl h) \<and>
    length hs \<le> 2 ^ unat (get_lg_k (th_impl h)) \<and> ascending hs \<and>
    (\<forall>x \<in> set hs. x \<noteq> 0 \<and> x < get_theta64 (th_impl h)) \<and>
    (is_empty (th_impl h) \<longrightarrow> hs = [] \<and> get_theta64 (th_impl h) = max_theta)"
proof -
  have wf: "wf_sketch (th_impl h)" by (rule theta_reachable_wf [OF assms(1,2)])
  have hs: "hs = sk_hashes (th_impl h)"
    using assms(3) get_retained_hashes_Inr by (auto simp: theta_class_get_retained_hashes_def)
  show ?thesis
    using wf wf_effective_theta [OF wf]
    by (auto simp: hs wf_sketch_def get_num_retained_def k_of_def get_lg_k_def get_theta64_def
        is_empty_def effective_theta_def)
qed

theorem theta_reachable_invariant_witness:
  "\<exists>h hs w'. theta_reachable reference_platform h \<and> \<not> is_empty (th_impl h) \<and>
     theta_class_get_retained_hashes h idle = (Inr hs, w') \<and> length hs \<le> 32"
proof -
  have "theta_class_construct reference_platform 5 9001 0x3f800000 idle = (Inr \<lparr>th_impl = fresh\<rparr>, idle)"
    using construct_fresh by (simp add: theta_class_construct_def dbind_def dreturn_def)
  then have r: "theta_reachable reference_platform \<lparr>th_impl = fresh\<rparr>" by (rule theta_reachable.construct)
  obtain s w where u: "update reference_platform counting 0 100 fresh idle = Some (Inr (), s, w)"
    and e: "\<not> sk_is_empty s" and "wf_sketch s"
    using update_runs [OF wf_fresh, of 0 100 counting] by auto
  have "theta_class_update reference_platform counting 0 100 \<lparr>th_impl = fresh\<rparr> idle =
      Some (Inr (), \<lparr>th_impl = s\<rparr>, w)"
    using u by (simp add: theta_class_update_def)
  from theta_reachable.update [OF r _ this] have h: "theta_reachable reference_platform \<lparr>th_impl = s\<rparr>" by simp
  have "same_config fresh s"
    using update_invariant [OF cub_ok_reference wf_fresh wf_fresh _ u] by simp
  then have "sk_lg_k s = 5" by (simp add: same_config_def fresh_def)
  moreover obtain hs w' where g: "theta_class_get_retained_hashes \<lparr>th_impl = s\<rparr> idle = (Inr hs, w')"
    using total_get_retained_hashes [of s] no_faults_idle
    by (auto simp: total_def theta_class_get_retained_hashes_def)
  ultimately have "length hs \<le> 32"
    using theta_reachable_invariant [OF cub_ok_reference h g] by (simp add: get_lg_k_def)
  with h e g show ?thesis by (intro exI [of _ "\<lparr>th_impl = s\<rparr>"]) (auto simp: is_empty_def)
qed

end
