(* ===== verification/Theta_Objects.thy ===== *)
theory Theta_Objects
  imports Theta_Properties
begin

text \<open>
  Sketches as objects. The members of \<^verbatim>\<open>sketch_impl.hpp\<close> that take another sketch take it by
  reference, and it may be the sketch itself. Here they run on a store of objects and read the
  other object at the time the code reads it; the members of \<^theory_text>\<open>Theta_Sketch\<close>, which take a copy of it,
  turn out to say the same, because a sketch is not written before all that is read has been read.
  The moves of a sketch are operations on the store, too.
\<close>

section \<open>The store\<close>

type_synonym objects = "nat \<Rightarrow> sketch"

type_synonym 'a ometh = "objects \<Rightarrow> world \<Rightarrow> 'a result \<times> objects \<times> world"

definition on_object :: "nat \<Rightarrow> 'a meth \<Rightarrow> 'a ometh" where
  "on_object a m st w = (case m (st a) w of (r, s, w') \<Rightarrow> (r, st(a := s), w'))"

definition obind :: "'a ometh \<Rightarrow> ('a \<Rightarrow> 'b ometh) \<Rightarrow> 'b ometh" where
  "obind m f st w =
     (case m st w of (r, st', w') \<Rightarrow>
        (case r of Inl e \<Rightarrow> (Inl e, st', w') | Inr x \<Rightarrow> f x st' w'))"

section \<open>Members that read another object\<close>

definition merge_at :: "platform \<Rightarrow> nat \<Rightarrow> nat \<Rightarrow> unit ometh" where
  "merge_at pf a b st =
     (if sk_is_empty (st b) then on_object a (mreturn ()) st
      else if compute_seed_hash pf (sk_seed (st a)) \<noteq> compute_seed_hash pf (sk_seed (st b))
      then on_object a (mthrow (Invalid_argument ''theta_sketch::merge: seed hash mismatch'')) st
      else let theta = min (sk_theta (st a)) (effective_theta (st b)) in
      obind (\<lambda>st. on_object a (call (merge_unique pf (sk_hashes (st a)) (sk_hashes (st b)))) st) (\<lambda>combined.
      obind (on_object a (call (select pf (take (br_size combined) (br_data combined)) (screen_hash theta))))
        (\<lambda>screened. on_object a (install pf screened theta False))) st)"

definition retain_matching_at :: "platform \<Rightarrow> nat \<Rightarrow> nat \<Rightarrow> bool \<Rightarrow> unit ometh" where
  "retain_matching_at pf a b keep_matches st =
     (if compute_seed_hash pf (sk_seed (st a)) \<noteq> compute_seed_hash pf (sk_seed (st b))
      then on_object a (mthrow (Invalid_argument
             (if keep_matches then ''theta_sketch::intersect: seed hash mismatch''
              else ''theta_sketch::a_not_b: seed hash mismatch''))) st
      else let theta = min (effective_theta (st a)) (effective_theta (st b)) in
      obind (\<lambda>st. on_object a (call (select pf (sk_hashes (st a))
                (membership_filter (sk_hashes (st b)) theta keep_matches))) st) (\<lambda>kept.
      let emp = (br_size kept = 0 \<and> theta = max_theta)
      in on_object a (install pf kept theta emp)) st)"

definition intersect_at :: "platform \<Rightarrow> nat \<Rightarrow> nat \<Rightarrow> unit ometh" where
  "intersect_at pf a b st =
     (if sk_is_empty (st a) then on_object a (mreturn ()) st
      else if sk_is_empty (st b) then on_object a (reset pf) st
      else retain_matching_at pf a b True st)"

definition a_not_b_at :: "platform \<Rightarrow> nat \<Rightarrow> nat \<Rightarrow> unit ometh" where
  "a_not_b_at pf a b st =
     (if sk_is_empty (st a) \<or> (sk_hashes (st a) \<noteq> [] \<and> sk_is_empty (st b))
      then on_object a (mreturn ()) st
      else retain_matching_at pf a b False st)"

section \<open>Moves\<close>

text \<open>
  The defaulted moves copy the scalar members and move the buffer; \<open>moved\<close> is what the buffer of
  the source holds afterwards, which is for \<^verbatim>\<open>cuda::device_buffer\<close> to say.
\<close>

definition move_construct :: "u64 list \<Rightarrow> nat \<Rightarrow> nat \<Rightarrow> objects \<Rightarrow> objects" where
  "move_construct moved a b st = (st(a := st b))(b := (st b)\<lparr>sk_hashes := moved\<rparr>)"

definition move_assign :: "u64 list \<Rightarrow> nat \<Rightarrow> nat \<Rightarrow> objects \<Rightarrow> objects" where
  "move_assign moved a b st = (st(a := st b))(b := (st b)\<lparr>sk_hashes := moved\<rparr>)"

section \<open>References and copies\<close>

text \<open>
  Taking the other sketch by reference is as good as taking a copy of it: whichever objects
  \<open>a\<close> and \<open>b\<close> are, one and the same included, and whether the call returns or throws, the
  object \<open>a\<close> ends as the member says of the value of \<open>b\<close>, and no other object changes.
\<close>

lemma alias_refinement:
  "merge_at pf a b st w = on_object a (merge pf (st b)) st w"
  "intersect_at pf a b st w = on_object a (intersect pf (st b)) st w"
  "a_not_b_at pf a b st w = on_object a (a_not_b pf (st b)) st w"
proof -
  have retain: "retain_matching_at pf a b keep st w = on_object a (retain_matching pf (st b) keep) st w" for keep
    unfolding retain_matching_at_def retain_matching_def Let_def
    by (simp add: on_object_def obind_def mbind_def split: prod.splits sum.splits)
  show "merge_at pf a b st w = on_object a (merge pf (st b)) st w"
    "intersect_at pf a b st w = on_object a (intersect pf (st b)) st w"
    "a_not_b_at pf a b st w = on_object a (a_not_b pf (st b)) st w"
    unfolding merge_at_def merge_def intersect_at_def intersect_def a_not_b_at_def a_not_b_def Let_def
    by (simp_all add: retain) (simp_all add: on_object_def obind_def mbind_def split: prod.splits sum.splits)
qed

section \<open>A sketch and itself\<close>

lemma self_merge:
  assumes "cub_ok pf" and "wf_sketch s" and "merge pf s s w = (Inr u, s', w')" shows "s' = s"
proof (cases "sk_is_empty s")
  case True
  then show ?thesis using assms(3) by (simp add: merge_def mreturn_def)
next
  case False
  obtain ys theta xs where ys: "sample (set (sk_hashes s)) (sk_theta s) ys"
    and trim: "trim (k_of s) (sk_theta s) ys = (theta, xs)"
    and s': "s' = s\<lparr>sk_hashes := xs, sk_theta := theta, sk_is_empty := False\<rparr>"
    using merge_Inr [OF assms(1,2,2,3) False] by auto
  have "sample (set (sk_hashes s)) (sk_theta s) (sk_hashes s)"
    using assms(2) by (auto simp: sample_def below_def wf_sketch_def)
  with ys have "ys = sk_hashes s" by (rule sample_unique)
  with trim assms(2) have "theta = sk_theta s" "xs = sk_hashes s"
    by (simp_all add: trim_def wf_sketch_def not_less [symmetric])
  with s' False show ?thesis by simp
qed

lemma self_intersect:
  assumes "cub_ok pf" and "wf_sketch s" and "intersect pf s s w = (Inr u, s', w')"
  shows "s' = (if \<not> sk_is_empty s \<and> sk_hashes s = [] \<and> sk_theta s = max_theta
    then s\<lparr>sk_theta := sk_initial_theta s, sk_is_empty := True\<rparr> else s)"
proof (cases "sk_is_empty s")
  case True
  then show ?thesis using assms(3) by (simp add: intersect_def mreturn_def)
next
  case False
  then have r: "retain_matching pf s True s w = (Inr u, s', w')" using assms(3) by (simp add: intersect_def)
  have "filter (\<lambda>h. h \<noteq> 0 \<and> h < sk_theta s \<and> (h \<in> set (sk_hashes s)) = True) (sk_hashes s) = sk_hashes s"
    using assms(2) by (auto simp: filter_id_conv wf_sketch_def)
  with retain_matching_Inr [OF assms(1,2,2) r] False show ?thesis
    by (auto simp: effective_theta_def)
qed

lemma self_a_not_b:
  assumes "cub_ok pf" and "wf_sketch s" and "a_not_b pf s s w = (Inr u, s', w')"
  shows "s' = (if sk_is_empty s then s else if sk_theta s = max_theta
    then s\<lparr>sk_hashes := [], sk_theta := sk_initial_theta s, sk_is_empty := True\<rparr>
    else s\<lparr>sk_hashes := []\<rparr>)"
proof (cases "sk_is_empty s")
  case True
  then show ?thesis using assms(3) by (simp add: a_not_b_def mreturn_def)
next
  case False
  then have r: "retain_matching pf s False s w = (Inr u, s', w')" using assms(3) by (simp add: a_not_b_def)
  have "filter (\<lambda>h. h \<noteq> 0 \<and> h < sk_theta s \<and> (h \<in> set (sk_hashes s)) = False) (sk_hashes s) = []"
    by (auto simp: filter_empty_conv)
  with retain_matching_Inr [OF assms(1,2,2) r] False show ?thesis
    by (simp add: effective_theta_def)
qed

text \<open>
  C17: set operations of a sketch with itself, through a reference to itself. On a device that does
  not fail they return; the union with itself changes nothing; the intersection with itself
  changes nothing but that a sketch known to hold no hash becomes the empty sketch; and the
  difference has no hashes, keeps theta, and is the empty sketch when theta is the maximum.
\<close>

theorem theta_self_operations:
  assumes "cub_ok pf" and "wf_sketch (st a)" and "no_faults w"
  shows "(\<exists>w'. merge_at pf a a st w = (Inr (), st, w')) \<and>
    (\<exists>w'. intersect_at pf a a st w = (Inr (), st(a :=
       if \<not> sk_is_empty (st a) \<and> sk_hashes (st a) = [] \<and> sk_theta (st a) = max_theta
       then (st a)\<lparr>sk_theta := sk_initial_theta (st a), sk_is_empty := True\<rparr> else st a), w')) \<and>
    (\<exists>w'. a_not_b_at pf a a st w = (Inr (), st(a :=
       if sk_is_empty (st a) then st a else if sk_theta (st a) = max_theta
       then (st a)\<lparr>sk_hashes := [], sk_theta := sk_initial_theta (st a), sk_is_empty := True\<rparr>
       else (st a)\<lparr>sk_hashes := []\<rparr>), w'))"
proof -
  let ?s = "st a"
  obtain s1 w1 where m: "merge pf ?s ?s w = (Inr (), s1, w1)"
    using returns_merge assms(3) unfolding returns_def by fastforce
  obtain s2 w2 where i: "intersect pf ?s ?s w = (Inr (), s2, w2)"
    using returns_intersect assms(3) unfolding returns_def by fastforce
  obtain s3 w3 where d: "a_not_b pf ?s ?s w = (Inr (), s3, w3)"
    using returns_a_not_b assms(3) unfolding returns_def by fastforce
  show ?thesis
    using self_merge [OF assms(1,2) m] self_intersect [OF assms(1,2) i] self_a_not_b [OF assms(1,2) d] m i d
    by (simp add: alias_refinement on_object_def)
qed

theorem theta_self_operations_witness:
  "\<exists>w'. a_not_b_at reference_platform 1 1 (\<lambda>_. filled) idle =
     (Inr (), (\<lambda>_. filled)(1 := fresh), w')"
proof -
  have "filled\<lparr>sk_hashes := [], sk_theta := sk_initial_theta filled, sk_is_empty := True\<rparr> = fresh"
    by (simp add: filled_def fresh_def)
  moreover have "\<not> sk_is_empty filled" "sk_theta filled = max_theta" by (simp_all add: filled_def fresh_def)
  ultimately show ?thesis
    using theta_self_operations [OF cub_ok_reference _ no_faults_idle, of "\<lambda>_. filled" 1] wf_filled by simp
qed

end
