(* ===== verification/Theta_Built.thy ===== *)
theory Theta_Built
  imports Theta_Properties
begin

text \<open>
  The sketches that updates and merges build from new ones, with the hashes they were given: what
  the theorems about estimates speak of. Any set of hashes has such a sketch.
\<close>

section \<open>The hash space\<close>

definition hash_space :: "u64 set" where
  "hash_space = {h. h \<noteq> 0 \<and> h < max_theta}"

definition space_size :: nat where "space_size = 2 ^ 63 - 2"

lemma unat_max_theta: "unat max_theta = space_size + 1"
  by (simp add: max_theta_def space_size_def)

lemma unat_hash_space: "bij_betw unat hash_space {1..space_size}"
proof (rule bij_betw_byWitness [where f' = word_of_nat])
  have u: "unat (word_of_nat x :: u64) = x" if "x \<in> {1..space_size}" for x
    using that by (simp add: unat_of_nat space_size_def)
  then show "\<forall>x \<in> {1..space_size}. unat (word_of_nat x :: u64) = x" by blast
  show "unat ` hash_space \<subseteq> {1..space_size}"
    by (auto simp: hash_space_def word_less_nat_alt unat_gt_0 Suc_le_eq unat_max_theta)
  show "word_of_nat ` {1..space_size} \<subseteq> hash_space"
  proof
    fix h :: u64 assume "h \<in> word_of_nat ` {1..space_size}"
    then obtain x where x: "x \<in> {1..space_size}" "h = word_of_nat x" by blast
    have "h \<noteq> 0" using u [OF x(1)] x by (auto simp: word_unat_eq_iff)
    then show "h \<in> hash_space" using u [OF x(1)] x by (simp add: hash_space_def word_less_nat_alt unat_max_theta)
  qed
qed simp

lemma finite_hash_space [simp]: "finite hash_space" by (rule finite)

lemma card_hash_space: "card hash_space = space_size"
  using bij_betw_same_card [OF unat_hash_space] by simp

section \<open>Sketches of hash sets\<close>

text \<open>
  \<open>built pf lg_k seed p H s\<close>: a program has made the sketch with the nominal size \<open>2^lg_k\<close> and the
  sampling probability of the bit pattern \<open>p\<close>, updated it with ranges of keys and merged into it
  others that were made with the same parameters, and \<open>H\<close> are the hashes of all keys.
\<close>

inductive built :: "platform \<Rightarrow> u8 \<Rightarrow> u64 \<Rightarrow> u32 \<Rightarrow> u64 set \<Rightarrow> sketch \<Rightarrow> bool"
  for pf :: platform and lg_k :: u8 and seed :: u64 and p :: u32 where
  construct: "construct pf lg_k seed p w = (Inr s, w') \<Longrightarrow> built pf lg_k seed p {} s"
| update: "built pf lg_k seed p H s \<Longrightarrow> stop - first < 2 ^ 63 \<Longrightarrow>
    update pf mem first stop s w = Some (Inr (), s', w') \<Longrightarrow>
    built pf lg_k seed p (H \<union> theta_hash pf seed ` set (key_range mem first (nat (stop - first)))) s'"
| merge: "built pf lg_k seed p H s \<Longrightarrow> built pf lg_k seed p K t \<Longrightarrow>
    merge pf t s w = (Inr (), s', w') \<Longrightarrow> built pf lg_k seed p (H \<union> K) s'"

definition sketch_of :: "u8 \<Rightarrow> u32 \<Rightarrow> u64 set \<Rightarrow> sketch \<Rightarrow> bool" where
  "sketch_of lg_k p H s \<longleftrightarrow> (\<exists>pf seed. cub_ok pf \<and> built pf lg_k seed p H s)"

lemma built_canon:
  assumes "cub_ok pf" and "checked_theta p = Inr theta0" and "built pf lg_k seed p H s"
  shows "theta_canon pf seed (2 ^ unat lg_k) theta0 s H"
  using assms(3)
proof (induction rule: built.induct)
  case (construct w s w')
  note c = construct_Inr [OF this]
  have "sk_initial_theta s = theta0" using c(6) assms(2) by simp
  with c assms(1) summary_empty show ?case by (simp add: theta_canon_def k_of_def)
next
  case (update H s stop first mem w s' w')
  have "theta_feed pf s (theta_hash pf seed ` set (key_range mem first (nat (stop - first)))) s'"
    unfolding theta_feed_def
  proof (intro exI conjI)
    show "theta_hash pf seed ` set (key_range mem first (nat (stop - first))) =
        theta_hashes pf s (key_range mem first (nat (stop - first)))"
      using update.IH by (simp add: theta_hashes_def theta_canon_def)
  qed (use update.hyps in auto)
  with theta_summaries.canon_feed update.IH show ?case by blast
next
  case (merge H s K t w s' w')
  have "runs (Theta_Sketch.merge pf) s t s'" using merge.hyps by (auto simp: runs_def)
  with theta_summaries.canon_join merge.IH show ?case by blast
qed

section \<open>A sketch of every hash set\<close>

text \<open>A hash function that gives every key twice its pattern, so that every hash set has its keys.\<close>

definition doubling_platform :: platform where
  "doubling_platform = reference_platform\<lparr>murmur := \<lambda>_ key. ucast (push_bit 1 key)\<rparr>"

lemma cub_ok_doubling: "cub_ok doubling_platform"
  using cub_ok_reference by (simp add: cub_ok_def doubling_platform_def)

lemma theta_hash_doubling:
  assumes "h \<in> hash_space" shows "theta_hash doubling_platform seed (Key_u64 h) = h"
proof -
  have "unat h < 2 ^ 63" using assms by (simp add: hash_space_def word_less_nat_alt unat_max_theta space_size_def)
  then have u: "unat (push_bit 1 h) = 2 * unat h"
    by (simp only: unsigned_push_bit_eq) (simp add: take_bit_nat_eq_self)
  have half: "drop_bit 1 (push_bit 1 h) = h"
    unfolding word_unat_eq_iff unat_drop_bit_eq u by (simp add: drop_bit_Suc)
  have narrow: "(ucast (ucast x :: u128) :: u64) = x" for x :: u64
    by (rule ucast_up_ucast_id) (simp add: is_up)
  have "murmur doubling_platform seed h = ucast (push_bit 1 h)" for seed
    unfolding doubling_platform_def by simp
  then show ?thesis
    unfolding theta_hash_def normalizing_hash_def canonicalize.simps by (simp only: narrow half)
qed

lemma built_exists:
  assumes "H \<subseteq> hash_space" shows "\<exists>s. built doubling_platform 5 9001 0x3f800000 H s"
proof -
  let ?mem = "\<lambda>i. Key_u64 (sorted_list_of_set H ! nat i)"
  have c: "construct doubling_platform 5 9001 0x3f800000 idle = (Inr fresh, idle)"
  proof -
    have eq: "make_hash_buffer doubling_platform 0 = make_hash_buffer reference_platform 0"
      by (simp add: make_hash_buffer_def doubling_platform_def)
    show ?thesis using construct_fresh unfolding construct_def eq .
  qed
  have "card H \<le> card hash_space" by (rule card_mono [OF _ assms]) simp
  then have small: "int (card H) - 0 < 2 ^ 63" by (simp add: card_hash_space space_size_def)
  obtain s w where u: "update doubling_platform ?mem 0 (int (card H)) fresh idle = Some (Inr (), s, w)"
    using update_returns [OF cub_ok_doubling wf_fresh of_nat_0_le_iff small, of ?mem idle] no_faults_idle by metis
  have "set (key_range ?mem 0 (nat (int (card H) - 0))) = Key_u64 ` H"
  proof -
    have "key_range ?mem 0 (nat (int (card H) - 0)) = map Key_u64 (sorted_list_of_set H)"
      by (rule nth_equalityI) (simp_all add: key_range_def)
    then show ?thesis by simp
  qed
  then have "theta_hash doubling_platform 9001 ` set (key_range ?mem 0 (nat (int (card H) - 0))) = H"
    using assms by (auto simp: image_image theta_hash_doubling subset_iff)
  with built.update [OF built.construct [OF c] small u]
  have "built doubling_platform 5 9001 0x3f800000 H s" by simp
  then show ?thesis ..
qed

corollary sketch_of_exists:
  "H \<subseteq> hash_space \<Longrightarrow> \<exists>s. sketch_of 5 0x3f800000 H s"
  using built_exists cub_ok_doubling unfolding sketch_of_def by blast

text \<open>The first \<open>n\<close> hashes.\<close>

definition first_hashes :: "nat \<Rightarrow> u64 set" where
  "first_hashes n = word_of_nat ` {1..n}"

lemma first_hashes:
  assumes "n \<le> space_size" shows "first_hashes n \<subseteq> hash_space" and "card (first_hashes n) = n"
proof -
  have u: "unat (word_of_nat x :: u64) = x" if "x \<in> {1..n}" for x
    using that assms by (simp add: unat_of_nat space_size_def)
  then have "inj_on (word_of_nat :: nat \<Rightarrow> u64) {1..n}" by (rule inj_on_inverseI)
  then show "card (first_hashes n) = n" unfolding first_hashes_def by (simp add: card_image)
  show "first_hashes n \<subseteq> hash_space"
  proof
    fix h assume "h \<in> first_hashes n"
    then obtain x where "x \<in> {1..n}" "h = word_of_nat x" by (auto simp: first_hashes_def)
    with u [of x] assms show "h \<in> hash_space"
      by (auto simp: hash_space_def word_less_nat_alt word_unat_eq_iff unat_max_theta)
  qed
qed

end
