(* ===== verification/Rounding.thy ===== *)
theory Rounding
  imports Double
begin

text \<open>
  Bounds on rounded results: rounding never crosses a representable number, so an exact result
  between two representable numbers is rounded to a double between them.
\<close>

section \<open>Rounding and order\<close>

lemma round_half_even_le: "q \<le> of_int n \<Longrightarrow> round_half_even q \<le> n"
  using round_half_even_error [of q] by linarith

lemma round_half_even_minus: "round_half_even (- q) = - round_half_even q"
proof (cases "q = of_int \<lfloor>q\<rfloor>")
  case True
  then show ?thesis by (metis of_int_minus round_half_even_of_int)
next
  case False
  then have "\<lfloor>- q\<rfloor> = - \<lfloor>q\<rfloor> - 1"
    using floor_correct [of q] by (intro floor_unique) (auto simp: less_le)
  then show ?thesis by (auto simp: round_half_even_def Let_def)
qed

lemma ulp_exp_minus [simp]: "ulp_exp (- x) = ulp_exp x"
  by (simp add: ulp_exp_def)

lemma rnd64_minus: "rnd64 (- x) = - rnd64 x"
  by (simp add: rnd64_def round_half_even_minus)

lemma representable_minus [simp]: "representable (- x) \<longleftrightarrow> representable x"
proof -
  have neg: "representable (- y)" if y: "representable y" for y
  proof -
    obtain m e where "y = of_int m * 2 powi e" "\<bar>m\<bar> < 2 ^ 53" "- 1074 \<le> e"
      using y by (auto simp: representable_def)
    then show ?thesis
      unfolding representable_def by (intro exI [of _ "- m"] exI [of _ e]) simp
  qed
  from neg [of x] neg [of "- x"] show ?thesis by (auto simp only: minus_minus)
qed

lemma representable_ulp:
  assumes "representable y" and "y \<noteq> 0"
  obtains m where "y = of_int m * 2 powi ulp_exp y"
proof -
  obtain m e where y: "y = of_int m * 2 powi e" and m: "\<bar>m\<bar> < 2 ^ 53" and e: "- 1074 \<le> e"
    using assms(1) by (auto simp: representable_def)
  have "\<bar>y\<bar> = of_int \<bar>m\<bar> * 2 powi e" by (simp add: y abs_mult)
  also have "\<dots> < of_int (2 ^ 53) * 2 powi e"
    using m by (intro mult_strict_right_mono) (auto simp del: of_int_power)
  also have "\<dots> = 2 powi (e + 53)" by (simp add: power_int_add)
  finally have "ilog2 \<bar>y\<bar> < e + 53" using assms(2) by (simp add: ilog2_le_iff)
  with e have le: "ulp_exp y \<le> e" by (simp add: ulp_exp_def)
  have "2 powi e = (2 :: rat) powi (e - ulp_exp y) * 2 powi ulp_exp y"
    by (simp flip: power_int_add)
  also have "(2 :: rat) powi (e - ulp_exp y) = of_int (2 ^ nat (e - ulp_exp y))"
    using le by (simp add: power_int_def)
  finally have "y = of_int (m * 2 ^ nat (e - ulp_exp y)) * 2 powi ulp_exp y"
    by (simp add: y)
  with that show ?thesis by blast
qed

lemma representable_multiple:
  assumes "representable y" and "y = 0 \<or> k \<le> ulp_exp y"
  obtains m where "y = of_int m * 2 powi k"
proof (cases "y = 0")
  case True
  with that [of 0] show ?thesis by simp
next
  case False
  then obtain m where y: "y = of_int m * 2 powi ulp_exp y"
    using representable_ulp assms(1) by blast
  have le: "k \<le> ulp_exp y" using False assms(2) by simp
  have "2 powi ulp_exp y = (2 :: rat) powi (ulp_exp y - k) * 2 powi k"
    by (simp flip: power_int_add)
  also have "(2 :: rat) powi (ulp_exp y - k) = of_int (2 ^ nat (ulp_exp y - k))"
    using le by (simp add: power_int_def)
  finally have "y = of_int (m * 2 ^ nat (ulp_exp y - k)) * 2 powi k"
    using y by simp
  with that show ?thesis by blast
qed

lemma ilog2_mono: "0 < x \<Longrightarrow> x \<le> y \<Longrightarrow> ilog2 x \<le> ilog2 y"
  using ilog2_le_iff [of x "ilog2 y + 1"] ilog2_less [of y] by auto

lemma ulp_exp_mono: "x \<noteq> 0 \<Longrightarrow> \<bar>x\<bar> \<le> \<bar>y\<bar> \<Longrightarrow> ulp_exp x \<le> ulp_exp y"
  using ilog2_mono [of "\<bar>x\<bar>" "\<bar>y\<bar>"] by (simp add: ulp_exp_def)

lemma rnd64_le_multiple:
  assumes "x \<noteq> 0" and "x \<le> of_int n * 2 powi ulp_exp x"
  shows "rnd64 x \<le> of_int n * 2 powi ulp_exp x"
proof -
  have "x / 2 powi ulp_exp x \<le> of_int n" using assms(2) by (simp add: field_simps)
  from round_half_even_le [OF this]
  show ?thesis using assms(1) by (simp add: rnd64_def)
qed

lemma rnd64_le:
  assumes "representable y" and "x \<le> y"
  shows "rnd64 x \<le> y"
proof (cases "x = 0 \<or> y = 0 \<or> ulp_exp x \<le> ulp_exp y")
  case True
  show ?thesis
  proof (cases "x = 0")
    case False
    with True obtain n where "y = of_int n * 2 powi ulp_exp x"
      using representable_multiple [OF assms(1)] by blast
    with rnd64_le_multiple [OF False] assms(2) show ?thesis by simp
  qed (use assms(2) in simp)
next
  case False
  then have x: "x \<noteq> 0" and y: "y \<noteq> 0" and u: "ulp_exp y < ulp_exp x" by auto
  then have lt: "\<bar>y\<bar> < \<bar>x\<bar>" using ulp_exp_mono [of x y] by force
  then have neg: "x < 0" using assms(2) by auto
  have k: "ilog2 \<bar>y\<bar> < ilog2 \<bar>x\<bar>" and ux: "ulp_exp x = ilog2 \<bar>x\<bar> - 52"
    using u by (auto simp: ulp_exp_def)
  then have pow: "(2 :: rat) powi ilog2 \<bar>x\<bar> = of_int (2 ^ 52) * 2 powi ulp_exp x"
    by (simp add: power_int_diff)
  have "\<bar>y\<bar> < 2 powi ilog2 \<bar>x\<bar>"
    using ilog2_le_iff [of "\<bar>y\<bar>" "ilog2 \<bar>x\<bar>"] k y by simp
  moreover have "2 powi ilog2 \<bar>x\<bar> \<le> \<bar>x\<bar>" using ilog2_ge [of "\<bar>x\<bar>"] x by simp
  ultimately have "x \<le> of_int (- (2 ^ 52)) * 2 powi ulp_exp x" "of_int (- (2 ^ 52)) * 2 powi ulp_exp x \<le> y"
    using pow neg by auto
  with rnd64_le_multiple [OF x] show ?thesis by (meson order_trans)
qed

lemma rnd64_ge: "representable y \<Longrightarrow> y \<le> x \<Longrightarrow> y \<le> rnd64 x"
  using rnd64_le [of "- y" "- x"] by (simp add: rnd64_minus)

lemma fp_round_between:
  assumes "representable l" and "representable u" and "l \<le> x" and "x \<le> u"
    and "- (2 ^ 1024) < l" and "u < 2 ^ 1024"
  obtains r where "fp_round False x = Fin r" and "l \<le> r" and "r \<le> u"
proof
  have "l \<le> rnd64 x" "rnd64 x \<le> u" using assms rnd64_le rnd64_ge by auto
  then show "fp_round False x = Fin (rnd64 x)" "l \<le> rnd64 x" "rnd64 x \<le> u"
    using assms(5,6) by (auto simp: fp_round_def Let_def abs_if)
qed

lemma fadd_Fin: "fadd (Fin a) (Fin b) = fp_round False (a + b)"
  by simp

lemma fsub_Fin: "fsub (Fin a) (Fin b) = fp_round False (a - b)"
  by (simp add: fsub_def)

lemma fp_round_small: "representable x \<Longrightarrow> \<bar>x\<bar> \<le> 2 ^ 64 \<Longrightarrow> fp_round False x = Fin x"
  by (rule fp_round_Fin_nonneg, assumption, erule le_less_trans) simp

lemma of_nat_le_power: "n \<le> 2 ^ k \<Longrightarrow> (of_nat n :: rat) \<le> 2 ^ k"
  by (metis of_nat_le_iff of_nat_numeral of_nat_power)

text \<open>A dyadic fraction with at most 53 bits is representable.\<close>

lemma representable_fraction:
  assumes "x = of_int n / 2 ^ k" and "\<bar>n\<bar> < 2 ^ 53" and "k \<le> 1074"
  shows "representable x"
  unfolding representable_def
  by (intro exI [of _ n] exI [of _ "- int k"]) (use assms in \<open>simp add: power_int_minus divide_inverse\<close>)

end
