(* ===== verification/Magnitude.thy ===== *)
theory Magnitude
  imports Rounding
begin

text \<open>
  Bounds on the magnitude of computed doubles, as rules over the operations: \<open>sized n x\<close> bounds
  a finite result from above, \<open>spans a b x\<close> a positive one from both sides.
\<close>

section \<open>Magnitudes\<close>

text \<open>\<open>sized n x\<close>: \<open>x\<close> is a zero or a finite double of magnitude at most \<open>2^n\<close>.\<close>

definition sized :: "nat \<Rightarrow> fp \<Rightarrow> bool" where
  "sized n x \<longleftrightarrow> x = FNegZero \<or> (\<exists>v. x = Fin v \<and> \<bar>v\<bar> \<le> 2 ^ n)"

lemma sized_Fin [simp]: "sized n (Fin v) \<longleftrightarrow> \<bar>v\<bar> \<le> 2 ^ n"
  by (simp add: sized_def)

lemma sized_cases:
  assumes "sized n x"
  obtains "x = FNegZero" | v where "x = Fin v" and "\<bar>v\<bar> \<le> 2 ^ n"
  using assms by (auto simp: sized_def)

lemma sized_round:
  assumes "\<bar>x\<bar> \<le> 2 ^ n" and "n < 1024" shows "sized n (fp_round neg x)"
proof -
  have "representable (2 ^ n)" "representable (- (2 ^ n))"
    using representable_power [of "int n"] by simp_all
  then have "- (2 ^ n) \<le> rnd64 x" "rnd64 x \<le> 2 ^ n"
    using assms(1) rnd64_le rnd64_ge by (auto simp: abs_le_iff)
  moreover have "(2 :: rat) ^ n < 2 ^ 1024" using assms(2) by (intro power_strict_increasing) auto
  ultimately show ?thesis
    by (auto simp: fp_round_def Let_def abs_le_iff abs_if sized_def split: if_splits)
qed

lemma sized_mono:
  assumes "sized m x" and "m \<le> n" shows "sized n x"
proof -
  have "(2 :: rat) ^ m \<le> 2 ^ n" using assms(2) by (intro power_increasing) auto
  from order_trans [OF _ this] assms(1) show ?thesis by (auto simp only: sized_def)
qed

lemma sized_fval: "sized n x \<Longrightarrow> \<bar>fval x\<bar> \<le> 2 ^ n"
  by (auto elim: sized_cases)

lemma sized_fneg: "sized n x \<Longrightarrow> sized n (fneg x)"
  by (auto elim!: sized_cases simp: sized_def split: if_splits)

lemma sized_fadd:
  assumes "sized n x" and "sized n y" and "n < 1023" shows "sized (Suc n) (fadd x y)"
proof -
  have "\<bar>fval x + fval y\<bar> \<le> 2 ^ Suc n"
    using sized_fval [OF assms(1)] sized_fval [OF assms(2)] by (simp add: abs_le_iff)
  then have "sized (Suc n) (fp_round False (fval x + fval y))"
    using assms(3) by (intro sized_round) auto
  moreover have "fadd x y = fp_round False (fval x + fval y) \<or> fadd x y = FNegZero"
    using assms(1,2) by (auto elim!: sized_cases)
  ultimately show ?thesis by (auto simp: sized_def)
qed

lemma sized_fsub:
  "sized n x \<Longrightarrow> sized n y \<Longrightarrow> n < 1023 \<Longrightarrow> sized (Suc n) (fsub x y)"
  unfolding fsub_def by (intro sized_fadd sized_fneg)

lemma sized_fmul:
  assumes "sized m x" and "sized n y" and "m + n < 1024" shows "sized (m + n) (fmul x y)"
proof -
  have "\<bar>fval x * fval y\<bar> \<le> 2 ^ (m + n)"
    using sized_fval [OF assms(1)] sized_fval [OF assms(2)]
    by (simp add: abs_mult power_add mult_mono)
  then have "sized (m + n) (fp_round neg (fval x * fval y))" for neg
    using assms(3) by (intro sized_round) auto
  moreover have "\<exists>neg. fmul x y = fp_round neg (fval x * fval y)"
    using assms(1,2) by (auto elim!: sized_cases)
  ultimately show ?thesis by auto
qed

text \<open>Dividing by a number that is at least 1 does not increase the magnitude.\<close>

lemma sized_fdiv:
  assumes "sized n x" and "1 \<le> v" and "n < 1024" shows "sized n (fdiv x (Fin v))"
proof -
  have "\<bar>fval x / v\<bar> \<le> \<bar>fval x\<bar>"
    using assms(2) by (simp add: abs_div divide_le_eq mult_le_cancel_left1)
  then have "sized n (fp_round neg (fval x / v))" for neg
    using sized_fval [OF assms(1)] assms(3) by (intro sized_round) auto
  moreover have "\<exists>neg. fdiv x (Fin v) = fp_round neg (fval x / v)"
    using assms(1,2) by (auto elim!: sized_cases)
  ultimately show ?thesis by auto
qed

lemma fsub_self: "sized n x \<Longrightarrow> fsub x x = Fin 0"
  by (auto elim!: sized_cases simp: fsub_def fp_round_def)


lemma fmul_of_nat:
  assumes "m * n < 2 ^ 53" shows "fmul (Fin (of_nat m)) (Fin (of_nat n)) = Fin (of_nat (m * n))"
proof -
  have "m * n \<le> 2 ^ 64" using assms by simp
  then have "\<bar>of_nat (m * n) :: rat\<bar> \<le> 2 ^ 64" using of_nat_le_power [of "m * n" 64] by (simp del: of_nat_mult)
  then have "fp_round False (of_nat (m * n)) = Fin (of_nat (m * n))"
    using representable_of_nat [OF assms] by (intro fp_round_small)
  then show ?thesis by (simp add: not_less)
qed

section \<open>Positive results\<close>

text \<open>\<open>spans a b x\<close>: \<open>x\<close> is a finite double between \<open>2^-a\<close> and \<open>2^b\<close>.\<close>

definition spans :: "nat \<Rightarrow> nat \<Rightarrow> fp \<Rightarrow> bool" where
  "spans a b x \<longleftrightarrow> (\<exists>v. x = Fin v \<and> 1 / 2 ^ a \<le> v \<and> v \<le> 2 ^ b)"

lemma spans_cases:
  assumes "spans a b x"
  obtains v where "x = Fin v" and "1 / 2 ^ a \<le> v" and "v \<le> 2 ^ b" and "0 < v"
proof -
  obtain v where v: "x = Fin v" "1 / 2 ^ a \<le> v" "v \<le> 2 ^ b" using assms by (auto simp: spans_def)
  moreover have "(0 :: rat) < 1 / 2 ^ a" by simp
  then have "0 < v" using v(2) by (rule less_le_trans)
  ultimately show ?thesis using that by blast
qed

lemma spans_round:
  assumes "1 / 2 ^ a \<le> x" and "x \<le> 2 ^ b" and "a < 1000" and "b < 1000"
  shows "spans a b (fp_round neg x)"
proof -
  have "representable (1 / 2 ^ a)" "representable (2 ^ b)"
    using representable_fraction [of "1 / 2 ^ a" 1 a] representable_power [of "int b"] assms(3)
    by simp_all
  then have r: "1 / 2 ^ a \<le> rnd64 x" "rnd64 x \<le> 2 ^ b"
    using assms(1,2) rnd64_le rnd64_ge by auto
  have "(2 :: rat) ^ b < 2 ^ 1024" using assms(4) by (intro power_strict_increasing) auto
  moreover have "(0 :: rat) < 1 / 2 ^ a" by simp
  ultimately have "rnd64 x \<noteq> 0" "\<not> 2 ^ 1024 \<le> \<bar>rnd64 x\<bar>" using r by linarith+
  with r show ?thesis by (simp add: spans_def fp_round_def Let_def)
qed

lemma spans_mono:
  assumes "spans a b x" and "a \<le> a'" and "b \<le> b'" shows "spans a' b' x"
proof -
  have "(1 :: rat) / 2 ^ a' \<le> 1 / 2 ^ a" "(2 :: rat) ^ b \<le> 2 ^ b'"
    using assms(2,3) by (intro divide_left_mono power_increasing; simp)+
  with assms(1) show ?thesis by (auto simp only: spans_def intro: order_trans)
qed

lemma spans_fmul:
  assumes "spans a b x" and "spans a' b' y" and "a + a' < 1000" and "b + b' < 1000"
  shows "spans (a + a') (b + b') (fmul x y)"
proof -
  obtain v where v: "x = Fin v" "1 / 2 ^ a \<le> v" "v \<le> 2 ^ b" "0 < v"
    using assms(1) by (rule spans_cases)
  obtain w where w: "y = Fin w" "1 / 2 ^ a' \<le> w" "w \<le> 2 ^ b'" "0 < w"
    using assms(2) by (rule spans_cases)
  have "1 / 2 ^ (a + a') \<le> v * w"
    using mult_mono [OF v(2) w(2)] v(4) by (simp add: power_add)
  moreover have "v * w \<le> 2 ^ (b + b')"
    using mult_mono [OF v(3) w(3)] w(4) by (simp add: power_add)
  ultimately show ?thesis using spans_round assms(3,4) by (simp add: v(1) w(1))
qed

lemma spans_fdiv:
  assumes "spans a b x" and "spans a' b' y" and "a + b' < 1000" and "b + a' < 1000"
  shows "spans (a + b') (b + a') (fdiv x y)"
proof -
  obtain v where v: "x = Fin v" "1 / 2 ^ a \<le> v" "v \<le> 2 ^ b" "0 < v"
    using assms(1) by (rule spans_cases)
  obtain w where w: "y = Fin w" "1 / 2 ^ a' \<le> w" "w \<le> 2 ^ b'" "0 < w"
    using assms(2) by (rule spans_cases)
  have "1 / 2 ^ (a + b') \<le> v / w"
    using frac_le [OF _ v(2) w(4) w(3)] v(4) by (simp add: power_add)
  moreover have "v / w \<le> 2 ^ (b + a')"
    using frac_le [OF _ v(3) _ w(2)] v(4) by (simp add: power_add)
  ultimately show ?thesis using spans_round assms(3,4) w(4) by (simp add: v(1) w(1))
qed

lemma spans_one_plus:
  assumes "spans a b x" and "b < 900"
  shows "spans 0 (b + 1) (fadd (Fin 1) x)"
proof -
  obtain v where x: "x = Fin v" "v \<le> 2 ^ b" "0 < v" using assms(1) by (rule spans_cases)
  have "(1 :: rat) \<le> 2 ^ b" "(2 :: rat) ^ (b + 1) = 2 * 2 ^ b" by simp_all
  then have "1 + v \<le> 2 ^ (b + 1)" using x(2) by linarith
  with x(3) have "spans 0 (b + 1) (fp_round False (1 + v))"
    using assms(2) by (intro spans_round) simp_all
  then show ?thesis by (simp add: x)
qed

lemma spans_lit: "1 / 2 ^ a \<le> x \<Longrightarrow> x \<le> 2 ^ b \<Longrightarrow> a < 1000 \<Longrightarrow> b < 1000 \<Longrightarrow> spans a b (f_lit x)"
  unfolding f_lit_def by (rule spans_round)

lemma spans_of_nat: "1 \<le> n \<Longrightarrow> n \<le> 2 ^ b \<Longrightarrow> b < 1000 \<Longrightarrow> spans 0 b (f_of_nat n)"
  unfolding f_of_nat_def by (intro spans_round of_nat_le_power) simp_all

end
