(* ===== verification/Accuracy.thy ===== *)
theory Accuracy
  imports Magnitude
begin

text \<open>
  How far a computed double is from the exact value, as rules over the operations: \<open>near n y x\<close>
  is a relative error of \<open>n\<close> roundings, \<open>mag b x\<close> and \<open>band a b x\<close> are magnitudes of either sign.
\<close>

section \<open>Relative errors\<close>

definition shrink :: rat where "shrink = 1 - 1 / 2 ^ 53"

lemma shrink_pos [simp]: "0 < shrink" "shrink \<le> 1" "0 < shrink ^ n" "0 \<le> shrink ^ n" "shrink ^ n \<noteq> 0"
  by (simp_all add: shrink_def)

lemma shrink_le_1 [simp]: "shrink ^ n \<le> 1"
  by (intro power_le_one) (simp_all add: shrink_def)

lemma shrink_bound: "1 - of_nat n / 2 ^ 53 \<le> shrink ^ n"
proof (induction n)
  case (Suc n)
  have "shrink ^ n - shrink ^ Suc n = shrink ^ n / 2 ^ 53" by (simp add: shrink_def algebra_simps)
  also have "\<dots> \<le> 1 / 2 ^ 53" by (simp add: divide_right_mono)
  finally show ?case using Suc by (simp add: add_divide_distrib)
qed simp

lemma shrink_half: "n \<le> 100 \<Longrightarrow> 1 / 2 \<le> shrink ^ n"
proof -
  assume "n \<le> 100"
  then have "(of_nat n :: rat) \<le> 100" by simp
  then have "1 / 2 \<le> 1 - of_nat n / (2 ^ 53 :: rat)" by simp
  with shrink_bound [of n] show ?thesis by linarith
qed

lemma rnd64_relative:
  assumes "1 / 2 ^ 900 \<le> x" shows "\<bar>rnd64 x - x\<bar> \<le> x / 2 ^ 53"
proof -
  have "0 < (1 / 2 ^ 900 :: rat)" by simp
  then have x: "0 < x" using assms by linarith
  have "\<not> ilog2 x < - 900"
  proof
    assume "ilog2 x < - 900"
    then have "x * 2 ^ 900 < 1" using ilog2_le_iff [OF x, of "- 900"] by simp
    with assms show False by (simp add: field_simps)
  qed
  then have "(2 :: rat) powi ulp_exp x = 2 powi (ilog2 x - 52)" using x by (simp add: ulp_exp_def)
  also have "\<dots> = 2 powi ilog2 x / 2 ^ 52" by (simp add: power_int_diff)
  finally show ?thesis using rnd64_error [of x] ilog2_ge [OF x] x by simp
qed

text \<open>\<open>near n y x\<close>: \<open>x\<close> is a double within \<open>n\<close> roundings of the positive number \<open>y\<close>.\<close>

definition near :: "nat \<Rightarrow> rat \<Rightarrow> fp \<Rightarrow> bool" where
  "near n y x \<longleftrightarrow> (\<exists>v. x = Fin v \<and> y * shrink ^ n \<le> v \<and> v * shrink ^ n \<le> y)"

lemma near_Fin: "0 \<le> y \<Longrightarrow> near 0 y (Fin y)"
  by (simp add: near_def)

lemma near_range:
  assumes "0 < y" and "y * shrink ^ n \<le> v" and "v * shrink ^ n \<le> y" and "n \<le> 100"
  shows "y / 2 \<le> v" and "v \<le> y * 2" and "0 < v"
proof -
  have "y * (1 / 2) \<le> y * shrink ^ n" using assms(1) shrink_half [OF assms(4)] by simp
  with assms(2) show low: "y / 2 \<le> v" by simp
  with assms(1) show "0 < v" by simp
  then have "v * (1 / 2) \<le> v * shrink ^ n" using shrink_half [OF assms(4)] by simp
  with assms(3) show "v \<le> y * 2" by simp
qed

lemma near_round:
  assumes "y * shrink ^ n \<le> v" and "v * shrink ^ n \<le> y" and "n \<le> 100"
    and "1 / 2 ^ 200 \<le> y" and "y \<le> 2 ^ 200"
  shows "near (Suc n) y (fp_round neg v)"
proof -
  have y: "0 < y" using assms(4) by (simp add: less_le_trans [of 0 "1 / 2 ^ 200"])
  note r = near_range [OF y assms(1-3)]
  have "1 / 2 ^ 900 \<le> (1 / 2 ^ 200 :: rat) / 2" by simp
  also have "\<dots> \<le> v" using order_trans [OF divide_right_mono [OF assms(4)] r(1)] by simp
  finally have "\<bar>rnd64 v - v\<bar> \<le> v / 2 ^ 53" by (rule rnd64_relative)
  then have lo: "v * shrink \<le> rnd64 v" and hi: "rnd64 v \<le> v * (1 + 1 / 2 ^ 53)"
    unfolding abs_le_iff shrink_def right_diff_distrib distrib_left by (simp_all only: mult_1_right times_divide_eq_right) linarith+
  have "y * shrink ^ n * shrink \<le> v * shrink" using assms(1) by (rule mult_right_mono) (simp add: less_imp_le)
  from order_trans [OF this lo] have low: "y * shrink ^ Suc n \<le> rnd64 v" by (simp add: ac_simps)
  have "rnd64 v * shrink \<le> v * (1 + 1 / 2 ^ 53) * shrink" using hi by simp
  also have "\<dots> = v * (1 - 1 / 2 ^ 106)" by (simp add: shrink_def algebra_simps)
  also have "\<dots> \<le> v" using r(3) by simp
  finally have "rnd64 v * shrink * shrink ^ n \<le> v * shrink ^ n" by (rule mult_right_mono) simp
  from order_trans [OF this assms(2)] have high: "rnd64 v * shrink ^ Suc n \<le> y" by (simp add: ac_simps)
  have "0 < y * shrink ^ Suc n" using y by (simp del: power_Suc)
  with low have pos: "0 < rnd64 v" by linarith
  have "rnd64 v \<le> v * 2" using hi r(3) by (simp add: order_trans)
  also have "\<dots> \<le> 2 ^ 200 * 4" using r(2) assms(5) by linarith
  also have "\<dots> < 2 ^ 1024" by simp
  finally show ?thesis using pos low high by (simp add: near_def fp_round_def Let_def)
qed

lemma near_mono:
  assumes "near m y x" and "m \<le> n" and "0 \<le> y" shows "near n y x"
proof -
  obtain v where v: "x = Fin v" "y * shrink ^ m \<le> v" "v * shrink ^ m \<le> y"
    using assms(1) by (auto simp: near_def)
  have le: "shrink ^ n \<le> shrink ^ m" using assms(2) by (intro power_decreasing) (simp_all add: less_imp_le)
  have "0 \<le> v" using v(2) assms(3) by (meson mult_nonneg_nonneg order_trans less_imp_le shrink_pos(3))
  then have "y * shrink ^ n \<le> y * shrink ^ m" "v * shrink ^ n \<le> v * shrink ^ m"
    using le assms(3) by (simp_all add: mult_left_mono)
  with v show ?thesis by (auto simp: near_def)
qed

lemma near_lit: "1 / 2 ^ 200 \<le> y \<Longrightarrow> y \<le> 2 ^ 200 \<Longrightarrow> near 1 y (f_lit y)"
  unfolding f_lit_def using near_round [of y 0 y] by simp

lemma near_fmul:
  assumes "near m y x" and "near n y' x'" and "0 < y" and "0 < y'" and "m + n \<le> 100"
    and "1 / 2 ^ 200 \<le> y * y'" and "y * y' \<le> 2 ^ 200" and "k = Suc (m + n)"
  shows "near k (y * y') (fmul x x')"
proof -
  obtain v where v: "x = Fin v" "y * shrink ^ m \<le> v" "v * shrink ^ m \<le> y"
    using assms(1) by (auto simp: near_def)
  obtain w where w: "x' = Fin w" "y' * shrink ^ n \<le> w" "w * shrink ^ n \<le> y'"
    using assms(2) by (auto simp: near_def)
  have pos: "0 < v" "0 < w"
    using near_range(3) [OF assms(3) v(2,3)] near_range(3) [OF assms(4) w(2,3)] assms(5) by simp_all
  have "(y * shrink ^ m) * (y' * shrink ^ n) \<le> v * w"
    using v(2) w(2) pos assms(4) by (intro mult_mono) simp_all
  moreover have "(v * shrink ^ m) * (w * shrink ^ n) \<le> y * y'"
    using v(3) w(3) pos assms(3) by (intro mult_mono) simp_all
  ultimately show ?thesis
    using assms(5-8) pos near_round [of "y * y'" "m + n" "v * w" False]
    by (simp add: v(1) w(1) power_add ac_simps)
qed

lemma near_fdiv:
  assumes "near m y x" and "near n y' x'" and "0 < y" and "0 < y'" and "m + n \<le> 100"
    and "1 / 2 ^ 200 \<le> y / y'" and "y / y' \<le> 2 ^ 200" and "k = Suc (m + n)"
  shows "near k (y / y') (fdiv x x')"
proof -
  obtain v where v: "x = Fin v" "y * shrink ^ m \<le> v" "v * shrink ^ m \<le> y"
    using assms(1) by (auto simp: near_def)
  obtain w where w: "x' = Fin w" "y' * shrink ^ n \<le> w" "w * shrink ^ n \<le> y'"
    using assms(2) by (auto simp: near_def)
  have pos: "0 < v" "0 < w"
    using near_range(3) [OF assms(3) v(2,3)] near_range(3) [OF assms(4) w(2,3)] assms(5) by simp_all
  have "(y * shrink ^ m) * (w * shrink ^ n) \<le> v * y'"
    using v(2) w(3) pos assms(4) by (intro mult_mono) simp_all
  then have "y / y' * shrink ^ (m + n) \<le> v / w"
    using pos assms(4) by (simp add: power_add field_simps)
  moreover have "(v * shrink ^ m) * (y' * shrink ^ n) \<le> y * w"
    using v(3) w(2) pos assms(3,4) by (intro mult_mono) simp_all
  then have "v / w * shrink ^ (m + n) \<le> y / y'"
    using pos assms(4) by (simp add: power_add field_simps)
  ultimately show ?thesis
    using assms(5-8) pos near_round [of "y / y'" "m + n" "v / w" False] by (simp add: v(1) w(1))
qed

lemma near_one_plus:
  assumes "near n y x" and "0 < y" and "n \<le> 100" and "y \<le> 2 ^ 199" and "k = Suc n"
  shows "near k (1 + y) (fadd (Fin 1) x)"
proof -
  obtain v where v: "x = Fin v" "y * shrink ^ n \<le> v" "v * shrink ^ n \<le> y"
    using assms(1) by (auto simp: near_def)
  have "1 + y \<le> 2 ^ 200" using assms(4) by simp
  moreover have "1 / 2 ^ 200 \<le> 1 + y" using assms(2) by (simp add: divide_le_eq)
  moreover have "(1 + y) * shrink ^ n \<le> 1 + v" "(1 + v) * shrink ^ n \<le> 1 + y"
    using v shrink_le_1 [of n] by (simp_all add: distrib_right add_mono)
  ultimately have "near (Suc n) (1 + y) (fp_round False (1 + v))"
    using assms(3) by (intro near_round) simp_all
  then show ?thesis by (simp add: v(1) assms(5))
qed

text \<open>Up to eight roundings are a relative error of at most \<open>2^-49\<close>.\<close>

lemma near_error:
  assumes "near n y x" and "n \<le> 8" and "0 < y"
  shows "\<exists>r. x = Fin r \<and> \<bar>r - y\<bar> \<le> y / 2 ^ 49"
proof -
  have "near 8 y x" using near_mono [OF assms(1,2)] assms(3) by simp
  then obtain r where r: "x = Fin r" "y * shrink ^ 8 \<le> r" "r * shrink ^ 8 \<le> y"
    by (auto simp: near_def)
  note rr = near_range [OF assms(3) r(2,3)]
  have "y * (1 - 8 / 2 ^ 53) \<le> y * shrink ^ 8" "r * (1 - 8 / 2 ^ 53) \<le> r * shrink ^ 8"
    using shrink_bound [of 8] assms(3) rr(3) by (intro mult_left_mono; simp)+
  with r(2,3) have "y * (1 - 8 / 2 ^ 53) \<le> r" "r * (1 - 8 / 2 ^ 53) \<le> y" by linarith+
  with rr(2) have "r - y \<le> y / 2 ^ 49" "y - r \<le> y / 2 ^ 49" by (simp_all add: field_simps)
  then have "\<bar>r - y\<bar> \<le> y / 2 ^ 49" by (simp only: abs_le_iff minus_diff_eq)
  with r(1) show ?thesis by blast
qed

lemma near_of_nat:
  assumes "1 \<le> n" and "n \<le> 2 ^ 200" shows "near 1 (of_nat n) (f_of_nat n)"
proof -
  have "1 \<le> (of_nat n :: rat)" "(of_nat n :: rat) \<le> 2 ^ 200"
    using assms(1) of_nat_le_power [OF assms(2)] by simp_all
  then have "1 / 2 ^ 200 \<le> (of_nat n :: rat)" "(of_nat n :: rat) \<le> 2 ^ 200"
    by (simp_all add: divide_le_eq)
  then show ?thesis unfolding f_of_nat_def using near_round [of "of_nat n" 0 "of_nat n"] by simp
qed

section \<open>Magnitudes of either sign\<close>

text \<open>
  \<open>mag b x\<close>: \<open>x\<close> is a zero or a finite double of magnitude at most \<open>2^b\<close>; \<open>band a b x\<close>: its
  magnitude is also at least \<open>2^a\<close>. The exponents may be negative.
\<close>

definition mag :: "int \<Rightarrow> fp \<Rightarrow> bool" where
  "mag b x \<longleftrightarrow> x = FNegZero \<or> (\<exists>v. x = Fin v \<and> \<bar>v\<bar> \<le> 2 powi b)"

definition band :: "int \<Rightarrow> int \<Rightarrow> fp \<Rightarrow> bool" where
  "band a b x \<longleftrightarrow> (\<exists>v. x = Fin v \<and> 2 powi a \<le> \<bar>v\<bar> \<and> \<bar>v\<bar> \<le> 2 powi b)"

lemma powi_pos: "0 < (2 :: rat) powi b"
  by (rule zero_less_power_int) simp

lemma mag_Fin [simp]: "mag b (Fin v) \<longleftrightarrow> \<bar>v\<bar> \<le> 2 powi b"
  by (simp add: mag_def)

lemma mag_cases:
  assumes "mag b x"
  obtains "x = FNegZero" | v where "x = Fin v" and "\<bar>v\<bar> \<le> 2 powi b"
  using assms by (auto simp: mag_def)

lemma mag_fval: "mag b x \<Longrightarrow> \<bar>fval x\<bar> \<le> 2 powi b"
  by (auto elim: mag_cases)

lemma mag_mono:
  assumes "mag a x" and "a \<le> b" shows "mag b x"
proof -
  have "(2 :: rat) powi a \<le> 2 powi b" using assms(2) by (intro power_int_increasing) simp_all
  from order_trans [OF _ this] assms(1) show ?thesis by (auto simp: mag_def)
qed

lemma representable_powi: "\<bar>b\<bar> \<le> 1000 \<Longrightarrow> representable (2 powi b)"
  by (rule representable_power) simp

lemma rnd64_powi_bounds:
  assumes "\<bar>b\<bar> \<le> 1000"
  shows "\<bar>x\<bar> \<le> 2 powi b \<Longrightarrow> \<bar>rnd64 x\<bar> \<le> 2 powi b" and "2 powi b \<le> \<bar>x\<bar> \<Longrightarrow> 2 powi b \<le> \<bar>rnd64 x\<bar>"
proof -
  note r = representable_powi [OF assms]
  then have m: "representable (- (2 powi b))" by simp
  show "\<bar>rnd64 x\<bar> \<le> 2 powi b" if "\<bar>x\<bar> \<le> 2 powi b"
    using rnd64_le [OF r, of x] rnd64_ge [OF m, of x] that unfolding abs_le_iff by linarith
  show "2 powi b \<le> \<bar>rnd64 x\<bar>" if "2 powi b \<le> \<bar>x\<bar>"
    using rnd64_ge [OF r, of x] rnd64_le [OF m, of x] that by (cases "0 \<le> x") linarith+
qed

lemma powi_below_overflow: "\<bar>b\<bar> \<le> 1000 \<Longrightarrow> (2 :: rat) powi b < 2 ^ 1024"
proof -
  assume "\<bar>b\<bar> \<le> 1000"
  then have "(2 :: rat) powi b \<le> 2 powi 1000" by (intro power_int_increasing) simp_all
  also have "\<dots> < 2 ^ 1024" by simp
  finally show ?thesis .
qed

lemma mag_round:
  assumes "\<bar>x\<bar> \<le> 2 powi b" and "\<bar>b\<bar> \<le> 1000" shows "mag b (fp_round neg x)"
  using rnd64_powi_bounds(1) [OF assms(2,1)] powi_below_overflow [OF assms(2)]
  by (auto simp: mag_def fp_round_def Let_def)

lemma band_round:
  assumes "2 powi a \<le> \<bar>x\<bar>" and "\<bar>x\<bar> \<le> 2 powi b" and "\<bar>a\<bar> \<le> 1000" and "\<bar>b\<bar> \<le> 1000"
  shows "band a b (fp_round neg x)"
proof -
  have "rnd64 x \<noteq> 0"
    using rnd64_powi_bounds(2) [OF assms(3,1)] powi_pos [of a] by (metis abs_zero not_le)
  then show ?thesis
    using rnd64_powi_bounds(2) [OF assms(3,1)] rnd64_powi_bounds(1) [OF assms(4,2)]
      powi_below_overflow [OF assms(4)]
    by (auto simp: band_def fp_round_def Let_def)
qed

lemma mag_fmul:
  assumes "mag a x" and "mag b y" and "\<bar>a + b\<bar> \<le> 1000" shows "mag (a + b) (fmul x y)"
proof -
  have "\<bar>fval x * fval y\<bar> \<le> 2 powi (a + b)"
    using mag_fval [OF assms(1)] mag_fval [OF assms(2)]
    by (simp add: abs_mult power_int_add mult_mono)
  then have "mag (a + b) (fp_round neg (fval x * fval y))" for neg
    using assms(3) by (intro mag_round) auto
  moreover have "\<exists>neg. fmul x y = fp_round neg (fval x * fval y)"
    using assms(1,2) by (auto elim!: mag_cases)
  ultimately show ?thesis by auto
qed

lemma band_fmul:
  assumes "band a b x" and "band a' b' y" and "\<bar>a + a'\<bar> \<le> 1000" and "\<bar>b + b'\<bar> \<le> 1000"
  shows "band (a + a') (b + b') (fmul x y)"
proof -
  obtain v w where v: "x = Fin v" "2 powi a \<le> \<bar>v\<bar>" "\<bar>v\<bar> \<le> 2 powi b"
    and w: "y = Fin w" "2 powi a' \<le> \<bar>w\<bar>" "\<bar>w\<bar> \<le> 2 powi b'"
    using assms(1,2) by (auto simp: band_def)
  have "2 powi (a + a') \<le> \<bar>v * w\<bar>" "\<bar>v * w\<bar> \<le> 2 powi (b + b')"
    using v w by (simp_all add: abs_mult power_int_add mult_mono)
  then have "band (a + a') (b + b') (fp_round neg (v * w))" for neg
    using assms(3,4) by (intro band_round)
  then show ?thesis by (simp add: v(1) w(1))
qed

lemma mag_fdiv:
  assumes "mag b x" and "band a' b' y" and "\<bar>b - a'\<bar> \<le> 1000" shows "mag (b - a') (fdiv x y)"
proof -
  obtain w where w: "y = Fin w" "2 powi a' \<le> \<bar>w\<bar>" using assms(2) by (auto simp: band_def)
  have w0: "w \<noteq> 0" using w(2) powi_pos [of a'] by (metis abs_zero not_le)
  have "\<bar>fval x\<bar> / \<bar>w\<bar> \<le> 2 powi b / 2 powi a'"
    using mag_fval [OF assms(1)] w(2) by (intro frac_le) simp_all
  then have "\<bar>fval x / w\<bar> \<le> 2 powi (b - a')" by (simp add: power_int_diff)
  then have "mag (b - a') (fp_round neg (fval x / w))" for neg
    using assms(3) by (intro mag_round) auto
  moreover have "\<exists>neg. fdiv x y = fp_round neg (fval x / w)"
    using assms(1) w0 by (auto elim!: mag_cases simp: w(1))
  ultimately show ?thesis by auto
qed

lemma mag_fadd:
  assumes "mag b x" and "mag b y" and "\<bar>b + 1\<bar> \<le> 1000" shows "mag (b + 1) (fadd x y)"
proof -
  have "\<bar>fval x + fval y\<bar> \<le> 2 powi (b + 1)"
    using mag_fval [OF assms(1)] mag_fval [OF assms(2)] by (simp add: abs_le_iff power_int_add)
  then have "mag (b + 1) (fp_round False (fval x + fval y))"
    using assms(3) by (intro mag_round) auto
  moreover have "fadd x y = fp_round False (fval x + fval y) \<or> fadd x y = FNegZero"
    using assms(1,2) by (auto elim!: mag_cases)
  ultimately show ?thesis by (auto simp: mag_def)
qed

lemma mag_gap: "\<bar>v - w\<bar> \<le> 2 powi b \<Longrightarrow> \<bar>b\<bar> \<le> 1000 \<Longrightarrow> mag b (fsub (Fin v) (Fin w))"
  unfolding fsub_Fin by (rule mag_round)

lemma band_gap:
  "2 powi a \<le> \<bar>v - w\<bar> \<Longrightarrow> \<bar>v - w\<bar> \<le> 2 powi b \<Longrightarrow> \<bar>a\<bar> \<le> 1000 \<Longrightarrow> \<bar>b\<bar> \<le> 1000 \<Longrightarrow>
     band a b (fsub (Fin v) (Fin w))"
  unfolding fsub_Fin by (rule band_round)

lemma not_fless_mag:
  assumes "spans 1 b x" and "mag (- 7) y" shows "\<not> fless x y"
proof -
  obtain v where v: "x = Fin v" "1 / 2 ^ 1 \<le> v" using assms(1) by (rule spans_cases)
  have "\<bar>fval y\<bar> \<le> 1 / 128"
    using mag_fval [OF assms(2)] by (simp add: power_int_def power_one_over)
  with v assms(2) show ?thesis by (auto elim!: mag_cases)
qed

end
