(* ===== verification/Theta_Estimates.thy ===== *)
theory Theta_Estimates
  imports Theta_Built Accuracy
begin

text \<open>
  What the Theta sketch retains and reports as its estimate: without sampling the exact number of
  distinct hashes as long as they fit, and otherwise the quotient of the retained hashes and
  theta, up to rounding.
\<close>

text \<open>
  C16: what a sketch keeps. For a sketch of any nominal size and sampling probability, built by any
  updates and merges, let \<open>D\<close> be the hashes of its keys that are not zero and below the initial
  theta. It retains all of \<open>D\<close> or \<open>2^lg_k\<close> hashes, whichever is less. It is in estimation mode exactly
  when \<open>D\<close> has more hashes than that, or it is sampled and not empty. Without sampling the
  estimate is the number of hashes in \<open>D\<close> itself as long as they fit.
\<close>

theorem theta_exact_count:
  assumes "cub_ok pf" and "built pf lg_k seed p H s" and "checked_theta p = Inr theta0"
    and "D = {h \<in> H. h \<noteq> 0 \<and> h < theta0}"
  shows "get_num_retained s = min (2 ^ unat lg_k) (card D) \<and>
    (is_estimation_mode s \<longleftrightarrow> 2 ^ unat lg_k < card D \<or> theta0 < max_theta \<and> \<not> is_empty s) \<and>
    (theta0 = max_theta \<and> card D \<le> 2 ^ unat lg_k \<longrightarrow> get_estimate s = Fin (of_nat (card D)))"
proof -
  let ?k = "(2 :: nat) ^ unat lg_k" and ?t = "sk_theta s"
  have wf: "wf_sketch s" and init: "sk_initial_theta s = theta0"
    and sum: "summary ?k theta0 H ?t (sk_hashes s)"
    using built_canon [OF assms(1,3,2)] by (simp_all add: theta_canon_def)
  have len: "length (sk_hashes s) = card (below H ?t)" and le_k: "length (sk_hashes s) \<le> ?k"
    and le: "?t \<le> theta0" and low: "?t < theta0 \<Longrightarrow> ?k < card (up_to H ?t)"
    using sum by (auto simp: summary_def sample_length)
  have D: "D = below H theta0" and fin: "finite D" by (simp_all add: assms(4) below_def)
  have full: "length (sk_hashes s) = ?k \<and> ?k < card D" if "?t < theta0"
  proof -
    have "card (up_to H ?t) \<le> card D"
      using card_mono [OF fin] up_to_subset_below [OF that, of H] by (simp add: D)
    moreover have "card (up_to H ?t) \<le> card (insert ?t (below H ?t))"
      by (rule card_mono) (auto simp: up_to_def below_def)
    then have "card (up_to H ?t) \<le> Suc (card (below H ?t))"
      using card_insert_le_m1 [of "Suc (card (below H ?t))" "below H ?t" ?t] by simp
    ultimately show ?thesis using low [OF that] le_k len by simp
  qed
  then have exact: "?t = theta0 \<longleftrightarrow> card D \<le> ?k"
    using le le_k len D by (metis le_less not_less)
  have ret: "get_num_retained s = min ?k (card D)"
  proof (cases "?t < theta0")
    case True
    with full show ?thesis by (simp add: get_num_retained_def)
  next
    case False
    with le have "?t = theta0" by simp
    with exact len D show ?thesis by (simp add: get_num_retained_def)
  qed
  have le0: "theta0 \<le> max_theta" using wf init by (simp add: wf_sketch_def)
  have below: "?t < max_theta \<longleftrightarrow> ?k < card D \<or> theta0 < max_theta"
  proof (cases "?t = theta0")
    case True
    with exact show ?thesis by simp
  next
    case False
    with le have "?t < theta0" by simp
    then have "?t < max_theta" using le0 by (rule less_le_trans)
    with exact False show ?thesis by simp
  qed
  have "\<not> sk_is_empty s" if "?k < card D"
    using that exact wf init by (auto simp: wf_sketch_def)
  with below have mode: "is_estimation_mode s \<longleftrightarrow> ?k < card D \<or> theta0 < max_theta \<and> \<not> is_empty s"
    by (auto simp: is_estimation_mode_def is_empty_def)
  have "get_estimate s = Fin (of_nat (card D))" if "theta0 = max_theta" "card D \<le> ?k"
    using theta_exact_mode [OF wf] mode ret that by simp
  with ret mode show ?thesis by blast
qed

theorem theta_exact_count_witness:
  "\<exists>s t. built doubling_platform 5 9001 0x3f800000 (first_hashes 20) s \<and>
     \<not> is_estimation_mode s \<and> get_estimate s = Fin 20 \<and>
     built doubling_platform 5 9001 0x3f800000 (first_hashes 100) t \<and>
     is_estimation_mode t \<and> get_num_retained t = 32"
proof -
  have sub: "first_hashes n \<subseteq> hash_space" "card (first_hashes n) = n" if "n \<le> 100" for n
    using that first_hashes [of n] by (simp_all add: space_size_def)
  then have D: "first_hashes n = {h \<in> first_hashes n. h \<noteq> 0 \<and> h < max_theta}" if "n \<le> 100" for n
    using that by (auto simp: hash_space_def)
  obtain s t where b: "built doubling_platform 5 9001 0x3f800000 (first_hashes 20) s"
    "built doubling_platform 5 9001 0x3f800000 (first_hashes 100) t"
    using built_exists [OF sub(1) [of 20]] built_exists [OF sub(1) [of 100]] by auto
  note c = theta_exact_count [OF cub_ok_doubling _ checked_theta_default D]
  from c [OF b(1)] c [OF b(2)] b sub(2) [of 20] sub(2) [of 100] show ?thesis by auto
qed

text \<open>
  The estimate is the number of retained hashes divided by the share of the hash space below
  theta, with a relative error of at most \<open>2^-49\<close> from the conversions and the two divisions.
\<close>

theorem theta_estimate_accuracy:
  assumes "wf_sketch s"
    and "y = of_nat (length (sk_hashes s)) * (2 ^ 63 - 1) / of_nat (unat (effective_theta s))"
  shows "\<exists>r. get_estimate s = Fin r \<and> \<bar>r - y\<bar> \<le> y / 2 ^ 49"
proof -
  let ?n = "length (sk_hashes s)" and ?t = "unat (effective_theta s)"
  have m: "unat max_theta = 2 ^ 63 - 1" by (simp add: max_theta_def)
  have "effective_theta s \<noteq> 0" "effective_theta s \<le> max_theta"
    using assms(1) by (auto simp: effective_theta_def wf_sketch_def max_theta_def)
  then have t: "1 \<le> ?t" "?t \<le> 2 ^ 63 - 1"
    unfolding m [symmetric] by (simp_all add: word_le_nat_alt unat_gt_0 Suc_le_eq)
  have n: "?n \<le> 2 ^ 26" using assms(1) k_of_bounds(2) [of s] by (simp add: wf_sketch_def)
  define q where "q = of_nat ?t / (2 ^ 63 - 1 :: rat)"
  have tr: "1 \<le> (of_nat ?t :: rat)" "(of_nat ?t :: rat) \<le> 2 ^ 63 - 1"
    using of_nat_mono [OF t(1), where ?'a = rat] of_nat_mono [OF t(2), where ?'a = rat]
    by (simp_all add: of_nat_diff)
  have q: "1 / (2 ^ 63 - 1) \<le> q" "q \<le> 1"
    using divide_right_mono [OF tr(1), of "2 ^ 63 - 1"] divide_right_mono [OF tr(2), of "2 ^ 63 - 1"]
    by (simp_all add: q_def)
  have "near 1 (of_nat ?t) (f_of_nat ?t)" "near 1 (of_nat (2 ^ 63 - 1)) (f_of_nat (2 ^ 63 - 1))"
    using t by (intro near_of_nat; simp)+
  then have theta: "near 3 (of_nat ?t / of_nat (2 ^ 63 - 1)) (get_theta s)"
    unfolding get_theta_def get_theta64_def m
    by (rule near_fdiv) (use tr q in \<open>simp_all add: q_def of_nat_diff\<close>)
  have q': "of_nat ?t / of_nat (2 ^ 63 - 1) = q" by (simp add: q_def of_nat_diff)
  note theta = theta [unfolded q']
  have q0: "0 < q" using q(1) by (rule less_le_trans [rotated]) simp
  have y: "y = of_nat ?n / q" by (simp add: assms(2) q_def)
  show ?thesis
  proof (cases "?n = 0")
    case True
    obtain v where v: "get_theta s = Fin v" "q * shrink ^ 3 \<le> v" "v * shrink ^ 3 \<le> q"
      using theta by (auto simp: near_def)
    have "0 < v" using near_range(3) [OF q0 v(2,3)] by simp
    with True v(1) show ?thesis
      by (simp add: get_estimate_def get_num_retained_def f_of_nat_def fp_round_def y)
  next
    case False
    then have n1: "1 \<le> ?n" by linarith
    have nr: "1 \<le> (of_nat ?n :: rat)" "(of_nat ?n :: rat) \<le> 2 ^ 26"
      using n1 of_nat_le_power [OF n] by simp_all
    have y': "1 / 1 \<le> of_nat ?n / q" "of_nat ?n / q \<le> 2 ^ 26 / (1 / (2 ^ 63 - 1))"
      using nr q q0 frac_le [OF _ nr(1) q0 q(2)] frac_le [OF _ nr(2) _ q(1)] by simp_all
    have "near 1 (of_nat ?n) (f_of_nat ?n)" using n1 n by (intro near_of_nat) simp_all
    then have "near 5 (of_nat ?n / q) (get_estimate s)"
      unfolding get_estimate_def get_num_retained_def
      by (rule near_fdiv [OF _ theta _ q0 _ order_trans [OF _ y'(1)] order_trans [OF y'(2)]])
        (use False in simp_all)
    moreover have "0 < of_nat ?n / q" using nr(1) q0 by (intro divide_pos_pos) linarith+
    ultimately show ?thesis using near_error [of 5 "of_nat ?n / q"] unfolding y by simp
  qed
qed

theorem theta_estimate_accuracy_witness:
  "\<exists>r. get_estimate (filled\<lparr>sk_theta := 2 ^ 62\<rparr>) = Fin r \<and> \<bar>r - (4 - 1 / 2 ^ 61)\<bar> \<le> 4 / 2 ^ 49"
proof -
  have wf: "wf_sketch (filled\<lparr>sk_theta := 2 ^ 62\<rparr>)"
    by (simp add: wf_sketch_def filled_def fresh_def min_lg_k_def max_lg_k_def max_theta_def
        min_survivor_budget_def k_of_def word_le_nat_alt)
  have l: "length (sk_hashes (filled\<lparr>sk_theta := 2 ^ 62\<rparr>)) = 2"
    and u: "unat (effective_theta (filled\<lparr>sk_theta := 2 ^ 62\<rparr>)) = 2 ^ 62"
    by (simp_all add: filled_def fresh_def effective_theta_def)
  have "(4 - 1 / 2 ^ 61 :: rat) = of_nat (length (sk_hashes (filled\<lparr>sk_theta := 2 ^ 62\<rparr>))) * (2 ^ 63 - 1) /
      of_nat (unat (effective_theta (filled\<lparr>sk_theta := 2 ^ 62\<rparr>)))"
    unfolding l u by simp
  from theta_estimate_accuracy [OF wf this] show ?thesis by (force intro: order_trans)
qed

end
