(* ===== verification/Order_Statistics.thy ===== *)
theory Order_Statistics
  imports Complex_Main
begin

text \<open>
  Averages over all subsets of a given size: how often an element is the one with \<open>a\<close> smaller
  ones, and the mean of the reciprocal of that element. This is what the expectation of an estimator
  that keeps the smallest hashes rests on, when the hashes are distinct and uniform.
\<close>

section \<open>Ranks\<close>

definition rank :: "'a :: linorder set \<Rightarrow> 'a \<Rightarrow> nat" where
  "rank H x = card {h \<in> H. h < x}"

definition subsets_of :: "'a set \<Rightarrow> nat \<Rightarrow> 'a set set" where
  "subsets_of U n = {H. H \<subseteq> U \<and> card H = n}"

lemma finite_subsets_of [simp]: "finite U \<Longrightarrow> finite (subsets_of U n)"
  by (simp add: subsets_of_def)

lemma card_subsets_of: "finite U \<Longrightarrow> card (subsets_of U n) = card U choose n"
  by (simp add: subsets_of_def n_subsets)

lemma rank_mono:
  assumes "finite H" and "x \<in> H" and "x < y" shows "rank H x < rank H y"
  unfolding rank_def by (rule psubset_card_mono) (use assms in \<open>auto intro: less_trans\<close>)

lemma rank_unique: "finite H \<Longrightarrow> x \<in> H \<Longrightarrow> y \<in> H \<Longrightarrow> rank H x = rank H y \<Longrightarrow> x = y"
  by (metis less_irrefl linorder_neq_iff rank_mono)

lemma rank_exists:
  assumes "finite H" and "a < card H" shows "\<exists>x \<in> H. rank H x = a"
proof -
  have "inj_on (rank H) H" by (rule inj_onI) (rule rank_unique [OF assms(1)])
  then have "card (rank H ` H) = card H" by (rule card_image)
  moreover have "rank H x < card H" if "x \<in> H" for x
    unfolding rank_def by (rule psubset_card_mono) (use that assms(1) in auto)
  ultimately have "rank H ` H = {..<card H}" by (intro card_subset_eq) auto
  with assms(2) show ?thesis by (metis imageE lessThan_iff)
qed

lemma card_ranked:
  assumes "finite U" and "x \<in> U"
  shows "card {H \<in> subsets_of U (a + b + 1). x \<in> H \<and> rank H x = a} =
    (card {h \<in> U. h < x} choose a) * (card {h \<in> U. x < h} choose b)"
proof -
  let ?L = "{h \<in> U. h < x}" and ?R = "{h \<in> U. x < h}"
  let ?join = "\<lambda>(A, B). insert x (A \<union> B)" and ?split = "\<lambda>H. ({h \<in> H. h < x}, {h \<in> H. x < h})"
  have low: "{h \<in> insert x (A \<union> B). h < x} = A" and high: "{h \<in> insert x (A \<union> B). x < h} = B"
    if "A \<subseteq> ?L" "B \<subseteq> ?R" for A B using that by auto
  have whole: "H = insert x ({h \<in> H. h < x} \<union> {h \<in> H. x < h})" if "x \<in> H" for H
    using that by (auto simp: not_less_iff_gr_or_eq)
  have size: "card (insert x (A \<union> B)) = card A + card B + 1" if "A \<subseteq> ?L" "B \<subseteq> ?R" for A B
  proof -
    have fin: "finite A" "finite B" using that assms(1) by (auto intro: finite_subset)
    have "card (A \<union> B) = card A + card B" using that by (intro card_Un_disjoint fin) force
    moreover have "x \<notin> A \<union> B" using that by auto
    ultimately show ?thesis using fin by simp
  qed
  have "bij_betw ?join (subsets_of ?L a \<times> subsets_of ?R b)
      {H \<in> subsets_of U (a + b + 1). x \<in> H \<and> rank H x = a}"
  proof (rule bij_betw_byWitness [where f' = ?split])
    show "\<forall>P \<in> subsets_of ?L a \<times> subsets_of ?R b. ?split (?join P) = P"
      using low high by (auto simp: subsets_of_def)
    show "\<forall>H \<in> {H \<in> subsets_of U (a + b + 1). x \<in> H \<and> rank H x = a}. ?join (?split H) = H"
      using whole by auto
    show "?join ` (subsets_of ?L a \<times> subsets_of ?R b) \<subseteq> {H \<in> subsets_of U (a + b + 1). x \<in> H \<and> rank H x = a}"
    proof
      fix H assume "H \<in> ?join ` (subsets_of ?L a \<times> subsets_of ?R b)"
      then obtain A B where H: "H = insert x (A \<union> B)"
        and A: "A \<subseteq> ?L" "card A = a" and B: "B \<subseteq> ?R" "card B = b"
        by (auto simp: subsets_of_def)
      have "A \<subseteq> U" "B \<subseteq> U" using A B by auto
      with size [OF A(1) B(1)] low [OF A(1) B(1)] assms(2) A(2) B(2)
      show "H \<in> {H \<in> subsets_of U (a + b + 1). x \<in> H \<and> rank H x = a}"
        by (simp add: rank_def H subsets_of_def)
    qed
    show "?split ` {H \<in> subsets_of U (a + b + 1). x \<in> H \<and> rank H x = a} \<subseteq> subsets_of ?L a \<times> subsets_of ?R b"
    proof (clarsimp simp: subsets_of_def rank_def)
      fix H assume H: "H \<subseteq> U" "card H = Suc (card {h \<in> H. h < x} + b)" "x \<in> H"
      have "card H = card {h \<in> H. h < x} + card {h \<in> H. x < h} + 1"
        using size [of "{h \<in> H. h < x}" "{h \<in> H. x < h}"] whole [OF H(3)] H(1) by auto
      then show "{h \<in> H. h < x} \<subseteq> ?L \<and> {h \<in> H. x < h} \<subseteq> ?R \<and> card {h \<in> H. x < h} = b"
        using H by auto
    qed
  qed
  then show ?thesis using assms(1) by (simp add: bij_betw_same_card [symmetric] card_cartesian_product card_subsets_of)
qed

text \<open>A sum over subsets of a function of the element of rank \<open>a\<close>, element by element.\<close>

lemma sum_ranked:
  fixes g :: "'a :: linorder \<Rightarrow> rat"
  assumes "finite U" and "\<And>H. H \<in> subsets_of U (a + b + 1) \<Longrightarrow> t H \<in> H \<and> rank H (t H) = a"
  shows "(\<Sum>H \<in> subsets_of U (a + b + 1). g (t H)) =
    (\<Sum>x \<in> U. of_nat ((card {h \<in> U. h < x} choose a) * (card {h \<in> U. x < h} choose b)) * g x)"
proof -
  have fin: "finite H" if "H \<in> subsets_of U n" for H n
    using that assms(1) by (auto simp: subsets_of_def intro: finite_subset)
  have at: "{H \<in> subsets_of U (a + b + 1). t H = x} = {H \<in> subsets_of U (a + b + 1). x \<in> H \<and> rank H x = a}" for x
    using assms(2) rank_unique [OF fin] by blast
  have "(\<Sum>H \<in> subsets_of U (a + b + 1). g (t H)) =
      (\<Sum>x \<in> U. \<Sum>H \<in> {H \<in> subsets_of U (a + b + 1). t H = x}. g (t H))"
    by (rule sum.group [symmetric]) (use assms in \<open>auto simp: subsets_of_def\<close>)
  also have "\<dots> = (\<Sum>x \<in> U. of_nat (card {H \<in> subsets_of U (a + b + 1). t H = x}) * g x)" by simp
  finally show ?thesis
    unfolding at by (simp only: card_ranked [OF assms(1)] cong: sum.cong)
qed

lemma sum_choose_ranks:
  fixes U :: "'a :: linorder set"
  assumes "finite U"
  shows "(\<Sum>x \<in> U. (card {h \<in> U. h < x} choose a) * (card {h \<in> U. x < h} choose b)) = card U choose (a + b + 1)"
proof -
  have fin: "finite H" if "H \<in> subsets_of U n" for H n
    using that assms by (auto simp: subsets_of_def intro: finite_subset)
  have "\<exists>x \<in> H. rank H x = a" if "H \<in> subsets_of U (a + b + 1)" for H
    using rank_exists [OF fin [OF that], of a] that by (simp add: subsets_of_def)
  then obtain t where "\<And>H. H \<in> subsets_of U (a + b + 1) \<Longrightarrow> t H \<in> H \<and> rank H (t H) = a" by metis
  from sum_ranked [OF assms this, where g = "\<lambda>_. 1"]
  have "(of_nat (card U choose (a + b + 1)) :: rat) =
      of_nat (\<Sum>x \<in> U. (card {h \<in> U. h < x} choose a) * (card {h \<in> U. x < h} choose b))"
    using assms by (simp add: card_subsets_of)
  then show ?thesis by (simp only: of_nat_eq_iff)
qed

section \<open>Reciprocals\<close>

text \<open>
  Among \<open>1, \<dots>, N\<close>, \<open>x - 1\<close> elements are below \<open>x\<close> and \<open>N - x\<close> above. Cancelling factors of the first
  binomial coefficient leaves the count of the same problem with fewer elements.
\<close>

lemma choose_ranks_shifted:
  "(\<Sum>x \<in> {m + 1..N}. (x - (m + 1) choose a) * (N - x choose b)) = N - m choose (a + b + 1)"
proof -
  have "card {h \<in> {m + 1..N}. h < x} = x - (m + 1)" "card {h \<in> {m + 1..N}. x < h} = N - x" if "x \<in> {m + 1..N}" for x
  proof -
    have "{h \<in> {m + 1..N}. h < x} = {m + 1..<x}" "{h \<in> {m + 1..N}. x < h} = {x<..N}" using that by auto
    then show "card {h \<in> {m + 1..N}. h < x} = x - (m + 1)" "card {h \<in> {m + 1..N}. x < h} = N - x" by simp_all
  qed
  with sum_choose_ranks [of "{m + 1..N}" a b] show ?thesis by simp
qed

lemma choose_absorb:
  "0 < k \<Longrightarrow> (of_nat (n choose k) :: rat) * of_nat k = of_nat n * of_nat (n - 1 choose (k - 1))"
  using times_binomial_minus1_eq [of k n] by (metis mult.commute of_nat_mult)

lemma cancel_reciprocal:
  fixes a b c k x :: rat
  assumes "a * k = x * c" and "x \<noteq> 0" shows "a * b * (1 / x) * k = c * b"
proof -
  have "a * b * (1 / x) * k = (a * k) * b / x" by simp
  then show ?thesis using assms by simp
qed

lemma sum_reciprocals:
  assumes "1 \<le> k"
  shows "(\<Sum>x \<in> {1..N}. of_nat ((x - 1 choose k) * (N - x choose b)) * (1 / of_nat (x - 1)) :: rat) * of_nat k * of_nat N =
    of_nat (k + b + 1) * of_nat (N choose (k + b + 1))"
proof -
  have shift: "of_nat ((x - 1 choose k) * (N - x choose b)) * (1 / of_nat (x - 1) :: rat) * of_nat k =
      of_nat ((x - 2 choose (k - 1)) * (N - x choose b))" if "x \<in> {2..N}" for x
  proof -
    have "x - 1 - 1 = x - 2" by simp
    with choose_absorb [of k "x - 1"] assms
    have "(of_nat (x - 1 choose k) :: rat) * of_nat k = of_nat (x - 1) * of_nat (x - 2 choose (k - 1))" by simp
    from cancel_reciprocal [OF this] that show ?thesis by simp
  qed
  have "(\<Sum>x \<in> {1..N}. of_nat ((x - 1 choose k) * (N - x choose b)) * (1 / of_nat (x - 1)) :: rat) =
      (\<Sum>x \<in> {2..N}. of_nat ((x - 1 choose k) * (N - x choose b)) * (1 / of_nat (x - 1)))"
    by (rule sum.mono_neutral_right) (use assms in \<open>auto simp: Suc_le_eq\<close>)
  then have "(\<Sum>x \<in> {1..N}. of_nat ((x - 1 choose k) * (N - x choose b)) * (1 / of_nat (x - 1)) :: rat) * of_nat k =
      of_nat (\<Sum>x \<in> {2..N}. (x - 2 choose (k - 1)) * (N - x choose b))"
    unfolding of_nat_sum by (simp only: sum_distrib_right shift cong: sum.cong)
  also have "\<dots> = of_nat (N - 1 choose (k + b))"
  proof -
    have "k - 1 + b + 1 = k + b" using assms by simp
    then show ?thesis using choose_ranks_shifted [where m = 1 and a = "k - 1" and b = b and N = N]
      by (simp only: one_add_one)
  qed
  finally show ?thesis using choose_absorb [of "k + b + 1" N] by (simp add: mult_ac)
qed

lemma sum_reciprocal_products:
  assumes "2 \<le> k"
  shows "(\<Sum>x \<in> {1..N}. of_nat ((x - 1 choose k) * (N - x choose b)) * (1 / (of_nat (x - 1) * of_nat (x - 2))) :: rat) *
      of_nat k * of_nat (k - 1) * of_nat N * of_nat (N - 1) =
    of_nat (k + b + 1) * of_nat (k + b) * of_nat (N choose (k + b + 1))"
proof -
  have shift: "of_nat ((x - 1 choose k) * (N - x choose b)) * (1 / (of_nat (x - 1) * of_nat (x - 2)) :: rat) *
      of_nat k * of_nat (k - 1) = of_nat ((x - 3 choose (k - 2)) * (N - x choose b))" if "x \<in> {3..N}" for x
  proof -
    have eqs: "x - 1 - 1 = x - 2" "x - 2 - 1 = x - 3" "k - 1 - 1 = k - 2" by simp_all
    have "(of_nat (x - 1 choose k) :: rat) * of_nat k * of_nat (k - 1) =
        of_nat (x - 1) * (of_nat (x - 2 choose (k - 1)) * of_nat (k - 1))"
      using choose_absorb [of k "x - 1"] assms unfolding eqs by simp
    also have "\<dots> = of_nat (x - 1) * of_nat (x - 2) * of_nat (x - 3 choose (k - 2))"
      using choose_absorb [of "k - 1" "x - 2"] assms unfolding eqs by simp
    finally have "(of_nat (x - 1 choose k) :: rat) * (of_nat k * of_nat (k - 1)) =
        of_nat (x - 1) * of_nat (x - 2) * of_nat (x - 3 choose (k - 2))" by (simp only: mult.assoc)
    from cancel_reciprocal [OF this, of "of_nat (N - x choose b)"] that show ?thesis
      by (simp add: mult.assoc)
  qed
  have "(\<Sum>x \<in> {1..N}. of_nat ((x - 1 choose k) * (N - x choose b)) * (1 / (of_nat (x - 1) * of_nat (x - 2))) :: rat) =
      (\<Sum>x \<in> {3..N}. of_nat ((x - 1 choose k) * (N - x choose b)) * (1 / (of_nat (x - 1) * of_nat (x - 2))))"
    by (rule sum.mono_neutral_right) (use assms in \<open>auto simp: binomial_eq_0\<close>)
  then have "(\<Sum>x \<in> {1..N}. of_nat ((x - 1 choose k) * (N - x choose b)) * (1 / (of_nat (x - 1) * of_nat (x - 2))) :: rat) *
      of_nat k * of_nat (k - 1) = of_nat (\<Sum>x \<in> {3..N}. (x - 3 choose (k - 2)) * (N - x choose b))"
    unfolding of_nat_sum by (simp only: sum_distrib_right shift cong: sum.cong)
  also have "\<dots> = of_nat (N - 2 choose (k + b - 1))"
  proof -
    have "k - 2 + b + 1 = k + b - 1" "(2 :: nat) + 1 = 3" using assms by simp_all
    then show ?thesis using choose_ranks_shifted [where m = 2 and a = "k - 2" and b = b and N = N]
      by (simp only:)
  qed
  finally show ?thesis
    using choose_absorb [of "k + b + 1" N] choose_absorb [of "k + b" "N - 1"] assms
    by (simp add: mult_ac numeral_2_eq_2)
qed

end
