(* ===== verification/Theta_Statistics.thy ===== *)
theory Theta_Statistics
  imports Theta_Estimates Order_Statistics
begin

text \<open>
  The statistical promise of the Theta sketch without sampling. The hashes of \<open>n\<close> distinct keys
  are taken to be \<open>n\<close> distinct values of the hash space, every choice of them equally likely; a
  mean is a mean over all these choices. Beyond the nominal size theta is the hash with \<open>2^lg_k\<close> smaller ones.
\<close>

section \<open>Means over hash sets\<close>

definition mean_over :: "'a set \<Rightarrow> ('a \<Rightarrow> rat) \<Rightarrow> rat" where
  "mean_over S f = (\<Sum>x \<in> S. f x) / of_nat (card S)"

lemma hash_ranks:
  assumes "x \<in> hash_space"
  shows "card {h \<in> hash_space. h < x} = unat x - 1" and "card {h \<in> hash_space. x < h} = space_size - unat x"
proof -
  have x: "1 \<le> unat x" "unat x \<le> space_size"
    using assms unat_hash_space by (auto simp: bij_betw_def)
  have part: "card {h \<in> hash_space. P (unat h)} = card {y \<in> {1..space_size}. P y}" for P
  proof (rule bij_betw_same_card [of unat])
    have "unat ` {h \<in> hash_space. P (unat h)} = {y \<in> {1..space_size}. P y}"
      unfolding bij_betw_imp_surj_on [OF unat_hash_space, symmetric] by blast
    then show "bij_betw unat {h \<in> hash_space. P (unat h)} {y \<in> {1..space_size}. P y}"
      by (simp add: bij_betw_def inj_on_def word_unat_eq_iff)
  qed
  have "{y \<in> {1..space_size}. y < unat x} = {1..<unat x}" "{y \<in> {1..space_size}. unat x < y} = {unat x<..space_size}"
    using x by auto
  then show "card {h \<in> hash_space. h < x} = unat x - 1" "card {h \<in> hash_space. x < h} = space_size - unat x"
    using part [of "\<lambda>y. y < unat x"] part [of "\<lambda>y. unat x < y"] by (simp_all add: word_less_nat_alt)
qed

lemma sum_hash_space:
  "(\<Sum>x \<in> hash_space. f (unat x)) = (\<Sum>x \<in> {1..space_size}. f x)"
  by (rule sum.reindex_bij_betw [OF unat_hash_space])

section \<open>The two moments\<close>

lemma threshold_moments:
  fixes t :: "u64 set \<Rightarrow> u64"
  assumes "\<And>H. H \<in> subsets_of hash_space n \<Longrightarrow> t H \<in> H \<and> rank H (t H) = k" and "2 \<le> k" and "k < n"
    and "n \<le> space_size"
  shows "mean_over (subsets_of hash_space n) (\<lambda>H. 1 / of_nat (unat (t H) - 1)) =
      of_nat n / (of_nat k * of_nat space_size)"
    and "mean_over (subsets_of hash_space n) (\<lambda>H. 1 / (of_nat (unat (t H) - 1) * of_nat (unat (t H) - 2))) =
      of_nat n * of_nat (n - 1) / (of_nat k * of_nat (k - 1) * of_nat space_size * of_nat (space_size - 1))"
proof -
  define b where "b = n - k - 1"
  have n: "k + b + 1 = n" "k + b = n - 1" "n - 1 + 1 = n" using assms(3) by (simp_all add: b_def)
  have C: "card (subsets_of hash_space n) = space_size choose n"
    by (simp only: card_subsets_of finite_hash_space card_hash_space)
  have C0: "(of_nat (space_size choose n) :: rat) \<noteq> 0" using assms(4) by (simp add: binomial_eq_0_iff)
  have sum: "(\<Sum>H \<in> subsets_of hash_space n. g (unat (t H))) =
      (\<Sum>x \<in> {1..space_size}. of_nat ((x - 1 choose k) * (space_size - x choose b)) * g x)" for g :: "nat \<Rightarrow> rat"
    using sum_ranked [OF finite_hash_space, of k b t "\<lambda>x. g (unat x)"] assms(1)
      sum_hash_space [of "\<lambda>x. of_nat ((x - 1 choose k) * (space_size - x choose b)) * g x"]
    by (simp only: n(1) hash_ranks cong: sum.cong)
  have "2 < space_size" by (simp add: space_size_def)
  then have pos: "(of_nat k :: rat) \<noteq> 0" "(of_nat (k - 1) :: rat) \<noteq> 0" "(of_nat space_size :: rat) \<noteq> 0"
    "(of_nat (space_size - 1) :: rat) \<noteq> 0"
    using assms(2) by simp_all
  have quot: "a / c = d / e" if "a * e = d * c" "c \<noteq> 0" "e \<noteq> 0" for a c d e :: rat
    using that by (simp add: frac_eq_eq)
  have "1 \<le> k" using assms(2) by simp
  from sum_reciprocals [OF this, of space_size b]
  show "mean_over (subsets_of hash_space n) (\<lambda>H. 1 / of_nat (unat (t H) - 1)) =
      of_nat n / (of_nat k * of_nat space_size)"
    unfolding mean_over_def C sum [of "\<lambda>x. 1 / of_nat (x - 1)"] n
    by (intro quot C0) (use pos n(3) in \<open>simp_all only: mult.assoc mult_eq_0_iff simp_thms\<close>)
  from sum_reciprocal_products [OF assms(2), of space_size b]
  show "mean_over (subsets_of hash_space n) (\<lambda>H. 1 / (of_nat (unat (t H) - 1) * of_nat (unat (t H) - 2))) =
      of_nat n * of_nat (n - 1) / (of_nat k * of_nat (k - 1) * of_nat space_size * of_nat (space_size - 1))"
    unfolding mean_over_def C sum [of "\<lambda>x. 1 / (of_nat (x - 1) * of_nat (x - 2))"] n
    by (intro quot C0) (use pos n(3) in \<open>simp_all only: mult.assoc mult_eq_0_iff simp_thms\<close>)
qed

section \<open>Sketches of hash sets\<close>

lemma sketch_of_threshold:
  assumes "sketch_of lg_k 0x3f800000 H s" and "H \<subseteq> hash_space"
  shows "wf_sketch s" and "32 \<le> (2 :: nat) ^ unat lg_k"
    and "card H \<le> 2 ^ unat lg_k \<Longrightarrow> length (sk_hashes s) = card H \<and> effective_theta s = max_theta"
    and "2 ^ unat lg_k < card H \<Longrightarrow> length (sk_hashes s) = 2 ^ unat lg_k \<and>
      effective_theta s \<in> H \<and> rank H (effective_theta s) = 2 ^ unat lg_k"
proof -
  let ?k = "(2 :: nat) ^ unat lg_k" and ?t = "sk_theta s"
  obtain pf seed where "theta_canon pf seed ?k max_theta s H"
    using assms(1) built_canon [OF _ checked_theta_default] unfolding sketch_of_def by metis
  then have wf: "wf_sketch s" and k: "k_of s = ?k" and init: "sk_initial_theta s = max_theta"
    and sum: "summary ?k max_theta H ?t (sk_hashes s)"
    by (simp_all add: theta_canon_def)
  show "wf_sketch s" by (rule wf)
  show k32: "32 \<le> ?k" using wf k k_of_bounds(1) [of s] by (simp add: wf_sketch_def)
  have theta: "effective_theta s = ?t" using wf init by (simp add: effective_theta_def wf_sketch_def)
  have below: "below H x = {h \<in> H. h < x}" for x using assms(2) by (auto simp: below_def hash_space_def)
  have len: "length (sk_hashes s) = rank H ?t"
    using sum by (auto simp: summary_def sample_length below rank_def)
  have top: "rank H max_theta = card H"
    unfolding rank_def using assms(2) by (intro arg_cong [where f = card]) (auto simp: hash_space_def)
  have finite: "finite H" by simp
  have low: "?t \<in> H \<and> length (sk_hashes s) = ?k \<and> ?k < card H" if "?t < max_theta"
  proof -
    have more: "?k < card (up_to H ?t)" using sum that by (simp add: summary_def)
    have "up_to H ?t \<subseteq> insert ?t {h \<in> H. h < ?t}" by (auto simp: up_to_def)
    then have "card (up_to H ?t) \<le> card (insert ?t {h \<in> H. h < ?t})" by (rule card_mono [rotated]) simp
    also have "\<dots> \<le> Suc (rank H ?t)" unfolding rank_def by (simp add: card_insert_if)
    finally have "card (up_to H ?t) \<le> Suc (rank H ?t)" .
    moreover have "length (sk_hashes s) \<le> ?k" using sum by (simp add: summary_def)
    moreover have "?t \<in> H"
    proof (rule ccontr)
      assume "?t \<notin> H"
      then have "up_to H ?t = {h \<in> H. h < ?t}"
        using below [of ?t] unfolding below_def up_to_def by (auto simp: order_le_less)
      with more len \<open>length (sk_hashes s) \<le> ?k\<close> show False by (simp add: rank_def)
    qed
    moreover have "card (up_to H ?t) \<le> card H" by (rule card_mono) (auto simp: up_to_def)
    ultimately show ?thesis using more len by simp
  qed
  have le: "?t \<le> max_theta" using wf by (simp add: wf_sketch_def)
  show "length (sk_hashes s) = card H \<and> effective_theta s = max_theta" if "card H \<le> ?k"
    using low that le top len by (metis theta le_less not_less)
  show "length (sk_hashes s) = ?k \<and> effective_theta s \<in> H \<and> rank H (effective_theta s) = ?k" if "?k < card H"
  proof -
    have "?t < max_theta" using that le top len sum by (metis summary_def le_less not_less)
    with low show ?thesis using len theta by simp
  qed
qed

text \<open>The estimate before rounding, and its bounds by the unbiased \<open>k N / (x - 1)\<close>.\<close>

definition unrounded :: "sketch \<Rightarrow> rat" where
  "unrounded s = of_nat (length (sk_hashes s)) * (2 ^ 63 - 1) / of_nat (unat (effective_theta s))"

lemma unrounded_bounds:
  fixes k x N :: rat
  assumes "0 \<le> k" and "3 \<le> x" and "x \<le> N"
  defines "y \<equiv> k * (N + 1) / x" and "p \<equiv> 1 / (x - 1)" and "q \<equiv> 1 / ((x - 1) * (x - 2))"
  shows "0 \<le> y" and "y \<le> k * N * p" and "k * N * p - k * N * q \<le> y" and "y * y \<le> k * k * N * N * q"
proof -
  have x: "0 < x" "0 < x - 1" "0 < x - 2" using assms(2) by simp_all
  have N: "0 \<le> N" using assms by simp
  show y: "0 \<le> y" unfolding y_def using assms(1) N x by simp
  have e: "k * N * p = k * N / (x - 1)" by (simp add: p_def)
  have "(N + 1) * (x - 1) \<le> N * x" using assms(3) by (simp add: algebra_simps)
  then have "k * ((N + 1) * (x - 1)) \<le> k * (N * x)" using assms(1) by (rule mult_left_mono)
  then show up: "y \<le> k * N * p" unfolding y_def e using x by (simp add: divide_simps mult_ac)
  have "k * N * p - y = k * (N + 1 - x) / (x * (x - 1))"
    unfolding y_def e using x by (simp add: divide_simps) (simp add: algebra_simps)
  also have "\<dots> \<le> k * N / ((x - 1) * (x - 2))"
    using assms x N by (intro frac_le mult_nonneg_nonneg mult_left_mono mult_pos_pos)
      (simp_all add: mult.commute mult_left_mono)
  also have "\<dots> = k * N * q" by (simp add: q_def)
  finally show "k * N * p - k * N * q \<le> y" by simp
  have "y * y \<le> (k * N * p) * (k * N * p)" using up y by (intro mult_mono) simp_all
  also have "\<dots> = (k * N * (k * N)) * (p * p)" by simp
  also have "p * p \<le> q" unfolding p_def q_def using x by (simp add: frac_le)
  then have "(k * N * (k * N)) * (p * p) \<le> (k * N * (k * N)) * q"
    by (rule mult_left_mono) (use assms(1) N in simp)
  finally show "y * y \<le> k * k * N * N * q" by (simp add: mult_ac)
qed

section \<open>Means\<close>

lemma mean_over_mono:
  "(\<And>x. x \<in> S \<Longrightarrow> f x \<le> g x) \<Longrightarrow> mean_over S f \<le> mean_over S g"
  unfolding mean_over_def by (intro divide_right_mono sum_mono) simp_all

lemma mean_over_linear:
  "mean_over S (\<lambda>x. a * f x + b * g x) = a * mean_over S f + b * mean_over S g"
  by (simp add: mean_over_def sum.distrib sum_distrib_left add_divide_distrib)

lemma mean_over_const: "card S \<noteq> 0 \<Longrightarrow> mean_over S (\<lambda>_. c) = c"
  by (simp add: mean_over_def)

lemma chebyshev:
  fixes f :: "'a \<Rightarrow> rat"
  assumes "finite S" and "0 < a" and "mean_over S (\<lambda>x. (f x - c) ^ 2) \<le> m"
  shows "of_nat (card {x \<in> S. a < \<bar>f x - c\<bar>}) \<le> m / a ^ 2 * of_nat (card S)"
proof -
  let ?T = "{x \<in> S. a < \<bar>f x - c\<bar>}"
  have "of_nat (card ?T) * a ^ 2 \<le> (\<Sum>x \<in> ?T. (f x - c) ^ 2)"
    by (rule sum_bounded_below) (use assms(2) in \<open>auto intro!: iffD1 [OF abs_le_square_iff]\<close>)
  also have "\<dots> \<le> (\<Sum>x \<in> S. (f x - c) ^ 2)" by (rule sum_mono2) (use assms(1) in auto)
  also have "\<dots> \<le> m * of_nat (card S)"
    using assms(3) by (cases "card S = 0") (use assms(1) in \<open>auto simp: mean_over_def divide_le_eq\<close>)
  finally show ?thesis using assms(2) by (simp add: divide_simps mult_ac)
qed

lemma card_hash_sets: "n \<le> space_size \<Longrightarrow> card (subsets_of hash_space n) \<noteq> 0"
  by (simp add: card_subsets_of card_hash_space binomial_eq_0_iff)

lemma space_size_rat: "(of_nat space_size :: rat) = 2 ^ 63 - 2" "(of_nat (space_size - 1) :: rat) = 2 ^ 63 - 3"
  by (simp_all add: space_size_def)

text \<open>One sketch: exact up to the nominal size, and beyond it between two functions of theta.\<close>

lemma unrounded_exact:
  assumes "sketch_of lg_k 0x3f800000 H s" and "H \<subseteq> hash_space" and "card H \<le> 2 ^ unat lg_k"
  shows "unrounded s = of_nat (card H)"
  using sketch_of_threshold(3) [OF assms] by (simp add: unrounded_def unat_max_theta space_size_def)

lemma unrounded_theta:
  fixes s lg_k
  defines "k \<equiv> 2 ^ unat lg_k :: rat" and "N \<equiv> of_nat space_size :: rat"
  defines "p \<equiv> 1 / of_nat (unat (effective_theta s) - 1) :: rat"
    and "q \<equiv> 1 / (of_nat (unat (effective_theta s) - 1) * of_nat (unat (effective_theta s) - 2)) :: rat"
  assumes "sketch_of lg_k 0x3f800000 H s" and "H \<subseteq> hash_space" and "2 ^ unat lg_k < card H"
  shows "unrounded s \<le> k * N * p" and "k * N * p - k * N * q \<le> unrounded s"
    and "unrounded s * unrounded s \<le> k * k * N * N * q"
proof -
  let ?k = "(2 :: nat) ^ unat lg_k" and ?t = "effective_theta s"
  note t = sketch_of_threshold(4) [OF assms(5-7)]
  have x: "?t \<in> hash_space" using t assms(6) by blast
  have "rank H ?t \<le> card {h \<in> hash_space. h < ?t}"
    unfolding rank_def using assms(6) by (intro card_mono) auto
  then have u: "?k \<le> unat ?t - 1" using t hash_ranks(1) [OF x] by simp
  have le: "unat ?t \<le> space_size" using x bij_betw_imp_surj_on [OF unat_hash_space] by auto
  define y where "y = unat ?t"
  have r: "3 \<le> (of_nat y :: rat)" "of_nat y \<le> N"
    "of_nat (y - 1) = (of_nat y - 1 :: rat)" "of_nat (y - 2) = (of_nat y - 2 :: rat)"
    using u le sketch_of_threshold(2) [OF assms(5,6)] unfolding y_def [symmetric]
    by (simp_all add: N_def of_nat_diff)
  have N: "2 ^ 63 - 1 = N + 1" unfolding N_def space_size_rat by simp
  have "unrounded s = k * (N + 1) / of_nat y"
    unfolding unrounded_def N y_def [symmetric] using t by (simp add: k_def)
  with unrounded_bounds(2-4) [OF _ r(1,2), of k]
  show "unrounded s \<le> k * N * p" "k * N * p - k * N * q \<le> unrounded s"
    "unrounded s * unrounded s \<le> k * k * N * N * q"
    unfolding p_def q_def y_def [symmetric] r(3,4) by (simp_all add: k_def)
qed

text \<open>
  The mean of the quotient is at most \<open>n\<close>, falls short of it by at most \<open>n\<^sup>2 / ((k - 1) (N - 1))\<close>, and
  the mean of its square is at most \<open>n\<^sup>2\<close> times a factor close to \<open>k / (k - 1)\<close>.
\<close>

lemma unrounded_moments_large:
  fixes n :: nat and sk :: "u64 set \<Rightarrow> sketch"
  assumes "\<And>H. H \<in> subsets_of hash_space n \<Longrightarrow> sketch_of lg_k 0x3f800000 H (sk H)"
    and "(2 :: nat) ^ unat lg_k < n" and "32 \<le> (2 :: nat) ^ unat lg_k" and "n \<le> space_size"
  defines "k \<equiv> 2 ^ unat lg_k :: rat" and "N \<equiv> of_nat space_size :: rat"
  defines "m \<equiv> mean_over (subsets_of hash_space n) (\<lambda>H. unrounded (sk H))"
    and "m2 \<equiv> mean_over (subsets_of hash_space n) (\<lambda>H. unrounded (sk H) * unrounded (sk H))"
  shows "m \<le> of_nat n \<and> of_nat n - of_nat n ^ 2 / ((k - 1) * (N - 1)) \<le> m \<and>
    m2 \<le> of_nat n ^ 2 * ((k / (k - 1)) * (N / (N - 1)))"
proof -
  let ?S = "subsets_of hash_space n" and ?k = "(2 :: nat) ^ unat lg_k"
  let ?f = "(k / (k - 1)) * (N / (N - 1))" and ?d = "(k - 1) * (N - 1)"
  let ?t = "\<lambda>H. effective_theta (sk H)"
  let ?p = "\<lambda>H. 1 / of_nat (unat (?t H) - 1) :: rat"
  let ?q = "\<lambda>H. 1 / (of_nat (unat (?t H) - 1) * of_nat (unat (?t H) - 2)) :: rat"
  have k: "32 \<le> k" "of_nat ?k = k" "of_nat (?k - 1) = k - 1"
    using of_nat_mono [OF assms(3), where ?'a = rat] assms(3) by (simp_all add: k_def of_nat_diff)
  have N: "3 \<le> N" "of_nat (space_size - 1) = N - 1" unfolding N_def space_size_rat by simp_all
  have pos: "k \<noteq> 0" "k - 1 \<noteq> 0" "N \<noteq> 0" "N - 1 \<noteq> 0" "0 < ?d" "0 \<le> ?f" using k(1) N(1) by simp_all
  have sub: "H \<subseteq> hash_space" "?k < card H" if "H \<in> ?S" for H
    using that assms(2) by (simp_all add: subsets_of_def)
  have "?t H \<in> H \<and> rank H (?t H) = ?k" if "H \<in> ?S" for H
    using sketch_of_threshold(4) [OF assms(1) [OF that] sub [OF that]] by simp
  note th = threshold_moments [where t = ?t, OF this _ assms(2,4), unfolded k, folded N_def, unfolded N(2)]
  have mean: "mean_over ?S ?p = of_nat n / (k * N)"
    "mean_over ?S ?q = of_nat n * of_nat (n - 1) / (k * (k - 1) * N * (N - 1))"
    using th assms(3) by simp_all
  note b = unrounded_theta [OF assms(1) sub, folded k_def N_def]
  have "m \<le> mean_over ?S (\<lambda>H. (k * N) * ?p H + 0 * ?p H)"
    unfolding m_def by (rule mean_over_mono) (use b(1) in simp)
  also have "\<dots> = of_nat n" unfolding mean_over_linear mean using pos by simp
  finally have one: "m \<le> of_nat n" .
  have sq: "(of_nat n :: rat) * of_nat (n - 1) \<le> of_nat n ^ 2"
    unfolding power2_eq_square by (intro mult_left_mono) simp_all
  then have "of_nat n * of_nat (n - 1) / ?d \<le> of_nat n ^ 2 / ?d"
    by (rule divide_right_mono) (use pos(5) in simp)
  then have "of_nat n - of_nat n ^ 2 / ?d \<le> of_nat n - of_nat n * of_nat (n - 1) / ?d" by simp
  also have "\<dots> = mean_over ?S (\<lambda>H. (k * N) * ?p H + (- (k * N)) * ?q H)"
    unfolding mean_over_linear mean using pos by simp
  also have "\<dots> \<le> m" unfolding m_def by (rule mean_over_mono) (use b(2) in simp)
  finally have two: "of_nat n - of_nat n ^ 2 / ?d \<le> m" .
  have "m2 \<le> mean_over ?S (\<lambda>H. (k * k * N * N) * ?q H + 0 * ?q H)"
    unfolding m2_def by (rule mean_over_mono) (use b(3) in simp)
  also have "\<dots> = of_nat n * of_nat (n - 1) * ?f" unfolding mean_over_linear mean using pos by simp
  also have "\<dots> \<le> of_nat n ^ 2 * ?f" by (rule mult_right_mono [OF sq pos(6)])
  finally show ?thesis using one two by simp
qed

lemma unrounded_moments:
  fixes n :: nat and sk :: "u64 set \<Rightarrow> sketch"
  assumes "\<And>H. H \<in> subsets_of hash_space n \<Longrightarrow> sketch_of lg_k 0x3f800000 H (sk H)" and "n \<le> space_size"
  defines "k \<equiv> 2 ^ unat lg_k :: rat" and "N \<equiv> of_nat space_size :: rat"
  shows "32 \<le> k" and "mean_over (subsets_of hash_space n) (\<lambda>H. unrounded (sk H)) \<le> of_nat n"
    and "of_nat n - of_nat n ^ 2 / ((k - 1) * (N - 1)) \<le> mean_over (subsets_of hash_space n) (\<lambda>H. unrounded (sk H))"
    and "mean_over (subsets_of hash_space n) (\<lambda>H. unrounded (sk H) * unrounded (sk H)) \<le>
      of_nat n ^ 2 * ((k / (k - 1)) * (N / (N - 1)))"
proof -
  let ?S = "subsets_of hash_space n" and ?k = "(2 :: nat) ^ unat lg_k"
  let ?m = "mean_over ?S (\<lambda>H. unrounded (sk H))" and ?m2 = "mean_over ?S (\<lambda>H. unrounded (sk H) * unrounded (sk H))"
  let ?f = "(k / (k - 1)) * (N / (N - 1))" and ?d = "(k - 1) * (N - 1)"
  note C = card_hash_sets [OF assms(2)]
  then obtain H0 where "H0 \<in> ?S" by (metis card.empty ex_in_conv)
  have sub: "H \<subseteq> hash_space" "card H = n" if "H \<in> ?S" for H using that by (simp_all add: subsets_of_def)
  have k32: "32 \<le> ?k" using sketch_of_threshold(2) [OF assms(1) sub(1)] \<open>H0 \<in> ?S\<close> by blast
  then have k: "32 \<le> k" "of_nat ?k = k" "of_nat (?k - 1) = k - 1"
    using of_nat_mono [OF k32, where ?'a = rat] by (simp_all add: k_def of_nat_diff)
  have N: "3 \<le> N" "of_nat (space_size - 1) = N - 1" unfolding N_def space_size_rat by simp_all
  have pos: "k \<noteq> 0" "k - 1 \<noteq> 0" "N \<noteq> 0" "N - 1 \<noteq> 0" "0 < ?d" "0 \<le> ?f" using k(1) N(1) by simp_all
  have "1 \<le> ?f" using mult_mono [of 1 "k / (k - 1)" 1 "N / (N - 1)"] k(1) N(1) by simp
  then have f: "of_nat n ^ 2 * 1 \<le> of_nat n ^ 2 * ?f" by (rule mult_left_mono) simp
  have "?m \<le> of_nat n \<and> of_nat n - of_nat n ^ 2 / ?d \<le> ?m \<and> ?m2 \<le> of_nat n ^ 2 * ?f"
  proof (cases "n \<le> ?k")
    case True
    have "unrounded (sk H) = of_nat n" if "H \<in> ?S" for H
      using unrounded_exact [OF assms(1) [OF that] sub(1) [OF that]] True sub(2) [OF that] by simp
    then have "?m = of_nat n" "?m2 = of_nat n ^ 2"
      unfolding mean_over_def using C by (simp_all add: power2_eq_square)
    then show ?thesis using f pos(5) by simp
  next
    case False
    then have "?k < n" by simp
    from unrounded_moments_large [OF assms(1) this k32 assms(2)] show ?thesis
      unfolding k_def N_def by blast
  qed
  with k(1) show "32 \<le> k" "?m \<le> of_nat n" "of_nat n - of_nat n ^ 2 / ?d \<le> ?m" "?m2 \<le> of_nat n ^ 2 * ?f"
    by blast+
qed

section \<open>The estimator\<close>

lemma estimate_near:
  assumes "wf_sketch s"
  shows "0 \<le> fval (get_estimate s)" and "fval (get_estimate s) \<le> (1 + 1 / 2 ^ 49) * unrounded s"
    and "(1 - 1 / 2 ^ 49) * unrounded s \<le> fval (get_estimate s)"
proof -
  obtain r where r: "get_estimate s = Fin r" "\<bar>r - unrounded s\<bar> \<le> unrounded s / 2 ^ 49"
    using theta_estimate_accuracy [OF assms unrounded_def] by blast
  from abs_le_D1 [OF r(2)] abs_le_D2 [OF r(2)]
  show up: "fval (get_estimate s) \<le> (1 + 1 / 2 ^ 49) * unrounded s"
    and low: "(1 - 1 / 2 ^ 49) * unrounded s \<le> fval (get_estimate s)"
    using r(1) by (simp_all add: algebra_simps)
  have "0 \<le> unrounded s"
    unfolding unrounded_def by (intro divide_nonneg_nonneg mult_nonneg_nonneg of_nat_0_le_iff) simp
  then have "0 \<le> (1 - 1 / 2 ^ 49) * unrounded s" by (intro mult_nonneg_nonneg) simp_all
  with low show "0 \<le> fval (get_estimate s)" by linarith
qed

lemma moment_factor:
  fixes k :: rat
  defines "N \<equiv> of_nat space_size :: rat" and "e \<equiv> 1 / 2 ^ 49 :: rat"
  assumes "32 \<le> k"
  shows "k / (k - 1) * ((1 + e) * (1 + e) * (N / (N - 1))) \<le> 1 + 1 / (k - 1) + 1 / 2 ^ 46 - 1 / 2 ^ 48"
proof -
  have c: "(1 + e) * (1 + e) * (N / (N - 1)) \<le> 1 + 1 / 2 ^ 47"
    unfolding N_def space_size_rat e_def by simp
  have k: "k / (k - 1) = 1 + 1 / (k - 1)" using assms(3) by (simp add: field_simps)
  have "(1 + a) * x \<le> 1 + a + 1 / 2 ^ 46 - 1 / 2 ^ 48" if "x \<le> 1 + 1 / 2 ^ 47" "0 \<le> a" "a \<le> 1 / 31" for a x :: rat
  proof -
    have "(1 + a) * x \<le> (1 + a) * (1 + 1 / 2 ^ 47)" using that by (intro mult_left_mono) simp_all
    also have "\<dots> = 1 + a + 1 / 2 ^ 47 + a * (1 / 2 ^ 47)" by (simp add: algebra_simps)
    also have "a * (1 / 2 ^ 47) \<le> 1 / 31 * (1 / 2 ^ 47)" using that by (intro mult_right_mono) simp_all
    finally show ?thesis by simp
  qed
  from this [OF c, of "1 / (k - 1)"] assms(3) show ?thesis unfolding k by (simp add: divide_le_eq)
qed

lemma estimate_moments:
  fixes n :: nat and sk :: "u64 set \<Rightarrow> sketch"
  assumes "\<And>H. H \<in> subsets_of hash_space n \<Longrightarrow> sketch_of lg_k 0x3f800000 H (sk H)" and "n \<le> space_size"
  defines "E \<equiv> mean_over (subsets_of hash_space n) (\<lambda>H. fval (get_estimate (sk H)))"
  shows "E \<le> of_nat n * (1 + 1 / 2 ^ 49)"
    and "of_nat n - of_nat n / 2 ^ 49 - of_nat n ^ 2 / 2 ^ 67 \<le> E"
    and "mean_over (subsets_of hash_space n) (\<lambda>H. fval (get_estimate (sk H)) * fval (get_estimate (sk H))) \<le>
      of_nat n ^ 2 * (1 + 1 / (2 ^ unat lg_k - 1) + 1 / 2 ^ 46 - 1 / 2 ^ 48)"
proof -
  let ?S = "subsets_of hash_space n" and ?k = "2 ^ unat lg_k :: rat" and ?N = "of_nat space_size :: rat"
  let ?g = "\<lambda>H. fval (get_estimate (sk H))" and ?y = "\<lambda>H. unrounded (sk H)" and ?e = "1 / 2 ^ 49 :: rat"
  note m = unrounded_moments [OF assms(1,2)]
  have N: "?N - 1 = 2 ^ 63 - 3" unfolding space_size_rat by simp
  have near: "0 \<le> ?g H" "?g H \<le> (1 + ?e) * ?y H" "(1 - ?e) * ?y H \<le> ?g H" if "H \<in> ?S" for H
  proof -
    have "H \<subseteq> hash_space" using that by (simp add: subsets_of_def)
    from estimate_near [OF sketch_of_threshold(1) [OF assms(1) [OF that] this]]
    show "0 \<le> ?g H" "?g H \<le> (1 + ?e) * ?y H" "(1 - ?e) * ?y H \<le> ?g H" .
  qed
  have "E \<le> mean_over ?S (\<lambda>H. (1 + ?e) * ?y H + 0 * ?y H)"
    unfolding E_def by (rule mean_over_mono) (use near(2) in simp)
  also have "\<dots> \<le> (1 + ?e) * of_nat n" unfolding mean_over_linear using m(2) by simp
  finally show "E \<le> of_nat n * (1 + ?e)" by (simp add: mult.commute)
  have "2 ^ 67 \<le> (?k - 1) * (?N - 1)"
    using mult_right_mono [of 31 "?k - 1" "2 ^ 63 - 3"] m(1) unfolding N by simp
  then have d: "of_nat n ^ 2 / ((?k - 1) * (?N - 1)) \<le> of_nat n ^ 2 / 2 ^ 67"
    by (intro divide_left_mono mult_pos_pos) (use m(1) in \<open>simp_all add: N\<close>)
  have "(1 - ?e) * (of_nat n - of_nat n ^ 2 / 2 ^ 67) \<le> (1 - ?e) * mean_over ?S ?y"
  proof (rule mult_left_mono)
    show "of_nat n - of_nat n ^ 2 / 2 ^ 67 \<le> mean_over ?S ?y" using m(3) d by linarith
  qed simp
  also have "\<dots> = mean_over ?S (\<lambda>H. (1 - ?e) * ?y H + 0 * ?y H)" unfolding mean_over_linear by simp
  also have "\<dots> \<le> E" unfolding E_def by (rule mean_over_mono) (use near(3) in simp)
  finally have "(1 - ?e) * (of_nat n - of_nat n ^ 2 / 2 ^ 67) \<le> E" .
  moreover have "a - a * e - b \<le> (1 - e) * (a - b)" if "0 \<le> e" "0 \<le> b" for a b e :: rat
    using mult_nonneg_nonneg [OF that] by (simp add: algebra_simps)
  from this [of ?e "of_nat n ^ 2 / 2 ^ 67" "of_nat n"]
  have "of_nat n - of_nat n / 2 ^ 49 - of_nat n ^ 2 / 2 ^ 67 \<le> (1 - ?e) * (of_nat n - of_nat n ^ 2 / 2 ^ 67)" by simp
  ultimately show "of_nat n - of_nat n / 2 ^ 49 - of_nat n ^ 2 / 2 ^ 67 \<le> E" by (rule order_trans [rotated])
  have "?g H * ?g H \<le> ((1 + ?e) * ?y H) * ((1 + ?e) * ?y H)" if "H \<in> ?S" for H
    using near(1,2) [OF that] by (intro mult_mono) (auto intro: order_trans)
  then have "mean_over ?S (\<lambda>H. ?g H * ?g H) \<le> mean_over ?S (\<lambda>H. ((1 + ?e) * (1 + ?e)) * (?y H * ?y H) + 0 * ?y H)"
    by (intro mean_over_mono) (simp add: mult_ac)
  also have "\<dots> = ((1 + ?e) * (1 + ?e)) * mean_over ?S (\<lambda>H. ?y H * ?y H)" unfolding mean_over_linear by simp
  also have "\<dots> \<le> ((1 + ?e) * (1 + ?e)) * (of_nat n ^ 2 * ((?k / (?k - 1)) * (?N / (?N - 1))))"
    by (rule mult_left_mono [OF m(4)]) simp_all
  also have "\<dots> = of_nat n ^ 2 * (?k / (?k - 1) * ((1 + ?e) * (1 + ?e) * (?N / (?N - 1))))" by (simp only: mult_ac)
  also have "\<dots> \<le> of_nat n ^ 2 * (1 + 1 / (?k - 1) + 1 / 2 ^ 46 - 1 / 2 ^ 48)"
    by (rule mult_left_mono [OF moment_factor [OF m(1)]]) simp_all
  finally show "mean_over ?S (\<lambda>H. ?g H * ?g H) \<le> of_nat n ^ 2 * (1 + 1 / (?k - 1) + 1 / 2 ^ 46 - 1 / 2 ^ 48)" .
qed

text \<open>
  C5: the estimator is unbiased for sketches without sampling: probability 1, whose pattern is
  \<open>0x3f800000\<close>, and one nominal size \<open>2^lg_k\<close> for a sketch and all sketches merged into it. Averaged
  over all ways in which at most \<open>2^62\<close> distinct keys can get \<open>n\<close> distinct hashes, the estimate is
  \<open>n\<close>, however the keys were cut into updates and spread over sketches that were merged, up to the
  rounding of its floating-point operations and the \<open>n\<^sup>2 / 2^67\<close> that dividing by theta where
  theta - 1 is unbiased costs.
\<close>

theorem theta_estimate_unbiased:
  assumes "\<And>H. H \<in> subsets_of hash_space n \<Longrightarrow> sketch_of lg_k 0x3f800000 H (sk H)" and "n \<le> 2 ^ 62"
  shows "\<bar>mean_over (subsets_of hash_space n) (\<lambda>H. fval (get_estimate (sk H))) - of_nat n\<bar> \<le>
    of_nat n / 2 ^ 49 + of_nat n ^ 2 / 2 ^ 67"
proof -
  have "n \<le> space_size" using assms(2) by (simp add: space_size_def)
  note m = estimate_moments(1,2) [OF assms(1) this]
  have "0 \<le> (of_nat n ^ 2 / 2 ^ 67 :: rat)" by simp
  moreover have "of_nat n * (1 + 1 / 2 ^ 49) = (of_nat n + of_nat n / 2 ^ 49 :: rat)" by (simp add: distrib_left)
  ultimately show ?thesis using m by (intro abs_leI) linarith+
qed

text \<open>
  C6: without sampling, and with one nominal size for all sketches merged, the relative standard
  error is \<open>1 / sqrt (2^lg_k - 1)\<close>. Averaged as before, the square of the error is at most
  \<open>n\<^sup>2 / (2^lg_k - 1)\<close>, up to the rounding and the bias; and so the share of the choices whose error
  exceeds \<open>r n\<close> is at most that bound divided by \<open>r\<^sup>2\<close>.
\<close>

theorem theta_estimate_variance:
  assumes "\<And>H. H \<in> subsets_of hash_space n \<Longrightarrow> sketch_of lg_k 0x3f800000 H (sk H)" and "n \<le> 2 ^ 62"
    and "v = 1 / (2 ^ unat lg_k - 1) + 1 / 2 ^ 46 + of_nat n / 2 ^ 66"
  shows "mean_over (subsets_of hash_space n) (\<lambda>H. (fval (get_estimate (sk H)) - of_nat n) ^ 2) \<le> of_nat n ^ 2 * v \<and>
    (0 < r \<and> 0 < n \<longrightarrow> of_nat (card {H \<in> subsets_of hash_space n. r * of_nat n < \<bar>fval (get_estimate (sk H)) - of_nat n\<bar>}) \<le>
      v / r ^ 2 * of_nat (card (subsets_of hash_space n)))"
proof -
  let ?S = "subsets_of hash_space n" and ?g = "\<lambda>H. fval (get_estimate (sk H))" and ?n = "of_nat n :: rat"
  have le: "n \<le> space_size" using assms(2) by (simp add: space_size_def)
  note m = estimate_moments [OF assms(1) le] and C = card_hash_sets [OF le]
  have "mean_over ?S (\<lambda>H. (?g H - ?n) ^ 2) =
      mean_over ?S (\<lambda>H. 1 * (1 * (?g H * ?g H) + (- 2 * ?n) * ?g H) + 1 * ?n ^ 2)"
    by (intro arg_cong2 [where f = mean_over] ext) (simp_all add: power2_eq_square algebra_simps)
  also have "\<dots> = mean_over ?S (\<lambda>H. ?g H * ?g H) - 2 * ?n * mean_over ?S ?g + ?n ^ 2"
    unfolding mean_over_linear by (simp add: mean_over_const [OF C])
  also have "\<dots> \<le> ?n ^ 2 * (1 + 1 / (2 ^ unat lg_k - 1) + 1 / 2 ^ 46 - 1 / 2 ^ 48) -
      2 * ?n * (?n - ?n / 2 ^ 49 - ?n ^ 2 / 2 ^ 67) + ?n ^ 2"
    using m(3) mult_left_mono [OF m(2), of "2 * ?n"] by simp
  also have "\<dots> = ?n ^ 2 * v" by (simp add: assms(3) power2_eq_square algebra_simps)
  finally have var: "mean_over ?S (\<lambda>H. (?g H - ?n) ^ 2) \<le> ?n ^ 2 * v" .
  have "of_nat (card {H \<in> ?S. r * ?n < \<bar>?g H - ?n\<bar>}) \<le> v / r ^ 2 * of_nat (card ?S)" if "0 < r" "0 < n"
    using chebyshev [OF _ _ var, of "r * ?n"] that by (simp add: power_mult_distrib)
  with var show ?thesis by blast
qed

section \<open>Applications\<close>

theorem theta_estimate_unbiased_witness:
  "\<exists>sk. subsets_of hash_space 1000 \<subseteq> {H. sketch_of 5 0x3f800000 H (sk H)} \<and>
     \<bar>mean_over (subsets_of hash_space 1000) (\<lambda>H. fval (get_estimate (sk H))) - 1000\<bar> \<le> 1 / 2 ^ 39"
proof -
  obtain sk where sk: "sketch_of 5 0x3f800000 H (sk H)" if "H \<in> subsets_of hash_space 1000" for H
    using sketch_of_exists unfolding subsets_of_def by (metis (mono_tags) mem_Collect_eq)
  have "\<bar>mean_over (subsets_of hash_space 1000)
      (\<lambda>H. fval (get_estimate (sk H))) - 1000\<bar> \<le> 1000 / 2 ^ 49 + 1000 ^ 2 / 2 ^ 67"
    using theta_estimate_unbiased [of 1000 5 sk] sk by simp
  also have "\<dots> \<le> 1 / 2 ^ 39" by simp
  finally show ?thesis using sk by blast
qed

theorem theta_estimate_variance_witness:
  "\<exists>sk. subsets_of hash_space 1000 \<subseteq> {H. sketch_of 5 0x3f800000 H (sk H)} \<and>
     of_nat (card {H \<in> subsets_of hash_space 1000. 500 < \<bar>fval (get_estimate (sk H)) - 1000\<bar>}) \<le>
       (1 / 7 :: rat) * of_nat (card (subsets_of hash_space 1000))"
proof -
  obtain sk where sk: "sketch_of 5 0x3f800000 H (sk H)" if "H \<in> subsets_of hash_space 1000" for H
    using sketch_of_exists unfolding subsets_of_def by (metis (mono_tags) mem_Collect_eq)
  have "of_nat (card {H \<in> subsets_of hash_space 1000. 500 < \<bar>fval (get_estimate (sk H)) - 1000\<bar>}) \<le>
      ((1 / 31 + 1 / 2 ^ 46 + 1000 / 2 ^ 66) / (1 / 2) ^ 2 :: rat) * of_nat (card (subsets_of hash_space 1000))"
    using theta_estimate_variance [of 1000 5 sk "1 / 31 + 1 / 2 ^ 46 + 1000 / 2 ^ 66" "1 / 2"] sk by simp
  also have "\<dots> \<le> (1 / 7) * of_nat (card (subsets_of hash_space 1000))"
    by (rule mult_right_mono) (simp_all add: power2_eq_square)
  finally show ?thesis using sk by blast
qed

end
