(* ===== verification/Hasher_Properties.thy ===== *)
theory Hasher_Properties
  imports Normalizing_Hasher
begin

text \<open>
  What the canonical pattern of a key preserves: integers keep their signed value, doubles
  their value up to the sign of zero and the payload of a NaN, floats their exact value.
\<close>

section \<open>The fields of a double\<close>

lemma unat_and_mask_less: "unat (w AND mask n :: u64) < 2 ^ n"
  by (simp add: take_bit_eq_mask [symmetric] unsigned_take_bit_eq take_bit_nat_less_exp)

lemma d_exp_less: "d_exp w < 2048"
proof -
  have "(0x7ff :: u64) = mask 11" by (simp add: mask_eq_exp_minus_1)
  then show ?thesis using unat_and_mask_less [of "drop_bit 52 w" 11] by (simp add: d_exp_def)
qed

lemma d_frac_less: "d_frac w < 2 ^ 52"
  unfolding d_frac_def by (rule unat_and_mask_less)

lemma double_eq_iff:
  "w = w' \<longleftrightarrow> d_sign w = d_sign w' \<and> d_exp w = d_exp w' \<and> d_frac w = d_frac w'"
proof
  assume eq: "d_sign w = d_sign w' \<and> d_exp w = d_exp w' \<and> d_frac w = d_frac w'"
  have m: "(0x7ff :: u64) = mask 11" by (simp add: mask_eq_exp_minus_1)
  have e: "drop_bit 52 w AND mask 11 = drop_bit 52 w' AND mask 11"
    using eq unfolding d_exp_def m by (metis unsigned_word_eqI)
  have f: "w AND mask 52 = w' AND mask 52"
    using eq unfolding d_frac_def by (metis unsigned_word_eqI)
  show "w = w'"
  proof (rule bit_word_eqI)
    fix n assume "n < LENGTH(64)"
    then consider "n < 52" | "52 \<le> n" "n < 63" | "n = 63" by force
    then show "bit w n = bit w' n"
    proof cases
      case 1
      then show ?thesis
        using arg_cong [OF f, of "\<lambda>v. bit v n"] by (simp add: bit_simps)
    next
      case 2
      then have "n - 52 < 11" "n - 52 < 64" by auto
      with 2 show ?thesis
        using arg_cong [OF e, of "\<lambda>v. bit v (n - 52)"] by (simp add: bit_simps)
    next
      case 3
      with eq show ?thesis by (simp add: d_sign_def)
    qed
  qed
qed simp

lemma bit_nat_ge: "n < 2 ^ m \<Longrightarrow> m \<le> i \<Longrightarrow> \<not> bit (n :: nat) i"
  by (metis bit_take_bit_iff not_less take_bit_nat_eq_self)

lemma make_double_fields:
  assumes "e < 2048" and "f < 2 ^ 52"
  shows "d_sign (make_double s e f) = s" and "d_exp (make_double s e f) = e"
    and "d_frac (make_double s e f) = f"
proof -
  have m: "(0x7ff :: u64) = mask 11" by (simp add: mask_eq_exp_minus_1)
  have e: "\<not> bit e i" if "11 \<le> i" for i
    using bit_nat_ge [of e 11 i] assms(1) that by simp
  have f: "\<not> bit f i" if "52 \<le> i" for i
    using bit_nat_ge [of f 52 i] assms(2) that by simp
  have e2: "i < 11" if "bit e i" for i using that e not_less by blast
  have f2: "i < 52" if "bit f i" for i using that f not_less by blast
  show "d_sign (make_double s e f) = s"
    by (auto simp: d_sign_def make_double_def bit_simps e f)
  have "drop_bit 52 (make_double s e f) AND 0x7ff = word_of_nat e"
    unfolding m by (rule bit_word_eqI) (auto simp: make_double_def bit_simps f dest: e2)
  then show "d_exp (make_double s e f) = e"
    using assms(1) by (simp add: d_exp_def unat_of_nat)
  have "make_double s e f AND mask 52 = word_of_nat f"
    by (rule bit_word_eqI) (auto simp: make_double_def bit_simps dest: f2)
  then show "d_frac (make_double s e f) = f"
    using assms(2) by (simp add: d_frac_def unat_of_nat)
qed

section \<open>Values\<close>

text \<open>The magnitude of a finite pattern in units of \<open>2^-1074\<close>: ascending in the pattern.\<close>

definition magnitude :: "nat \<Rightarrow> nat \<Rightarrow> nat" where
  "magnitude e f = (if e = 0 then f else (2 ^ 52 + f) * 2 ^ (e - 1))"

lemma magnitude_bounds:
  assumes "f < 2 ^ 52"
  shows "magnitude e f < 2 ^ (52 + e)" and "0 < e \<Longrightarrow> 2 ^ (51 + e) \<le> magnitude e f"
proof -
  show "magnitude e f < 2 ^ (52 + e)"
  proof (cases e)
    case (Suc n)
    have "(2 ^ 52 + f) * 2 ^ n < (2 ^ 53) * 2 ^ n" using assms by simp
    then show ?thesis by (simp add: magnitude_def Suc power_add)
  qed (use assms in \<open>simp add: magnitude_def\<close>)
  show "2 ^ (51 + e) \<le> magnitude e f" if "0 < e"
  proof -
    obtain n where e: "e = Suc n" using gr0_implies_Suc [of e] \<open>0 < e\<close> by metis
    have "(2 ^ 52) * 2 ^ n \<le> (2 ^ 52 + f) * 2 ^ n" by simp
    then show ?thesis by (simp add: magnitude_def e power_add)
  qed
qed

lemma magnitude_inject:
  assumes "f < 2 ^ 52" and "f' < 2 ^ 52" and "magnitude e f = magnitude e' f'"
  shows "e = e' \<and> f = f'"
proof -
  have no: "\<not> a < b" if "g < 2 ^ 52" "h < 2 ^ 52" "magnitude a g = magnitude b h" for a b g h
  proof
    assume "a < b"
    then have "(2::nat) ^ (52 + a) \<le> 2 ^ (51 + b)" by (intro power_increasing) auto
    with magnitude_bounds(1) [OF that(1), of a] magnitude_bounds(2) [OF that(2), of b] \<open>a < b\<close> that(3)
    show False by simp
  qed
  have "e = e'" using no [OF assms] no [OF assms(2,1) assms(3) [symmetric]] by simp
  with assms(3) show ?thesis by (auto simp: magnitude_def split: if_splits)
qed

definition least_subnormal :: rat where "least_subnormal = 2 powi (- 1074)"

lemma least_subnormal_pos: "0 < least_subnormal"
  by (simp add: least_subnormal_def)

lemma decode64_finite:
  assumes "d_exp w \<noteq> 2047" and "\<not> (d_exp w = 0 \<and> d_frac w = 0)"
  shows "decode64 w = Fin ((if d_sign w then - 1 else 1) * of_nat (magnitude (d_exp w) (d_frac w))
    * least_subnormal)"
    and "0 < magnitude (d_exp w) (d_frac w)"
proof -
  have scale: "2 powi (int e - 1075) = 2 ^ (e - 1) * least_subnormal" if "e \<noteq> 0" for e
  proof -
    have e: "int e - 1075 = int (e - 1) + (- 1074)" using that by simp
    show ?thesis unfolding e least_subnormal_def by (subst power_int_add) simp_all
  qed
  show "decode64 w = Fin ((if d_sign w then - 1 else 1)
      * of_nat (magnitude (d_exp w) (d_frac w)) * least_subnormal)"
  proof (cases "d_exp w = 0")
    case True
    with assms show ?thesis
      unfolding decode64_def Let_def magnitude_def least_subnormal_def by simp
  next
    case False
    have "of_nat (2 ^ 52 + d_frac w) * 2 powi (int (d_exp w) - 1075)
        = of_nat ((2 ^ 52 + d_frac w) * 2 ^ (d_exp w - 1)) * least_subnormal"
      unfolding scale [OF False] by simp
    with False assms(1) show ?thesis
      unfolding decode64_def Let_def magnitude_def by (simp only: if_False simp_thms mult.assoc)
  qed
  show "0 < magnitude (d_exp w) (d_frac w)" using assms(2) by (auto simp: magnitude_def)
qed

lemma decode64_special:
  "d_exp w = 2047 \<Longrightarrow> decode64 w = (if d_frac w = 0 then FInf (d_sign w) else FNaN)"
  "d_exp w = 0 \<Longrightarrow> d_frac w = 0 \<Longrightarrow> decode64 w = (if d_sign w then FNegZero else Fin 0)"
  by (simp_all add: decode64_def)

text \<open>Two patterns have the same value only if they are equal or both NaN.\<close>

lemma decode64_inject:
  assumes "decode64 w = decode64 w'" and "decode64 w \<noteq> FNaN"
  shows "w = w'"
proof -
  let ?fin = "\<lambda>w. d_exp w \<noteq> 2047 \<and> \<not> (d_exp w = 0 \<and> d_frac w = 0)"
  have kind: "?fin w \<longleftrightarrow> (\<exists>x. decode64 w = Fin x \<and> x \<noteq> 0)" for w
  proof (cases "?fin w")
    case True
    with decode64_finite [of w] least_subnormal_pos show ?thesis by simp
  next
    case False
    with decode64_special [of w] show ?thesis by (auto split: if_splits)
  qed
  show ?thesis
  proof (cases "?fin w")
    case True
    then have fin: "?fin w'" using kind [of w] kind [of w'] assms(1) by metis
    let ?m = "\<lambda>w. of_nat (magnitude (d_exp w) (d_frac w)) :: rat"
    have eq: "(if d_sign w then - 1 else 1) * ?m w = (if d_sign w' then - 1 else 1) * ?m w'"
      using assms(1) decode64_finite(1) [of w] decode64_finite(1) [of w'] True fin
        least_subnormal_pos by simp
    moreover have "0 < ?m w" "0 < ?m w'"
      using decode64_finite(2) [of w] decode64_finite(2) [of w'] True fin by simp_all
    ultimately have "d_sign w = d_sign w' \<and> magnitude (d_exp w) (d_frac w) = magnitude (d_exp w') (d_frac w')"
      by (cases "d_sign w"; cases "d_sign w'") auto
    with magnitude_inject [OF d_frac_less d_frac_less, of "d_exp w" w "d_exp w'" w'] show ?thesis
      by (simp add: double_eq_iff)
  next
    case False
    then have "\<not> ?fin w'" using kind [of w] kind [of w'] assms(1) by metis
    with False assms show ?thesis
      using decode64_special [of w] decode64_special [of w']
      by (auto simp: double_eq_iff split: if_splits)
  qed
qed

lemma feq_decode64:
  assumes "decode64 a \<noteq> FNaN" and "decode64 b \<noteq> FNaN"
  shows "feq (decode64 a) (decode64 b) \<longleftrightarrow>
    a = b \<or> (feq (decode64 a) (Fin 0) \<and> feq (decode64 b) (Fin 0))"
  using assms decode64_inject [of a b]
  by (cases "decode64 a"; cases "decode64 b") auto

lemma feq_FNaN [simp]: "\<not> feq a FNaN" "\<not> feq FNaN a"
  by (cases a; simp)+

lemma canonical_double_same:
  "(canonicalize (Key_double a) = canonicalize (Key_double b)) =
    (double_isnan a \<and> double_isnan b \<or> feq (decode64 a) (decode64 b))"
proof -
  have nan: "double_isnan w \<longleftrightarrow> decode64 w = FNaN" for w
    by (cases "decode64 w") (simp_all add: double_isnan_def)
  have q: "decode64 0x7ff8000000000000 = FNaN" "decode64 0 = Fin 0"
    by (simp_all add: decode64_def d_sign_def d_exp_def d_frac_def Let_def
        take_bit_eq_mask [symmetric])
  have z: "double_is_zero w \<longleftrightarrow> feq (decode64 w) (Fin 0)" for w
    by (simp add: double_is_zero_def)
  have neq: "canonical_double w \<noteq> 0x7ff8000000000000" if "decode64 w \<noteq> FNaN" for w
    using that q by (auto simp: canonical_double_def nan)
  have zero: "canonical_double w = 0 \<longleftrightarrow> feq (decode64 w) (Fin 0)" if "decode64 w \<noteq> FNaN" for w
    using that q by (auto simp: canonical_double_def nan z)
  show ?thesis
  proof (cases "decode64 a = FNaN \<or> decode64 b = FNaN")
    case True
    then show ?thesis
      using neq [of a] neq [of b] neq [of b, symmetric]
      by (cases "decode64 a = FNaN"; cases "decode64 b = FNaN")
        (auto simp: canonical_double_def nan split: if_splits)
  next
    case False
    then show ?thesis
      using feq_decode64 [of a b] zero [of a] zero [of b]
      by (auto simp: canonical_double_def nan z split: if_splits)
  qed
qed

section \<open>Floats\<close>

lemma float_fields: "unat (drop_bit 23 w AND 0xff :: u32) < 256" "unat (w AND mask 23 :: u32) < 2 ^ 23"
proof -
  have *: "unat (v AND mask n :: u32) < 2 ^ n" for v n
    by (simp add: take_bit_eq_mask [symmetric] unsigned_take_bit_eq take_bit_nat_less_exp)
  have "(0xff :: u32) = mask 8" by (simp add: mask_eq_exp_minus_1)
  then show "unat (drop_bit 23 w AND 0xff :: u32) < 256" using * [of "drop_bit 23 w" 8] by simp
  show "unat (w AND mask 23 :: u32) < 2 ^ 23" by (rule *)
qed

lemma decode64_make_double:
  assumes "e < 2047" and "f < 2 ^ 52" and "0 < e"
  shows "decode64 (make_double s e f) =
    Fin ((if s then - 1 else 1) * of_nat (2 ^ 52 + f) * 2 powi (int e - 1075))"
  using assms make_double_fields [of e f s] by (simp add: decode64_def Let_def)

lemma scale_power: "of_nat (n * 2 ^ q) * (2 :: rat) powi (z - int q) = of_nat n * 2 powi z"
proof -
  have "(2 :: rat) ^ q * 2 powi (z - int q) = 2 powi (int q + (z - int q))"
    by (subst power_int_add) simp_all
  then show ?thesis by (simp add: mult.assoc)
qed

text \<open>Promotion is exact, and NaN stays NaN.\<close>

lemma decode64_float_to_double: "decode64 (float_to_double w) = decode32 w"
proof -
  define e f s where "e = unat (drop_bit 23 w AND 0xff)" and "f = unat (w AND mask 23)" and "s = bit w 31"
  have e: "e < 256" and f: "f < 2 ^ 23" using float_fields [of w] by (simp_all add: e_def f_def)
  note defs = float_to_double_def decode32_def e_def [symmetric] f_def [symmetric] s_def [symmetric] Let_def
  consider (inf) "e = 255" "f = 0" | (nan) "e = 255" "f \<noteq> 0" | (zero) "e = 0" "f = 0"
    | (sub) "e = 0" "f \<noteq> 0" | (normal) "e \<noteq> 0" "e < 255"
    using e by linarith
  then show ?thesis
  proof cases
    case inf
    then show ?thesis using make_double_fields [of 2047 0 s]
      by (simp add: defs decode64_def)
  next
    case nan
    have "(f mod 2 ^ 22) * 2 ^ 29 < 2 ^ 22 * 2 ^ 29"
      by (intro mult_strict_right_mono) simp_all
    then have "2 ^ 51 + (f mod 2 ^ 22) * 2 ^ 29 < 2 ^ 52" by simp
    from make_double_fields [OF _ this, of 2047 s] nan show ?thesis
      by (simp add: defs decode64_def)
  next
    case zero
    then show ?thesis using make_double_fields [of 0 0 s] by (simp add: defs decode64_def)
  next
    case sub
    define p where "p = bit_width f - 1"
    have bw: "0 < bit_width f" using sub by simp
    then have p: "2 ^ p \<le> f" "f < 2 ^ Suc p"
      using less_bit_width_iff [of p f] bit_width_le_iff [of f "Suc p"] by (simp_all add: p_def)
    have "(2::nat) ^ p < 2 ^ 23" using p(1) f by simp
    then have p23: "p < 23" by (rule power_less_imp_less_exp [rotated]) simp
    have split: "2 ^ p * 2 ^ (52 - p) = (2 ^ 52 :: nat)"
      using p23 by (simp add: power_add [symmetric])
    then have "2 ^ 52 + (f - 2 ^ p) * 2 ^ (52 - p) = f * 2 ^ (52 - p)"
      using p(1) by (simp add: diff_mult_distrib)
        (metis le_add_diff_inverse mult_le_mono1)
    moreover have "(f - 2 ^ p) * 2 ^ (52 - p) < 2 ^ 52"
    proof -
      have "(f - 2 ^ p) * 2 ^ (52 - p) < 2 ^ p * 2 ^ (52 - p)"
        using p by (intro mult_strict_right_mono) auto
      with split show ?thesis by simp
    qed
    ultimately have d: "decode64 (make_double s (p + 874) ((f - 2 ^ p) * 2 ^ (52 - p))) =
        Fin ((if s then - 1 else 1) * of_nat (f * 2 ^ (52 - p)) * 2 powi (int (p + 874) - 1075))"
      using decode64_make_double [of "p + 874" "(f - 2 ^ p) * 2 ^ (52 - p)" s] p23 by simp
    have "int (p + 874) - 1075 = - 149 - int (52 - p)" using p23 by simp
    then have "of_nat (f * 2 ^ (52 - p)) * 2 powi (int (p + 874) - 1075) = of_nat f * (2 :: rat) powi (- 149)"
      by (simp only: scale_power)
    with d sub show ?thesis by (simp only: defs p_def [symmetric] mult.assoc) simp
  next
    case normal
    have b: "f * 2 ^ 29 < 2 ^ 52" using f by simp
    have "2 ^ 52 + f * 2 ^ 29 = (2 ^ 23 + f) * (2 ^ 29 :: nat)" by simp
    then have d: "decode64 (make_double s (e + 896) (f * 2 ^ 29)) =
        Fin ((if s then - 1 else 1) * of_nat ((2 ^ 23 + f) * 2 ^ 29) * 2 powi (int (e + 896) - 1075))"
      using decode64_make_double [OF _ b, of "e + 896" s] normal by simp
    have "int (e + 896) - 1075 = int e - 150 - int 29" by simp
    then have "of_nat ((2 ^ 23 + f) * 2 ^ 29) * 2 powi (int (e + 896) - 1075)
        = of_nat (2 ^ 23 + f) * (2 :: rat) powi (int e - 150)"
      by (simp only: scale_power)
    with d normal show ?thesis by (simp only: defs mult.assoc) simp
  qed
qed

section \<open>Properties\<close>

text \<open>
  C39: two doubles get the same canonical pattern, and so the same hash, exactly when they are
  equal as keys: both are NaN, or they compare equal, so that \<open>-0.0\<close> and \<open>0.0\<close> are one key.
\<close>

theorem canonical_double_iff:
  "(canonicalize (Key_double a) = canonicalize (Key_double b)) =
    (double_isnan a \<and> double_isnan b \<or> feq (decode64 a) (decode64 b))"
  by (rule canonical_double_same)

text \<open>
  C40: a float key hashes like a double key exactly when both are NaN or their values are
  equal: promotion from float to double loses nothing, subnormal floats included.
\<close>

theorem canonical_float_iff:
  "(canonicalize (Key_float w) = canonicalize (Key_double d)) =
    (decode32 w = FNaN \<and> decode64 d = FNaN \<or> feq (decode32 w) (decode64 d))"
proof -
  have nan: "double_isnan v \<longleftrightarrow> decode64 v = FNaN" for v
    by (cases "decode64 v") (simp_all add: double_isnan_def)
  show ?thesis
    using canonical_double_same [of "float_to_double w" d]
    by (simp add: nan decode64_float_to_double)
qed

text \<open>
  An integer key is sign-extended to 64 bits, whatever its type: the canonical pattern of
  a narrow key has the signed value of its bits, an unsigned narrow key gets the pattern of
  the signed key with the same bits, and keys of one type with different bits get different
  patterns.
\<close>

theorem canonical_integer:
  "sint (canonicalize (Key_i32 a)) = sint a \<and> sint (canonicalize (Key_i16 b)) = sint b \<and>
   sint (canonicalize (Key_i8 c)) = sint c \<and>
   canonicalize (Key_u32 a) = canonicalize (Key_i32 a) \<and>
   canonicalize (Key_u16 b) = canonicalize (Key_i16 b) \<and>
   canonicalize (Key_u8 c) = canonicalize (Key_i8 c) \<and>
   (canonicalize (Key_u32 a) = canonicalize (Key_u32 a')) = (a = a') \<and>
   canonicalize (Key_u64 d) = d \<and> canonicalize (Key_i64 d) = d"
proof -
  have "sint (scast a :: u64) = sint a" "sint (scast a' :: u64) = sint a'"
    "sint (scast b :: u64) = sint b" "sint (scast c :: u64) = sint c"
    by (simp_all add: sint_up_scast is_up)
  then show ?thesis by simp (metis signed_word_eqI)
qed

end
