(* ===== verification/Hll_Policy.thy ===== *)
theory Hll_Policy
  imports Normalizing_Hasher
begin

text \<open>
  \<^verbatim>\<open>detail/hll/policy.cuh\<close>: how the policy cuts a 128-bit hash into the index of a register
  and the value offered to it. The low 64 bits are \<open>h1\<close>, the high 64 bits \<open>h2\<close>.
\<close>

section \<open>Definitions\<close>

definition hll_hash :: "platform \<Rightarrow> key \<Rightarrow> u128" where
  "hll_hash pf k = normalizing_hash pf default_seed k"

definition register_index :: "u128 \<Rightarrow> nat \<Rightarrow> u32" where
  "register_index h precision =
     (let h1 = ucast h :: u64; msk = push_bit precision 1 - 1 in ucast (h1 AND msk))"

text \<open>\<^verbatim>\<open>cuda::std::countl_zero\<close> of a 64-bit integer.\<close>

definition countl_zero :: "u64 \<Rightarrow> nat" where
  "countl_zero w = 64 - bit_width (unat w)"

definition register_value :: "u128 \<Rightarrow> nat \<Rightarrow> u8" where
  "register_value h precision =
     (let h2 = ucast (drop_bit 64 h) :: u64; lz = word_of_nat (countl_zero h2) :: u8;
          cap = (if 62 < lz then 62 else lz)
      in cap + 1)"

section \<open>Facts\<close>

text \<open>The halves of a hash.\<close>

lemma unat_low_half: "unat (ucast h :: u64) = unat (h :: u128) mod 2 ^ 64"
  by (simp add: unsigned_ucast_eq take_bit_eq_mod)

lemma unat_high_half: "unat (ucast (drop_bit 64 h) :: u64) = unat (h :: u128) div 2 ^ 64"
proof -
  have "unat h < 2 ^ 128" using unsigned_less [of h, where ?'a = nat] by simp
  then have "unat h div 2 ^ 64 < 2 ^ 64" by (simp add: less_mult_imp_div_less)
  then show ?thesis
    unfolding unsigned_ucast_eq unat_drop_bit_eq unfolding drop_bit_eq_div
    by (simp add: take_bit_nat_eq_self)
qed

lemma unat_register_index:
  assumes "p \<le> 32"
  shows "unat (register_index h p) = unat (ucast h :: u64) mod 2 ^ p"
proof -
  let ?h1 = "ucast h :: u64"
  have "push_bit p 1 - 1 = (mask p :: u64)"
    by (simp add: mask_eq_exp_minus_1 push_bit_eq_mult)
  then have "register_index h p = ucast (take_bit p ?h1)"
    by (simp add: register_index_def Let_def take_bit_eq_mask)
  moreover have t: "unat (take_bit p ?h1) = unat ?h1 mod 2 ^ p"
    by (simp only: unsigned_take_bit_eq) (simp only: take_bit_eq_mod)
  moreover have "unat ?h1 mod 2 ^ p < 2 ^ 32"
    using assms by (meson less_le_trans mod_less_divisor power_increasing zero_less_numeral
        zero_less_power one_le_numeral)
  ultimately show ?thesis
    by (simp only: unsigned_ucast_eq) (simp add: take_bit_eq_mod)
qed

lemma register_index_less: "p \<le> 32 \<Longrightarrow> unat (register_index h p) < 2 ^ p"
  by (simp add: unat_register_index)

lemma bit_width_u64: "bit_width (unat (w :: u64)) \<le> 64"
  using unsigned_less [of w, where ?'a = nat] by (simp add: bit_width_le_iff)

lemma unat_register_value:
  "unat (register_value h p) = min (countl_zero (ucast (drop_bit 64 h))) 62 + 1"
proof -
  let ?lz = "countl_zero (ucast (drop_bit 64 h))"
  have le: "?lz \<le> 64" by (simp add: countl_zero_def)
  then have u: "unat (word_of_nat ?lz :: u8) = ?lz" by (simp add: unat_of_nat)
  have "register_value h p = word_of_nat (min ?lz 62 + 1)"
    using le by (simp add: register_value_def Let_def word_less_nat_alt u min_def)
  moreover have "min ?lz 62 + 1 < 2 ^ 8" by simp
  ultimately show ?thesis by (simp only: unat_of_nat) simp
qed

text \<open>Rho counts the leading zeros: the value says between which powers of two \<open>h2\<close> lies.\<close>

lemma register_value_range: "1 \<le> unat (register_value h p) \<and> unat (register_value h p) \<le> 63"
  by (simp add: unat_register_value)

lemma register_value_iff:
  assumes "0 < r" and "r < 63"
  shows "unat (register_value h p) = r \<longleftrightarrow>
    2 ^ (64 - r) \<le> unat (ucast (drop_bit 64 h) :: u64) \<and>
    unat (ucast (drop_bit 64 h) :: u64) < 2 ^ (65 - r)"
proof -
  let ?w = "bit_width (unat (ucast (drop_bit 64 h) :: u64))"
  have "unat (register_value h p) = r \<longleftrightarrow> ?w = 65 - r"
    using assms bit_width_u64 [of "ucast (drop_bit 64 h)"]
    by (auto simp: unat_register_value countl_zero_def)
  also have "\<dots> \<longleftrightarrow> 64 - r < ?w \<and> ?w \<le> 65 - r" using assms by auto
  finally show ?thesis by (simp add: less_bit_width_iff bit_width_le_iff)
qed

lemma register_value_top:
  "unat (register_value h p) = 63 \<longleftrightarrow> unat (ucast (drop_bit 64 h) :: u64) < 4"
  using bit_width_le_iff [of "unat (ucast (drop_bit 64 h) :: u64)" 2]
  by (auto simp: unat_register_value countl_zero_def min_def)

text \<open>The same in terms of the whole hash.\<close>

lemma register_index_hash:
  assumes "p \<le> 32" shows "unat (register_index h p) = unat h mod 2 ^ p"
  unfolding unat_register_index [OF assms] unat_low_half
  by (rule mod_mod_cancel) (use assms in \<open>simp add: le_imp_power_dvd del: power_numeral\<close>)

lemma register_value_ge_hash:
  assumes "0 < r" and "r \<le> 63"
  shows "r \<le> unat (register_value h p) \<longleftrightarrow> unat h div 2 ^ 64 < 2 ^ (65 - r)"
proof -
  let ?w = "bit_width (unat (ucast (drop_bit 64 h) :: u64))"
  have "r \<le> unat (register_value h p) \<longleftrightarrow> ?w \<le> 65 - r"
    using assms bit_width_u64 [of "ucast (drop_bit 64 h)"]
    by (auto simp: unat_register_value countl_zero_def min_def)
  then show ?thesis by (simp add: bit_width_le_iff unat_high_half)
qed

text \<open>
  The register index of every hash is \<open>h1\<close> modulo the number of registers, and the value
  is the position of the leading one bit of \<open>h2\<close>, from 1 to 63: below 63 it fixes the power of
  two \<open>h2\<close> reaches, and 63 stands for all \<open>h2 < 4\<close>, zero included.
\<close>

theorem hll_coupon:
  assumes "p \<le> 32"
  shows "unat (register_index h p) = unat (ucast h :: u64) mod 2 ^ p \<and>
    1 \<le> unat (register_value h p) \<and> unat (register_value h p) \<le> 63 \<and>
    (if unat (register_value h p) < 63
     then 2 ^ (64 - unat (register_value h p)) \<le> unat (ucast (drop_bit 64 h) :: u64) \<and>
       unat (ucast (drop_bit 64 h) :: u64) < 2 ^ (65 - unat (register_value h p))
     else unat (ucast (drop_bit 64 h) :: u64) < 4)"
  using unat_register_index [OF assms] register_value_range [of h p] register_value_top [of h p]
    register_value_iff [of "unat (register_value h p)" h p] by auto

theorem hll_coupon_witness:
  "unat (register_index 0x0000000000000010000000000000abcd 12) = 0xbcd \<and>
   unat (register_value 0x0000000000000010000000000000abcd 12) = 60"
proof -
  have "unat (register_value 0x0000000000000010000000000000abcd 12) = 60"
    by (subst register_value_iff) simp_all
  with hll_coupon [of 12 "0x0000000000000010000000000000abcd"] show ?thesis by simp
qed

end
