(* ===== verification/Hll_Distribution.thy ===== *)
theory Hll_Distribution
  imports Hll_Policy
begin

text \<open>
  How the policy spreads uniform hashes over registers and values: every register gets the same
  share of the \<open>2^128\<close> hashes, every value half the share of the one below it, and the two are
  independent, because they are read from different halves of the hash.
\<close>

section \<open>Counting hashes\<close>

lemma card_halves:
  assumes "A \<subseteq> {..<2 ^ 64}" and "B \<subseteq> {..<2 ^ 64}"
  shows "card {h :: u128. unat (ucast h :: u64) \<in> A \<and> unat (ucast (drop_bit 64 h) :: u64) \<in> B} = card A * card B"
proof -
  let ?split = "\<lambda>h :: u128. (unat h mod 2 ^ 64, unat h div 2 ^ 64)"
  let ?join = "\<lambda>(a, b). word_of_nat (a + 2 ^ 64 * b) :: u128"
  let ?S = "{h :: u128. unat h mod 2 ^ 64 \<in> A \<and> unat h div 2 ^ 64 \<in> B}"
  have join: "unat (?join (a, b)) = a + 2 ^ 64 * b" if "a \<in> A" "b \<in> B" for a b
  proof -
    have "a < 2 ^ 64" "b < 2 ^ 64" using that assms by auto
    then have "a + 2 ^ 64 * b < 2 ^ 64 + 2 ^ 64 * (2 ^ 64 - 1)"
      by (intro add_less_le_mono mult_left_mono) simp_all
    then have "a + 2 ^ 64 * b < 2 ^ LENGTH(128)" by simp
    then show ?thesis unfolding prod.case by (simp only: unat_of_nat mod_less)
  qed
  have low: "a < 2 ^ 64" if "a \<in> A" for a using that assms by auto
  have whole: "?join (?split h) = h" for h
    unfolding prod.case mod_mult_div_eq by simp
  have "bij_betw ?split ?S (A \<times> B)"
  proof (rule bij_betw_byWitness [where f' = ?join])
    show "\<forall>h \<in> ?S. ?join (?split h) = h" using whole by blast
    show "\<forall>c \<in> A \<times> B. ?split (?join c) = c" "?join ` (A \<times> B) \<subseteq> ?S"
      using join low by (auto simp del: of_nat_add of_nat_mult)
    show "?split ` ?S \<subseteq> A \<times> B" by blast
  qed
  then have "card ?S = card (A \<times> B)" by (rule bij_betw_same_card)
  then show ?thesis
    unfolding unat_high_half unfolding unat_low_half by (simp only: card_cartesian_product)
qed

lemma card_residues:
  assumes "p \<le> 64" and "i < 2 ^ p"
  shows "card {a :: nat. a < 2 ^ 64 \<and> a mod 2 ^ p = i} = 2 ^ (64 - p)"
proof -
  have split: "(2 :: nat) ^ 64 = 2 ^ p * 2 ^ (64 - p)" using assms(1) by (simp add: power_add [symmetric])
  have "{a :: nat. a < 2 ^ 64 \<and> a mod 2 ^ p = i} = (\<lambda>q. i + 2 ^ p * q) ` {..<2 ^ (64 - p)}"
  proof (intro set_eqI iffI)
    fix a :: nat assume a: "a \<in> {a. a < 2 ^ 64 \<and> a mod 2 ^ p = i}"
    then have "a div 2 ^ p < 2 ^ (64 - p)" unfolding split by (simp add: less_mult_imp_div_less mult.commute)
    moreover have "a = i + 2 ^ p * (a div 2 ^ p)" using a mod_mult_div_eq [of a "2 ^ p"] by simp
    ultimately show "a \<in> (\<lambda>q. i + 2 ^ p * q) ` {..<2 ^ (64 - p)}" by blast
  next
    fix a :: nat assume "a \<in> (\<lambda>q. i + 2 ^ p * q) ` {..<2 ^ (64 - p)}"
    then obtain q where q: "a = i + 2 ^ p * q" "q < 2 ^ (64 - p)" by auto
    have "i + 2 ^ p * q < 2 ^ p * Suc q" using assms(2) by simp
    also have "\<dots> \<le> 2 ^ 64" unfolding split using q(2) by (intro mult_left_mono) simp_all
    finally show "a \<in> {a. a < 2 ^ 64 \<and> a mod 2 ^ p = i}" using q(1) assms(2) by simp
  qed
  moreover have "inj_on (\<lambda>q. i + 2 ^ p * q) {..<2 ^ (64 - p)}" by (rule inj_onI) simp
  ultimately show ?thesis by (simp add: card_image)
qed

section \<open>Registers and values\<close>

text \<open>
  C22: of the \<open>2^128\<close> hashes exactly the share \<open>2^-(p + v)\<close> offers the value \<open>v\<close> to the register \<open>i\<close>, for
  every one of the \<open>2^p\<close> registers and every value from 1 to 62; the value 63 has the share
  \<open>2^-(p + 62)\<close>, the same as 62, since it stands for all larger values. Index and value are independent.
\<close>

theorem hll_hash_distribution:
  assumes "p \<le> 32" and "i < 2 ^ p" and "1 \<le> v" and "v \<le> 63"
  shows "card {h. unat (register_index h p) = i \<and> unat (register_value h p) = v} * 2 ^ (p + min v 62) = 2 ^ 128"
proof -
  let ?A = "{a :: nat. a < 2 ^ 64 \<and> a mod 2 ^ p = i}"
  define B where "B = (if v < 63 then {2 ^ (64 - v)..<2 ^ (65 - v)} else {..<4 :: nat})"
  have B: "B \<subseteq> {..<2 ^ 64}"
  proof (cases "v < 63")
    case True
    have "(2 :: nat) ^ (65 - v) \<le> 2 ^ 64" using assms(3) by (intro power_increasing) simp_all
    then show ?thesis using True by (auto simp: B_def intro: less_le_trans)
  qed (auto simp: B_def)
  have offered: "unat (register_value h p) = v \<longleftrightarrow> unat (ucast (drop_bit 64 h) :: u64) \<in> B" for h
    using register_value_iff [of v h p] register_value_top [of h p] assms(3,4)
    by (cases "v < 63") (auto simp: B_def)
  have index: "unat (register_index h p) = i \<longleftrightarrow> unat (ucast h :: u64) \<in> ?A" for h
    using unsigned_less [of "ucast h :: u64", where ?'a = nat] by (simp add: unat_register_index [OF assms(1)])
  have "card {h. unat (register_index h p) = i \<and> unat (register_value h p) = v} = card ?A * card B"
    unfolding offered index by (rule card_halves [OF _ B]) auto
  also have "card ?A = 2 ^ (64 - p)" by (rule card_residues) (use assms in auto)
  also have "card B = 2 ^ (64 - min v 62)"
  proof (cases "v < 63")
    case True
    then have "65 - v = Suc (64 - v)" by simp
    then show ?thesis using True by (simp add: B_def min_def)
  next
    case False
    then show ?thesis using assms(4) by (simp add: B_def)
  qed
  finally show ?thesis using assms(1) by (simp add: power_add [symmetric])
qed

theorem hll_hash_distribution_witness:
  "card {h. unat (register_index h 12) = 7 \<and> unat (register_value h 12) = 3} = 2 ^ 113"
  using hll_hash_distribution [of 12 7 3] by simp

end
