(* ===== verification/Hll_Env.thy ===== *)
theory Hll_Env
  imports Bytes Double
begin

text \<open>
  What the HLL code takes from elsewhere. The byte offsets, masks and numbers of the image are
  \<^verbatim>\<open>datasketches::hll_constants\<close>, the enumerator \<^verbatim>\<open>HLL_8\<close>, the argument checks and relative
  errors of \<^verbatim>\<open>HllUtil\<close> and the table \<^verbatim>\<open>INVERSE_POWERS_OF_2\<close> are datasketches-cpp code;
  \<^verbatim>\<open>cuda::std::log\<close> is the device's mathematical library. They are the fields of the record
  \<open>hll_env\<close>. \<open>format_ok\<close> says what the code relies on of the format: the fields fit the
  preamble without overlapping, the flags are distinct bits, and the checks accept the documented
  ranges. \<open>numerics_ok\<close> says that the table holds the powers of two, and that the logarithm of
  a finite number from 1 on is a finite number between 0 and its argument.
\<close>

record hll_env =
  PREAMBLE_INTS_BYTE :: nat
  SER_VER_BYTE :: nat
  FAMILY_BYTE :: nat
  LG_K_BYTE :: nat
  LG_ARR_BYTE :: nat
  FLAGS_BYTE :: nat
  HLL_CUR_MIN_BYTE :: nat
  MODE_BYTE :: nat
  HIP_ACCUM_DOUBLE :: nat
  KXQ0_DOUBLE :: nat
  KXQ1_DOUBLE :: nat
  CUR_MIN_COUNT_INT :: nat
  AUX_COUNT_INT :: nat
  HLL_PREINTS :: u8
  SER_VER :: u8
  FAMILY_ID :: u8
  EMPTY_FLAG_MASK :: u8
  COMPACT_FLAG_MASK :: u8
  OUT_OF_ORDER_FLAG_MASK :: u8
  FULL_SIZE_FLAG_MASK :: u8
  HLL_8 :: u8
  checkLgK :: "u8 \<Rightarrow> unit result"
  checkNumStdDev :: "u8 \<Rightarrow> unit result"
  getRelErr :: "bool \<Rightarrow> bool \<Rightarrow> u8 \<Rightarrow> u8 \<Rightarrow> fp"
  INVERSE_POWERS_OF_2 :: "u8 \<Rightarrow> fp"
  flog :: "fp \<Rightarrow> fp"

definition field_ranges :: "hll_env \<Rightarrow> nat list" where
  "field_ranges c =
     [PREAMBLE_INTS_BYTE c, SER_VER_BYTE c, FAMILY_BYTE c, LG_K_BYTE c, LG_ARR_BYTE c,
      FLAGS_BYTE c, HLL_CUR_MIN_BYTE c, MODE_BYTE c]
     @ [HIP_ACCUM_DOUBLE c..<HIP_ACCUM_DOUBLE c + 8] @ [KXQ0_DOUBLE c..<KXQ0_DOUBLE c + 8]
     @ [KXQ1_DOUBLE c..<KXQ1_DOUBLE c + 8] @ [CUR_MIN_COUNT_INT c..<CUR_MIN_COUNT_INT c + 4]
     @ [AUX_COUNT_INT c..<AUX_COUNT_INT c + 4]"

definition flag_masks :: "hll_env \<Rightarrow> u8 list" where
  "flag_masks c = [EMPTY_FLAG_MASK c, COMPACT_FLAG_MASK c, OUT_OF_ORDER_FLAG_MASK c,
     FULL_SIZE_FLAG_MASK c]"

definition format_ok :: "hll_env \<Rightarrow> bool" where
  "format_ok c \<longleftrightarrow> distinct (field_ranges c) \<and> (\<forall>i \<in> set (field_ranges c). i < 40) \<and>
     (\<forall>m \<in> set (flag_masks c). m \<noteq> 0) \<and> pairwise (\<lambda>m n. m AND n = 0) (set (flag_masks c)) \<and>
     distinct (flag_masks c) \<and> HLL_8 c < 4 \<and>
     (\<forall>lgK. checkLgK c lgK = Inr () \<longleftrightarrow> 4 \<le> lgK \<and> lgK \<le> 21) \<and>
     (\<forall>n. checkNumStdDev c n = Inr () \<longleftrightarrow> 1 \<le> n \<and> n \<le> 3)"

definition numerics_ok :: "hll_env \<Rightarrow> bool" where
  "numerics_ok c \<longleftrightarrow>
     (\<forall>v. INVERSE_POWERS_OF_2 c v = Fin (1 / 2 ^ unat v)) \<and>
     (\<forall>x \<ge> 1. \<exists>y. flog c (Fin x) = Fin y \<and> 0 \<le> y \<and> y \<le> x)"

text \<open>
  An instance that meets both: the numbers of datasketches-cpp's \<^verbatim>\<open>hll_constants\<close>, a constant
  relative error, and the binary logarithm rounded down in the place of the natural one.
\<close>

definition upstream_format :: hll_env where
  "upstream_format =
     \<lparr>PREAMBLE_INTS_BYTE = 0, SER_VER_BYTE = 1, FAMILY_BYTE = 2, LG_K_BYTE = 3, LG_ARR_BYTE = 4,
      FLAGS_BYTE = 5, HLL_CUR_MIN_BYTE = 6, MODE_BYTE = 7, HIP_ACCUM_DOUBLE = 8, KXQ0_DOUBLE = 16,
      KXQ1_DOUBLE = 24, CUR_MIN_COUNT_INT = 32, AUX_COUNT_INT = 36, HLL_PREINTS = 10, SER_VER = 1,
      FAMILY_ID = 7, EMPTY_FLAG_MASK = 4, COMPACT_FLAG_MASK = 8, OUT_OF_ORDER_FLAG_MASK = 16,
      FULL_SIZE_FLAG_MASK = 32, HLL_8 = 2,
      checkLgK = (\<lambda>lgK. if lgK < 4 \<or> 21 < lgK
        then Inl (Invalid_argument ''Invalid value of lgK'') else Inr ()),
      checkNumStdDev = (\<lambda>n. if n < 1 \<or> 3 < n
        then Inl (Invalid_argument ''NumStdDev may not be less than 1 or greater than 3.'')
        else Inr ()),
      getRelErr = (\<lambda>upper _ _ _. if upper then Fin (- 1 / 4) else Fin (1 / 4)),
      INVERSE_POWERS_OF_2 = (\<lambda>v. Fin (1 / 2 ^ unat v)),
      flog = (\<lambda>x. Fin (of_int (ilog2 (fval x))))\<rparr>"

lemma format_ok_upstream: "format_ok upstream_format"
  by (simp add: format_ok_def upstream_format_def field_ranges_def flag_masks_def pairwise_def
      upt_rec word_less_nat_alt word_le_nat_alt unat_eq_0 [symmetric]; presburger)

lemma numerics_ok_upstream: "numerics_ok upstream_format"
proof -
  have "0 \<le> ilog2 x \<and> of_int (ilog2 x) \<le> x" if x: "1 \<le> x" for x :: rat
  proof -
    have z: "0 \<le> ilog2 x" using x ilog2_le_iff [of x 0] by simp
    have "int (nat (ilog2 x)) \<le> 2 ^ nat (ilog2 x)"
      by (metis less_exp of_nat_le_iff of_nat_numeral of_nat_power order_less_imp_le)
    then have "(of_int (ilog2 x) :: rat) \<le> of_int (2 ^ nat (ilog2 x))"
      using z by (simp only: of_int_le_iff)
    also have "\<dots> = 2 powi ilog2 x" using z by (simp add: power_int_def)
    also have "\<dots> \<le> x" using x by (intro ilog2_ge) simp
    finally show ?thesis using z by simp
  qed
  then show ?thesis by (simp add: numerics_ok_def upstream_format_def)
qed

end
