(* ===== verification/Hll_Preamble.thy ===== *)
theory Hll_Preamble
  imports Hll_Env
begin

text \<open>
  \<^verbatim>\<open>detail/hll/preamble.hpp\<close>: the 40-byte preamble of an HLL image, assembled and parsed.
  The doubles of the preamble are their bit patterns. Bytes are indexed by the offsets of the
  format, which \<open>format_ok\<close> keeps inside the 40 bytes.
\<close>

section \<open>Fields\<close>

definition PREAMBLE_BYTES :: nat where "PREAMBLE_BYTES = 40"

definition mode_list :: u8 where "mode_list = 0"
definition mode_set :: u8 where "mode_set = 1"
definition mode_hll :: u8 where "mode_hll = 2"

record preamble_fields =
  pf_lgK :: u8
  pf_mode :: u8
  pf_tgt :: u8
  pf_is_empty :: bool
  pf_is_compact :: bool
  pf_ooo_flag :: bool
  pf_full_size_flag :: bool
  pf_cur_min :: u8
  pf_num_at_cur_min :: u32
  pf_kxq0 :: u64
  pf_kxq1 :: u64
  pf_hip_accum :: u64
  pf_aux_lg_int_arr_size :: u8
  pf_aux_count :: u32

definition pack_flags :: "hll_env \<Rightarrow> preamble_fields \<Rightarrow> u8" where
  "pack_flags c f =
     (let flags = 0;
          flags = (if pf_is_empty f then flags OR EMPTY_FLAG_MASK c else flags);
          flags = (if pf_is_compact f then flags OR COMPACT_FLAG_MASK c else flags);
          flags = (if pf_ooo_flag f then flags OR OUT_OF_ORDER_FLAG_MASK c else flags)
      in if pf_full_size_flag f then flags OR FULL_SIZE_FLAG_MASK c else flags)"

definition pack_mode :: "preamble_fields \<Rightarrow> u8" where
  "pack_mode f = push_bit 2 (pf_tgt f AND 3) OR (pf_mode f AND 3)"

definition assemble_preamble :: "hll_env \<Rightarrow> preamble_fields \<Rightarrow> u8 list" where
  "assemble_preamble c f =
     (let b = replicate PREAMBLE_BYTES 0;
          b = b[PREAMBLE_INTS_BYTE c := HLL_PREINTS c];
          b = b[SER_VER_BYTE c := SER_VER c];
          b = b[FAMILY_BYTE c := FAMILY_ID c];
          b = b[LG_K_BYTE c := pf_lgK f];
          b = b[LG_ARR_BYTE c := pf_aux_lg_int_arr_size f];
          b = b[FLAGS_BYTE c := pack_flags c f];
          b = b[HLL_CUR_MIN_BYTE c := pf_cur_min f];
          b = b[MODE_BYTE c := pack_mode f];
          b = put_at b (HIP_ACCUM_DOUBLE c) (enc64 (pf_hip_accum f));
          b = put_at b (KXQ0_DOUBLE c) (enc64 (pf_kxq0 f));
          b = put_at b (KXQ1_DOUBLE c) (enc64 (pf_kxq1 f));
          b = put_at b (CUR_MIN_COUNT_INT c) (enc32 (pf_num_at_cur_min f))
      in put_at b (AUX_COUNT_INT c) (enc32 (pf_aux_count f)))"

definition parse_preamble :: "hll_env \<Rightarrow> u8 list \<Rightarrow> preamble_fields result" where
  "parse_preamble c bytes =
     (if bytes ! SER_VER_BYTE c \<noteq> SER_VER c
      then Inl (Invalid_argument ''datasketches::cuda preamble: bad SER_VER'')
      else if bytes ! FAMILY_BYTE c \<noteq> FAMILY_ID c
      then Inl (Invalid_argument ''datasketches::cuda preamble: bad FAMILY_ID'')
      else if bytes ! PREAMBLE_INTS_BYTE c \<noteq> HLL_PREINTS c
      then Inl (Invalid_argument
        ''datasketches::cuda preamble: PREAMBLE_INTS != HLL_PREINTS (LIST/SET deserialize is not supported)'')
      else let lgK = bytes ! LG_K_BYTE c in
      bind_result (checkLgK c lgK) (\<lambda>_.
      let flags = bytes ! FLAGS_BYTE c; packed_mode_byte = bytes ! MODE_BYTE c;
          mode = packed_mode_byte AND 3; tgt = drop_bit 2 packed_mode_byte AND 3
      in if mode \<noteq> mode_hll
         then Inl (Invalid_argument
           ''datasketches::cuda preamble: only HLL mode is supported (got LIST or SET)'')
         else if tgt \<noteq> HLL_8 c
         then Inl (Invalid_argument ''datasketches::cuda preamble: only HLL_8 target is supported'')
         else Inr
           \<lparr>pf_lgK = lgK, pf_mode = mode, pf_tgt = tgt,
            pf_is_empty = (flags AND EMPTY_FLAG_MASK c \<noteq> 0),
            pf_is_compact = (flags AND COMPACT_FLAG_MASK c \<noteq> 0),
            pf_ooo_flag = (flags AND OUT_OF_ORDER_FLAG_MASK c \<noteq> 0),
            pf_full_size_flag = (flags AND FULL_SIZE_FLAG_MASK c \<noteq> 0),
            pf_cur_min = bytes ! HLL_CUR_MIN_BYTE c,
            pf_num_at_cur_min = dec32 (get_at bytes (CUR_MIN_COUNT_INT c) 4),
            pf_kxq0 = dec64 (get_at bytes (KXQ0_DOUBLE c) 8),
            pf_kxq1 = dec64 (get_at bytes (KXQ1_DOUBLE c) 8),
            pf_hip_accum = dec64 (get_at bytes (HIP_ACCUM_DOUBLE c) 8),
            pf_aux_lg_int_arr_size = bytes ! LG_ARR_BYTE c,
            pf_aux_count = dec32 (get_at bytes (AUX_COUNT_INT c) 4)\<rparr>))"

section \<open>Writing disjoint fields\<close>

text \<open>A sequence of writes into a buffer; with disjoint ranges each one is read back.\<close>

definition write_all :: "u8 list \<Rightarrow> (nat \<times> u8 list) list \<Rightarrow> u8 list" where
  "write_all b ws = foldl (\<lambda>b (off, xs). put_at b off xs) b ws"

definition ranges :: "(nat \<times> u8 list) list \<Rightarrow> nat list" where
  "ranges ws = concat (map (\<lambda>(off, xs). [off..<off + length xs]) ws)"

lemma write_all_simps [simp]:
  "write_all b [] = b" "write_all b ((off, xs) # ws) = write_all (put_at b off xs) ws"
  by (simp_all add: write_all_def)

lemma ranges_simps [simp]:
  "ranges [] = []" "ranges ((off, xs) # ws) = [off..<off + length xs] @ ranges ws"
  by (simp_all add: ranges_def)

lemma length_write_all: "\<forall>i \<in> set (ranges ws). i < length b \<Longrightarrow>
    \<forall>(off, xs) \<in> set ws. xs \<noteq> [] \<Longrightarrow> length (write_all b ws) = length b"
proof (induction ws arbitrary: b)
  case (Cons w ws)
  obtain off xs where w: "w = (off, xs)" by (cases w)
  have "off + length xs \<le> length b"
    using Cons.prems w by (cases xs rule: rev_cases) auto
  with Cons w show ?case by simp
qed simp

lemma nth_write_all_other:
  assumes "\<forall>j \<in> set (ranges ws). j < length b" and "\<forall>(off, xs) \<in> set ws. xs \<noteq> []"
    and "i < length b" and "i \<notin> set (ranges ws)"
  shows "write_all b ws ! i = b ! i"
  using assms
proof (induction ws arbitrary: b)
  case (Cons w ws)
  obtain off xs where w: "w = (off, xs)" by (cases w)
  have "off + length xs \<le> length b"
    using Cons.prems w by (cases xs rule: rev_cases) auto
  with Cons w show ?case by (auto simp: nth_put_at)
qed simp

lemma nth_write_all:
  assumes "\<forall>j \<in> set (ranges ws). j < length b" and "\<forall>(off, xs) \<in> set ws. xs \<noteq> []"
    and "distinct (ranges ws)" and "(off, xs) \<in> set ws" and "i < length xs"
  shows "write_all b ws ! (off + i) = xs ! i"
  using assms
proof (induction ws arbitrary: b)
  case (Cons w ws)
  obtain o' ys where w: "w = (o', ys)" by (cases w)
  have le: "o' + length ys \<le> length b"
    using Cons.prems w by (cases ys rule: rev_cases) auto
  show ?case
  proof (cases "(off, xs) = w")
    case True
    moreover have "off + i \<in> {off..<off + length xs}" using Cons.prems(5) by simp
    ultimately have "off + i \<notin> set (ranges ws)" using Cons.prems(3) w by (auto simp del: atLeastLessThan_iff)
    then have "write_all b (w # ws) ! (off + i) = put_at b off xs ! (off + i)"
      using nth_write_all_other [of ws "put_at b off xs" "off + i"] Cons.prems True w le by auto
    with True Cons.prems(5) w le show ?thesis by (simp add: nth_put_at)
  next
    case False
    with Cons w le show ?thesis by auto
  qed
qed simp

lemma get_write_all:
  assumes "\<forall>j \<in> set (ranges ws). j < length b" and "\<forall>(off, xs) \<in> set ws. xs \<noteq> []"
    and "distinct (ranges ws)" and "(off, xs) \<in> set ws"
  shows "get_at (write_all b ws) off (length xs) = xs"
proof -
  have "set [off..<off + length xs] \<subseteq> set (ranges ws)" using assms(4) by (force simp: ranges_def)
  then have "off + length xs \<le> length b"
    using assms(1,2,4) by (cases xs rule: rev_cases) auto
  then show ?thesis
    using nth_write_all [OF assms] length_write_all [OF assms(1,2)]
    by (intro nth_equalityI) (auto simp: nth_get_at)
qed

lemma list_update_put_at: "off < length b \<Longrightarrow> b[off := v] = put_at b off [v]"
  by (simp add: put_at_def upd_conv_take_nth_drop)

section \<open>Assembling as disjoint writes\<close>

definition preamble_writes :: "hll_env \<Rightarrow> preamble_fields \<Rightarrow> (nat \<times> u8 list) list" where
  "preamble_writes c f =
     [(PREAMBLE_INTS_BYTE c, [HLL_PREINTS c]), (SER_VER_BYTE c, [SER_VER c]),
      (FAMILY_BYTE c, [FAMILY_ID c]), (LG_K_BYTE c, [pf_lgK f]),
      (LG_ARR_BYTE c, [pf_aux_lg_int_arr_size f]), (FLAGS_BYTE c, [pack_flags c f]),
      (HLL_CUR_MIN_BYTE c, [pf_cur_min f]), (MODE_BYTE c, [pack_mode f]),
      (HIP_ACCUM_DOUBLE c, enc64 (pf_hip_accum f)), (KXQ0_DOUBLE c, enc64 (pf_kxq0 f)),
      (KXQ1_DOUBLE c, enc64 (pf_kxq1 f)), (CUR_MIN_COUNT_INT c, enc32 (pf_num_at_cur_min f)),
      (AUX_COUNT_INT c, enc32 (pf_aux_count f))]"

lemma preamble_writes_ok:
  assumes "format_ok c"
  shows "\<forall>j \<in> set (ranges (preamble_writes c f)). j < length (replicate 40 (0 :: u8))"
    and "\<forall>(off, xs) \<in> set (preamble_writes c f). xs \<noteq> []"
    and "distinct (ranges (preamble_writes c f))"
proof -
  have eq: "ranges (preamble_writes c f) = field_ranges c"
    by (simp add: preamble_writes_def field_ranges_def)
  show "\<forall>j \<in> set (ranges (preamble_writes c f)). j < length (replicate 40 (0 :: u8))"
    and "distinct (ranges (preamble_writes c f))"
    using assms by (simp_all add: eq format_ok_def)
  have "enc64 w \<noteq> []" "enc32 v \<noteq> []" for w v
    by (metis c64.length_enc list.size(3) zero_neq_numeral)
      (metis c32.length_enc list.size(3) zero_neq_numeral)
  then show "\<forall>(off, xs) \<in> set (preamble_writes c f). xs \<noteq> []"
    by (simp add: preamble_writes_def)
qed

lemma assemble_preamble_writes:
  assumes "format_ok c"
  shows "assemble_preamble c f = write_all (replicate 40 0) (preamble_writes c f)"
proof -
  have "\<forall>i \<in> set (field_ranges c). i < 40" using assms by (simp add: format_ok_def)
  then have lt: "PREAMBLE_INTS_BYTE c < 40" "SER_VER_BYTE c < 40" "FAMILY_BYTE c < 40"
    "LG_K_BYTE c < 40" "LG_ARR_BYTE c < 40" "FLAGS_BYTE c < 40" "HLL_CUR_MIN_BYTE c < 40"
    "MODE_BYTE c < 40"
    by (simp_all add: field_ranges_def)
  show ?thesis
    by (simp add: assemble_preamble_def Let_def preamble_writes_def PREAMBLE_BYTES_def
        list_update_put_at [symmetric] lt)
qed

lemma length_assemble_preamble: "format_ok c \<Longrightarrow> length (assemble_preamble c f) = 40"
  by (simp add: assemble_preamble_writes length_write_all [OF preamble_writes_ok(1,2)])

lemma read_preamble:
  assumes "format_ok c" and "(off, xs) \<in> set (preamble_writes c f)"
  shows "get_at (assemble_preamble c f) off (length xs) = xs"
    and "xs = [v] \<Longrightarrow> assemble_preamble c f ! off = v"
  using get_write_all [OF preamble_writes_ok [OF assms(1)] assms(2)]
    nth_write_all [OF preamble_writes_ok [OF assms(1)] assms(2), of 0]
  by (simp_all add: assemble_preamble_writes [OF assms(1)])

lemma flags_apart:
  assumes "format_ok c"
  shows "pack_flags c f AND EMPTY_FLAG_MASK c \<noteq> 0 \<longleftrightarrow> pf_is_empty f"
    and "pack_flags c f AND COMPACT_FLAG_MASK c \<noteq> 0 \<longleftrightarrow> pf_is_compact f"
    and "pack_flags c f AND OUT_OF_ORDER_FLAG_MASK c \<noteq> 0 \<longleftrightarrow> pf_ooo_flag f"
    and "pack_flags c f AND FULL_SIZE_FLAG_MASK c \<noteq> 0 \<longleftrightarrow> pf_full_size_flag f"
proof -
  have *: "m AND n = 0" if "m \<in> set (flag_masks c)" and "n \<in> set (flag_masks c)" and "m \<noteq> n"
    for m n
    using assms that by (auto simp: format_ok_def pairwise_def)
  have dist: "distinct (flag_masks c)" and nz: "\<forall>m \<in> set (flag_masks c). m \<noteq> 0"
    using assms by (simp_all add: format_ok_def)
  let ?E = "EMPTY_FLAG_MASK c" and ?C = "COMPACT_FLAG_MASK c"
  let ?O = "OUT_OF_ORDER_FLAG_MASK c" and ?F = "FULL_SIZE_FLAG_MASK c"
  have apart: "?E AND ?C = 0" "?C AND ?E = 0" "?E AND ?O = 0" "?O AND ?E = 0" "?E AND ?F = 0"
    "?F AND ?E = 0" "?C AND ?O = 0" "?O AND ?C = 0" "?C AND ?F = 0" "?F AND ?C = 0"
    "?O AND ?F = 0" "?F AND ?O = 0"
    by (rule *; use dist in \<open>auto simp: flag_masks_def\<close>)+
  show "pack_flags c f AND ?E \<noteq> 0 \<longleftrightarrow> pf_is_empty f"
    and "pack_flags c f AND ?C \<noteq> 0 \<longleftrightarrow> pf_is_compact f"
    and "pack_flags c f AND ?O \<noteq> 0 \<longleftrightarrow> pf_ooo_flag f"
    and "pack_flags c f AND ?F \<noteq> 0 \<longleftrightarrow> pf_full_size_flag f"
    using nz by (simp_all add: flag_masks_def pack_flags_def Let_def bit.conj_disj_distrib2 apart)
qed

lemma unpack_mode:
  assumes "pf_mode f = mode_hll" and "pf_tgt f < 4"
  shows "pack_mode f AND 3 = mode_hll" and "drop_bit 2 (pack_mode f) AND 3 = pf_tgt f"
proof -
  have three: "(3 :: u8) = mask 2" by (simp add: mask_eq_exp_minus_1)
  have t: "take_bit 2 (pf_tgt f) = pf_tgt f"
    using assms(2) by (simp add: word_unat_eq_iff unsigned_take_bit_eq word_less_nat_alt take_bit_nat_eq_self)
  show "pack_mode f AND 3 = mode_hll"
    unfolding pack_mode_def assms(1) mode_hll_def three
    by (rule bit_word_eqI) (auto simp: bit_simps)
  have "drop_bit 2 (pack_mode f) AND 3 = take_bit 2 (pf_tgt f)"
    unfolding pack_mode_def assms(1) mode_hll_def three
    by (rule bit_word_eqI) (auto simp: bit_simps)
  then show "drop_bit 2 (pack_mode f) AND 3 = pf_tgt f" by (simp only: t)
qed

text \<open>Reading back what was written, whatever follows the preamble.\<close>

lemma parse_assemble:
  assumes "format_ok c" and "pf_mode f = mode_hll" and "pf_tgt f = HLL_8 c"
    and "checkLgK c (pf_lgK f) = Inr ()"
  shows "parse_preamble c (assemble_preamble c f) = Inr f"
proof -
  note r = read_preamble [OF assms(1)]
  have bytes: "assemble_preamble c f ! PREAMBLE_INTS_BYTE c = HLL_PREINTS c"
    "assemble_preamble c f ! SER_VER_BYTE c = SER_VER c"
    "assemble_preamble c f ! FAMILY_BYTE c = FAMILY_ID c"
    "assemble_preamble c f ! LG_K_BYTE c = pf_lgK f"
    "assemble_preamble c f ! LG_ARR_BYTE c = pf_aux_lg_int_arr_size f"
    "assemble_preamble c f ! FLAGS_BYTE c = pack_flags c f"
    "assemble_preamble c f ! HLL_CUR_MIN_BYTE c = pf_cur_min f"
    "assemble_preamble c f ! MODE_BYTE c = pack_mode f"
    by (rule r(2); simp add: preamble_writes_def)+
  have words: "get_at (assemble_preamble c f) (HIP_ACCUM_DOUBLE c) 8 = enc64 (pf_hip_accum f)"
    "get_at (assemble_preamble c f) (KXQ0_DOUBLE c) 8 = enc64 (pf_kxq0 f)"
    "get_at (assemble_preamble c f) (KXQ1_DOUBLE c) 8 = enc64 (pf_kxq1 f)"
    "get_at (assemble_preamble c f) (CUR_MIN_COUNT_INT c) 4 = enc32 (pf_num_at_cur_min f)"
    "get_at (assemble_preamble c f) (AUX_COUNT_INT c) 4 = enc32 (pf_aux_count f)"
    using r(1) [of "HIP_ACCUM_DOUBLE c" "enc64 (pf_hip_accum f)" f]
      r(1) [of "KXQ0_DOUBLE c" "enc64 (pf_kxq0 f)" f] r(1) [of "KXQ1_DOUBLE c" "enc64 (pf_kxq1 f)" f]
      r(1) [of "CUR_MIN_COUNT_INT c" "enc32 (pf_num_at_cur_min f)" f]
      r(1) [of "AUX_COUNT_INT c" "enc32 (pf_aux_count f)" f]
    by (simp_all add: preamble_writes_def)
  have "pf_tgt f < 4" using assms(1,3) by (simp add: format_ok_def)
  note mode = unpack_mode [OF assms(2) this]
  show ?thesis
    unfolding parse_preamble_def Let_def bytes words
    by (simp add: assms(2-4) mode [unfolded assms(3)] flags_apart [OF assms(1)])
qed

lemma parse_preamble_Inr:
  assumes "parse_preamble c bytes = Inr f"
  shows "checkLgK c (pf_lgK f) = Inr ()" and "pf_mode f = mode_hll" and "pf_tgt f = HLL_8 c"
    and "pf_lgK f = bytes ! LG_K_BYTE c"
  using assms by (auto simp: parse_preamble_def Let_def split: if_splits)

lemma parse_preamble_accepts:
  "(\<exists>f. parse_preamble c bytes = Inr f) \<longleftrightarrow>
     bytes ! SER_VER_BYTE c = SER_VER c \<and> bytes ! FAMILY_BYTE c = FAMILY_ID c \<and>
     bytes ! PREAMBLE_INTS_BYTE c = HLL_PREINTS c \<and>
     checkLgK c (bytes ! LG_K_BYTE c) = Inr () \<and>
     bytes ! MODE_BYTE c AND 3 = mode_hll \<and> drop_bit 2 (bytes ! MODE_BYTE c) AND 3 = HLL_8 c"
  by (auto simp: parse_preamble_def Let_def)

section \<open>Properties\<close>

text \<open>
  Whatever fields of an HLL_8 sketch are assembled, the preamble has 40 bytes and parsing it
  gives every field back, the flags and the bit patterns of the three doubles included.
\<close>

theorem hll_preamble_roundtrip:
  assumes "format_ok c" and "pf_mode f = mode_hll" and "pf_tgt f = HLL_8 c"
    and "4 \<le> pf_lgK f" and "pf_lgK f \<le> 21"
  shows "length (assemble_preamble c f) = PREAMBLE_BYTES \<and>
    parse_preamble c (assemble_preamble c f) = Inr f"
  using assms parse_assemble [OF assms(1-3)] length_assemble_preamble [OF assms(1)]
  by (simp add: PREAMBLE_BYTES_def format_ok_def)

definition demo_fields :: preamble_fields where
  "demo_fields =
     \<lparr>pf_lgK = 12, pf_mode = 2, pf_tgt = 2, pf_is_empty = False, pf_is_compact = True,
      pf_ooo_flag = True, pf_full_size_flag = True, pf_cur_min = 0, pf_num_at_cur_min = 4000,
      pf_kxq0 = 0x40AF800000000000, pf_kxq1 = 0, pf_hip_accum = 0, pf_aux_lg_int_arr_size = 0,
      pf_aux_count = 0\<rparr>"

theorem hll_preamble_roundtrip_witness:
  "length (assemble_preamble upstream_format demo_fields) = PREAMBLE_BYTES \<and>
   parse_preamble upstream_format (assemble_preamble upstream_format demo_fields) = Inr demo_fields"
  by (rule hll_preamble_roundtrip)
    (simp_all add: format_ok_upstream, simp_all add: demo_fields_def mode_hll_def upstream_format_def)

text \<open>
  The preamble is accepted exactly when the serial version, the family and the preamble
  length are the expected ones, the precision is from 4 to 21, the mode is HLL and the target
  HLL_8; every other preamble is an error, so no caller shifts by an unchecked precision.
\<close>

theorem hll_preamble_accepts:
  assumes "format_ok c"
  shows "(\<exists>f. parse_preamble c bytes = Inr f) \<longleftrightarrow>
     bytes ! SER_VER_BYTE c = SER_VER c \<and> bytes ! FAMILY_BYTE c = FAMILY_ID c \<and>
     bytes ! PREAMBLE_INTS_BYTE c = HLL_PREINTS c \<and>
     4 \<le> bytes ! LG_K_BYTE c \<and> bytes ! LG_K_BYTE c \<le> 21 \<and>
     bytes ! MODE_BYTE c AND 3 = mode_hll \<and> drop_bit 2 (bytes ! MODE_BYTE c) AND 3 = HLL_8 c"
  using assms by (simp add: parse_preamble_accepts format_ok_def)

text \<open>A zeroed preamble is refused, one with the right header bytes is accepted.\<close>

theorem hll_preamble_accepts_witness:
  "(\<nexists>f. parse_preamble upstream_format (replicate 40 0) = Inr f) \<and>
   (\<exists>f. parse_preamble upstream_format ([10, 1, 7, 4, 0, 0, 0, 10] @ replicate 32 0) = Inr f)"
  unfolding hll_preamble_accepts [OF format_ok_upstream]
  by (simp add: upstream_format_def mode_hll_def)

end
