(* ===== verification/Hll_Table_Data.thy ===== *)
theory Hll_Table_Data
  imports Prelude
begin

text \<open>
  \<^verbatim>\<open>detail/hll/composite_interpolation_table_data.inl\<close>: the x values of the composite
  interpolation, one list per precision from 4 to 18. The decimals of the file are written
  without their point: rows 4 to 6 have twelve decimals, the others six, so an entry is the
  decimal in units of \<open>10^-12\<close> or \<open>10^-6\<close>.
\<close>

definition x_row_4 :: "int list" where
  "x_row_4 =
    [10767999803534, 11237701481774, 11722738717438, 12223246391222,
     12739366773787, 13271184824495, 13818759686650, 14382159835785,
     14961390904922, 15556414447178, 16167227058768, 16793705840034,
     17435831011559, 18093368824077, 18766214022468, 19454114555153,
     20156877376380, 20874309118151, 21606085061388, 22351926834624,
     23111406651437, 23884222842419, 24669953053285, 25468324695415,
     26278740385032, 27100807701976, 27934264623663, 28778498012717,
     29633064579479, 30497559091830, 31371415928956, 32254248998304,
     33145649456017, 34045084140394, 34952069032314, 35866210502243,
     36787128772113, 37714316067007, 38647432342061, 39586020708848,
     40529738186256, 41478377527525, 42431435504179, 43388619067416,
     44349650659292, 45314111448463, 46281805382722, 47252472240229,
     48225969481651, 49202042512440, 50180350422249, 51160761480664,
     52143032445587, 53127233235412, 54112986437616, 55100182392694,
     56088558030701, 57078156023607, 58068788167275, 59060493030644,
     60053033784417, 61046284072738, 62040286486621, 63034929032992,
     64030027371399, 65025588917110, 66021614945599, 67018177418440,
     68015186786528, 69012467972526, 70010014322660, 71007638150468,
     72005472777573, 73003558069130, 74001925061314, 75000323809106,
     75998875046818, 76997735309722, 77996356820987, 78995236661037,
     79994185446564, 80993179953574, 81991936172868, 82991277726952,
     83990564675011, 84990016215330, 85989354175963, 86988664031183,
     87988038383374, 88987487931153, 89987011275632, 90986376635228,
     91985802667485, 92985125933965, 93984894049744, 94984597185523,
     95984374633793, 96983987641198, 97983728001025, 98983151114601,
     99982917278162, 100982752268263, 101982610588914, 102982425129077,
     103982425883214, 104982193814993, 105982188025268, 106982005912713,
     107981949640254, 108981777381902, 109981767708570, 110981785341504,
     111981686149156, 112981635012054, 113981557303839, 114981412817204,
     115981636136290, 116981451847734, 117981619278961, 118981656205677,
     119981462628717, 120981648197593, 121981672839888, 122981536601882,
     123981424780957, 124981245233627, 125981297203177, 126981469882453,
     127981420558510, 128981470958251, 129981803124940, 130981454077005,
     131981307772677, 132981136552712, 133981060440468, 134980764897921,
     135980250123519, 136979947889981, 137979778713731, 138979651075854,
     139979521006237, 140979619490143, 141979418214464, 142979378742690,
     143979006714929, 144978789085341, 145978940618746, 146978699584620,
     147978509489139, 148978375065557, 149978382007245, 150978320879037,
     151978431501891, 152978357310224, 153978079953131, 154977867908315,
     155977897282267, 156977732141540, 157977285841428, 158977381755450,
     159977107808858, 160976898092463, 161976945065052, 162976415653211,
     163976063254486, 164976168718176, 165976009634854, 166975746910144,
     167975365498336, 168975302031315, 169975145815395, 170975048401084,
     171974904933990, 172974962856090, 173974307743427, 174974505556696,
     175974404122880, 176974154794798, 177973936891006, 178973909768514,
     179973629325330, 180973396428571, 181973041798012, 182972922327014,
     183972453839631, 184972389341638, 185971978290400, 186971721489488,
     187971610992921, 188971432541974, 189970886522529, 190970636748690,
     191970543849249, 192970222044828, 193969945219163, 194969816174441,
     195969660267113, 196969306217626, 197969283141670, 198968952697752,
     199968650726389, 200968771498143, 201969063388798, 202968624157712,
     203968385122471, 204968459873029, 205968253426841, 206968128284823,
     207968002441937, 208967981887571, 209967853843352, 210967653026858,
     211967601511385, 212967479077297, 213967293002672, 214967265475369,
     215967098197208, 216966915139758, 217966680984700, 218966156974161,
     219965788928685, 220965578199561, 221965550145047, 222965055562297,
     223965041228123, 224965088576052, 225964951649635, 226964837079061,
     227964949815142, 228964753278386, 229964358666956, 230964158288467,
     231964118659643, 232964105599719, 233964013041408, 234963810178150,
     235963847138572, 236963634735645, 237963596910032, 238963659218725,
     239963498440155, 240963445597658, 241963141291971, 242962684055746,
     243962664757583, 244962762174588, 245962862664373, 246962595237647,
     247962493432533, 248962292518484, 249962622934132, 250962187495200,
     251962038306920, 252961926735684, 253961867248643, 254961699581530,
     255961371028199]"

definition x_row_5 :: "int list" where
  "x_row_5 =
    [22304000309384, 23261989079230, 24249656493833, 25267226901899,
     26314781734430, 27392414068382, 28500177845081, 29638044883897,
     30805888087516, 32003714838418, 33231360682863, 34488477823483,
     35774924122967, 37090293268866, 38434292452116, 39806594197334,
     41206691028159, 42634002763091, 44088065403269, 45568286128520,
     47074066947685, 48604745105475, 50159729872619, 51738339282229,
     53339805618020, 54963435280656, 56608464119077, 58274038434156,
     59959403900602, 61663926660982, 63386737477574, 65127093833107,
     66884091606686, 68656959698762, 70445052178435, 72247581860591,
     74063607663774, 75892531705810, 77733879994604, 79586788509372,
     81450593478752, 83324645303244, 85208482496209, 87101116685537,
     89002152917959, 90911090999940, 92827275073114, 94750224301260,
     96679773715696, 98615214511699, 100556211548644, 102502148428334,
     104452899214344, 106407767504404, 108366625832228, 110329564692634,
     112295481742874, 114264715056639, 116236769512562, 118211214593179,
     120188376370012, 122167746134232, 124148833002551, 126131612799989,
     128116072530208, 130102155735854, 132089449244974, 134077816832908,
     136067404409248, 138057703527432, 140049350564796, 142041756984355,
     144034780624078, 146028584459531, 148022894428003, 150017952482368,
     152013358245376, 154009157360372, 156005076955043, 158001501688538,
     159998043891849, 161995141096448, 163992507770330, 165990019741406,
     167987379363144, 169985323168231, 171983371903769, 173981134136378,
     175979306888599, 177977458741010, 179975994045101, 181974478508488,
     183973329438036, 185972061903815, 187971014174496, 189969582278901,
     191968450510061, 193967607022497, 195966726931677, 197965915341472,
     199964910588293, 201964427852336, 203964308576556, 205963778587196,
     207963244179225, 209962423156859, 211961859295409, 213961171237132,
     215960624048009, 217959980906604, 219959156277574, 221958692298143,
     223958335010302, 225958329061602, 227957722024027, 229957134954397,
     231956897929205, 233956901572571, 235956650770311, 237956593290745,
     239956700470895, 241956192761863, 243956003327600, 245955794901574,
     247955501305446, 249954960233132, 251954510187803, 253954252376340,
     255954011943050, 257953388008439, 259953139524693, 261952918466928,
     263952432910213, 265952485387126, 267952763908808, 269952510701682,
     271952383356830, 273951921008979, 275951766755515, 277951697578478,
     279951700548755, 281951805228218, 283951934023417, 285952140722678,
     287952063941231, 289951717207670, 291951294241955, 293950937111819,
     295950900506385, 297950320403388, 299949546547128, 301949474819234,
     303949155377395, 305948725010033, 307948408553357, 309948120512731,
     311947897212148, 313947738181662, 315947255247579, 317946631669691,
     319946302193308, 321945855881155, 323945603079048, 325944930145876,
     327945048538923, 329944795565500, 331944227346318, 333943705422222,
     335943231918970, 337942333069602, 339942354997227, 341941890952026,
     343941346276351, 345940653575739, 347940019001109, 349940026817951,
     351938944534275, 353938172407151, 355937584534690, 357937041224148,
     359936673631279, 361936179855216, 363936105840596, 365935367434940,
     367935295315770, 369934793960370, 371934314961518, 373933949277377,
     375933420587284, 377933148188654, 379932379363314, 381931900192237,
     383930951130857, 385930667541762, 387930025971711, 389929529183966,
     391929116798157, 393928361940635, 395927673611921, 397927111110912,
     399926483516685, 401925799510661, 403924918492428, 405924540208915,
     407924014467935, 409923779779206, 411922979548363, 413922515268061,
     415922148908645, 417921643066153, 419921126587639, 421920766647684,
     423920642824255, 425920411492484, 427920603679205, 429920445437023,
     431920286509746, 433919789058392, 435919408587813, 437918873200300,
     439918417416574, 441918192491069, 443918376503567, 445917692006023,
     447917132642691, 449917217997363, 451916924115487, 453916662151474,
     455916485288107, 457915879851633, 459915842501592, 461915547354915,
     463914995141359, 465914585759187, 467914144928428, 469913956069337,
     471913046082896, 473912468624617, 475912322983182, 477912118100240,
     479911923664773, 481911518944025, 483911023761757, 485910386539830,
     487910092345284, 489910153786770, 491909575245360, 493908973823502,
     495908577061168, 497908550221055, 499908127020659, 501907710605296,
     503907806972566, 505907336571662, 507907081330259, 509906648846180,
     511906201574892]"

definition x_row_6 :: "int list" where
  "x_row_6 =
    [45375999854524, 46820948326168, 48298703712049, 49809402685314,
     51353165756275, 52929933710602, 54539893242468, 56183033892089,
     57859217068495, 59568519998303, 61310801009963, 63085886926328,
     64893798324934, 66734230191052, 68607173306372, 70512210309984,
     72449265953981, 74418007054647, 76417910710559, 78448929349152,
     80510585932256, 82602514696500, 84724061528721, 86875166381330,
     89055217833675, 91263852803721, 93500342620773, 95764451518395,
     98055566319691, 100373234086043, 102716794393386, 105085599217566,
     107479363461004, 109897282858060, 112338907676111, 114803401103124,
     117290259931022, 119799265623507, 122329323908482, 124879681624600,
     127450299022993, 130040239267142, 132648756733593, 135275366525219,
     137919720233989, 140580778017562, 143258128898839, 145951552244700,
     148660145472460, 151383257444852, 154120434694643, 156871202914301,
     159634634288797, 162410377522877, 165198249005575, 167997420145534,
     170807579918337, 173628020587905, 176458633641294, 179298282098581,
     182147449731726, 185005094444186, 187870899328937, 190744709255561,
     193625572419776, 196513740460772, 199408599560293, 202309940032246,
     205217132295894, 208129828601313, 211047995735211, 213970919426104,
     216899109829571, 219832024990852, 222769136305806, 225710258431247,
     228655217514772, 231603984417526, 234555642012353, 237510635882749,
     240468820458907, 243429903849174, 246393192036307, 249359251612075,
     252327416912482, 255297598046767, 258269777722144, 261244337060733,
     264219958654591, 267197643910088, 270177202282129, 273157339433786,
     276139287129066, 279122276848731, 282107226383752, 285092136000673,
     288078230550129, 291065256815999, 294053160971001, 297042401030971,
     300031784889467, 303022502412860, 306013581138287, 309005124942334,
     311996910583050, 314989635544162, 317982189300799, 320975762085573,
     323969719809182, 326963672522149, 329958419674913, 332953046205989,
     335948338966110, 338943201657934, 341938798787180, 344935321901459,
     347931089897905, 350927355153871, 353923731760523, 356920383399325,
     359916863372939, 362914245241722, 365911216314347, 368908636150615,
     371905028432797, 374901981729273, 377899718967915, 380897391911925,
     383894945428721, 386892974193389, 389890517424427, 392889050804732,
     395886893560179, 398884852345719, 401883235933616, 404881805247652,
     407880049402262, 410878410789472, 413876755787854, 416875140105536,
     419873758096660, 422872739431833, 425871627898739, 428870663138631,
     431869475472357, 434868378059774, 437867537661532, 440866274620049,
     443865086570094, 446864282236320, 449863630871851, 452862772062678,
     455861877807413, 458860680461949, 461859728874700, 464858478829514,
     467857314559298, 470856707830759, 473855641079729, 476854880576501,
     479853812351976, 482852666825246, 485851471230749, 488850997731659,
     491850420535006, 494849118717584, 497848645341646, 500848230362352,
     503847546143645, 506847285358235, 509846275998715, 512845599444922,
     515845441684852, 518844522015985, 521843923976006, 524843281639782,
     527842399994830, 530841152548296, 533840788827465, 536840058715879,
     539839578267778, 542839076801367, 545838441853502, 548837925005355,
     551837456112430, 554837041819817, 557836916936797, 560836116071833,
     563834832988710, 566834107840572, 569832763471368, 572831700689757,
     575832050680783, 578831190216307, 581831249402778, 584830325442080,
     587828993643112, 590827962761832, 593827454067745, 596825833598259,
     599824193205007, 602822806340644, 605822276069352, 608821423024191,
     611820006110523, 614819016304854, 617818220240160, 620817311827644,
     623816286470744, 626815211383752, 629815077535810, 632813925717940,
     635813392704099, 638812424935595, 641811289306882, 644809932622788,
     647808609610738, 650807771758015, 653806851303878, 656805452367508,
     659804133900742, 662803103749985, 665801910649522, 668800969589926,
     671798796938405, 674798110719805, 677797843657187, 680797711918663,
     683796449689643, 686794998006462, 689794205385109, 692792836542916,
     695792195299304, 698790778974184, 701790704644168, 704790168225574,
     707789261680438, 710788674453657, 713787207421297, 716786043303658,
     719784740017888, 722783523691482, 725782739693893, 728781695938105,
     731780295310459, 734778719103047, 737778056368816, 740777014963309,
     743776470087777, 746774710218241, 749773897180146, 752772555359445,
     755771799417720, 758770328749569, 761768940347768, 764768630836408,
     767767399121425]"

definition x_row_7 :: "int list" where
  "x_row_7 =
    [91554623, 93970317, 96431113, 98937264, 101488909, 104086010, 106728780, 109417062,
     112150914, 114930279, 117755065, 120625143, 123540431, 126500927, 129506371, 132556551,
     135651450, 138790477, 141973357, 145200176, 148470504, 151783478, 155139376, 158537455,
     161977357, 165458477, 168980630, 172543258, 176145951, 179788203, 183469266, 187188166,
     190945533, 194739618, 198570460, 202437447, 206339379, 210276276, 214247092, 218251243,
     222288169, 226357728, 230458810, 234590263, 238751826, 242942859, 247162518, 251410098,
     255685517, 259987202, 264314569, 268667458, 273044873, 277445418, 281869296, 286316796,
     290785471, 295276055, 299788143, 304319743, 308869691, 313438842, 318026761, 322632499,
     327254588, 331892954, 336547483, 341217702, 345901880, 350601214, 355313731, 360038868,
     364777348, 369526476, 374288795, 379061811, 383846122, 388640850, 393446218, 398260691,
     403084626, 407916053, 412755659, 417604951, 422461448, 427324128, 432195028, 437072269,
     441956190, 446846167, 451741463, 456641868, 461549478, 466461280, 471377098, 476297446,
     481222717, 486151860, 491085033, 496022133, 500962856, 505906586, 510853868, 515802981,
     520755460, 525711123, 530668833, 535629910, 540592334, 545557764, 550525455, 555494082,
     560463996, 565436164, 570410847, 575385933, 580361996, 585339352, 590318151, 595300216,
     600281543, 605264482, 610250114, 615236608, 620222025, 625208433, 630195367, 635183997,
     640172271, 645162589, 650153647, 655144276, 660133923, 665123818, 670115789, 675109169,
     680103270, 685097349, 690091960, 695086028, 700080326, 705075670, 710069697, 715065265,
     720062426, 725058529, 730054916, 735050560, 740048508, 745044790, 750041067, 755037833,
     760035090, 765033371, 770029865, 775025946, 780022408, 785021534, 790018699, 795016742,
     800013947, 805012680, 810009483, 815007921, 820008589, 825007658, 830007411, 835006892,
     840006917, 845006362, 850004606, 855003367, 860001219, 864999491, 869999131, 874998190,
     879998460, 884997482, 889995952, 894995130, 899994555, 904993474, 909991434, 914990519,
     919991564, 924992234, 929993901, 934992310, 939992013, 944993341, 949993576, 954992981,
     959993548, 964993781, 969993129, 974994050, 979994706, 984994372, 989994395, 994995339,
     999995544, 1004995498, 1009996864, 1014997829, 1019996531, 1024996724, 1029997574, 1034998591,
     1039997807, 1044998954, 1050000113, 1055000633, 1060000845, 1065000760, 1070000907, 1075001248,
     1080001187, 1084999775, 1089999105, 1094999647, 1100001983, 1105003468, 1110004542, 1115005170,
     1120006517, 1125006493, 1130006837, 1135008369, 1140006966, 1145009225, 1150008497, 1155009589,
     1160009558, 1165011395, 1170009739, 1175011131, 1180013303, 1185012525, 1190014190, 1195016399,
     1200016087, 1205016715, 1210018008, 1215018108, 1220019677, 1225020269, 1230019468, 1235020515,
     1240021850, 1245020961, 1250019785, 1255020253, 1260020623, 1265020156, 1270020625, 1275019028,
     1280019972]"

definition x_row_8 :: "int list" where
  "x_row_8 =
    [183877784, 188720097, 193652407, 198675131, 203788397, 208992238, 214286620, 219671580,
     225147277, 230713559, 236370208, 242117078, 247953569, 253880078, 259895869, 266000405,
     272193694, 278474457, 284843102, 291298228, 297839692, 304466434, 311177471, 317972674,
     324850719, 331811076, 338852902, 345974709, 353175880, 360455237, 367811613, 375244484,
     382752472, 390334218, 397988777, 405714596, 413510671, 421376147, 429308973, 437308197,
     445372302, 453500121, 461690796, 469942249, 478253652, 486623402, 495049662, 503532193,
     512068670, 520658371, 529299186, 537990886, 546732097, 555520093, 564355935, 573235689,
     582159345, 591126063, 600133321, 609181348, 618267848, 627392384, 636552822, 645748152,
     654977601, 664239902, 673534497, 682859448, 692213983, 701598606, 711009376, 720446781,
     729910995, 739397888, 748908546, 758443812, 768000572, 777577584, 787174815, 796791250,
     806427107, 816079660, 825748493, 835435992, 845136828, 854854141, 864583886, 874328396,
     884085720, 893855568, 903637568, 913431080, 923234553, 933049830, 942873895, 952707793,
     962551743, 972402421, 982263001, 992131464, 1002006941, 1011888460, 1021777462, 1031671376,
     1041569600, 1051476632, 1061386996, 1071302834, 1081224251, 1091148847, 1101080297, 1111013589,
     1120951962, 1130893360, 1140838011, 1150786112, 1160737100, 1170689817, 1180646908, 1190604979,
     1200565150, 1210527894, 1220492169, 1230460128, 1240429764, 1250401749, 1260373274, 1270349608,
     1280325544, 1290302087, 1300279074, 1310257850, 1320238948, 1330221273, 1340203554, 1350186669,
     1360171345, 1370156233, 1380142561, 1390129535, 1400119177, 1410107938, 1420097171, 1430087586,
     1440077831, 1450067996, 1460060299, 1470050059, 1480042995, 1490035101, 1500026878, 1510021128,
     1520014262, 1530008487, 1540002895, 1549996342, 1559991075, 1569986665, 1579981202, 1589976021,
     1599969512, 1609964051, 1619959210, 1629957092, 1639953516, 1649948113, 1659946715, 1669945253,
     1679941736, 1689938651, 1699937600, 1709936396, 1719933608, 1729931040, 1739930316, 1749927141,
     1759922600, 1769920847, 1779918614, 1789915707, 1799913000, 1809910958, 1819908532, 1829906905,
     1839903410, 1849904217, 1859901705, 1869898815, 1879898869, 1889899032, 1899899113, 1909896164,
     1919893199, 1929894515, 1939894965, 1949893184, 1959892164, 1969890794, 1979889035, 1989888005,
     1999888538, 2009888252, 2019888976, 2029890242, 2039890655, 2049891065, 2059891068, 2069889204,
     2079891120, 2089892462, 2099892479, 2109891814, 2119893049, 2129893705, 2139893471, 2149894162,
     2159894213, 2169895041, 2179895987, 2189894721, 2199894028, 2209896005, 2219898683, 2229898673,
     2239898012, 2249898018, 2259898215, 2269899380, 2279902590, 2289903144, 2299902047, 2309904214,
     2319903812, 2329904180, 2339902528, 2349903057, 2359903089, 2369904512, 2379902563, 2389905522,
     2399903653, 2409902313, 2419904452, 2429905949, 2439905059, 2449904954, 2459904977, 2469905111,
     2479904049, 2489903762, 2499902022, 2509904352, 2519903272, 2529901643, 2539900789, 2549903045,
     2559904334]"

definition x_row_9 :: "int list" where
  "x_row_9 =
    [368528954, 378224619, 388100156, 398155846, 408391912, 418808631, 429406377, 440185048,
     451144613, 462284693, 473604932, 485105306, 496784844, 508643147, 520679581, 532893098,
     545282616, 557848295, 570587645, 583500268, 596584345, 609838697, 623261582, 636851681,
     650607666, 664527320, 678608336, 692849674, 707248088, 721803089, 736511331, 751372034,
     766381798, 781538178, 796839808, 812283881, 827867995, 843588520, 859444318, 875432109,
     891550599, 907795630, 924165943, 940657393, 957268601, 973995685, 990837235, 1007789667,
     1024850025, 1042016602, 1059286426, 1076658199, 1094126523, 1111689346, 1129345589, 1147092119,
     1164926795, 1182844471, 1200846880, 1218929006, 1237088281, 1255322930, 1273630393, 1292007269,
     1310452948, 1328963430, 1347538768, 1366176566, 1384871299, 1403626249, 1422434094, 1441295238,
     1460208340, 1479169853, 1498179265, 1517234855, 1536335403, 1555477305, 1574659180, 1593881592,
     1613139378, 1632433516, 1651764587, 1671127255, 1690519577, 1709942250, 1729393153, 1748871689,
     1768377142, 1787907209, 1807464755, 1827043146, 1846641976, 1866263022, 1885903553, 1905564908,
     1925240581, 1944936723, 1964648221, 1984375489, 2004117246, 2023875053, 2043644075, 2063423514,
     2083218689, 2103026148, 2122840475, 2142669046, 2162505619, 2182351758, 2202205963, 2222068658,
     2241939010, 2261814547, 2281701803, 2301591894, 2321490728, 2341393208, 2361298412, 2381211528,
     2401132345, 2421057721, 2440985510, 2460916691, 2480851468, 2500792645, 2520738446, 2540683395,
     2560634603, 2580586307, 2600540530, 2620497170, 2640458137, 2660421783, 2680386186, 2700352664,
     2720321411, 2740291944, 2760264068, 2780238910, 2800212546, 2820185829, 2840163952, 2860142145,
     2880120568, 2900102466, 2920081981, 2940062964, 2960046262, 2980029101, 3000012591, 3019998424,
     3039983637, 3059969573, 3079955927, 3099942114, 3119930348, 3139919614, 3159909130, 3179899816,
     3199892231, 3219885316, 3239878917, 3259871675, 3279865195, 3299856210, 3319848871, 3339840385,
     3359834158, 3379830660, 3399826361, 3419822855, 3439814714, 3459813765, 3479808673, 3499804339,
     3519797785, 3539791012, 3559789885, 3579785152, 3599780237, 3619775480, 3639772724, 3659768920,
     3679765735, 3699766361, 3719765048, 3739762845, 3759761526, 3779757598, 3799755719, 3819751149,
     3839750182, 3859749673, 3879749344, 3899749939, 3919749060, 3939748385, 3959750520, 3979750055,
     3999750104, 4019749963, 4039748453, 4059746737, 4079744522, 4099744430, 4119741804, 4139740704,
     4159742056, 4179740063, 4199739155, 4219741718, 4239743433, 4259743115, 4279743265, 4299745518,
     4319746682, 4339750491, 4359748549, 4379747226, 4399750319, 4419750379, 4439752339, 4459750561,
     4479750612, 4499747862, 4519750693, 4539747476, 4559749051, 4579750603, 4599750089, 4619754781,
     4639755536, 4659758879, 4679762145, 4699762199, 4719763886, 4739765081, 4759765681, 4779765427,
     4799767582, 4819769915, 4839770107, 4859769398, 4879768976, 4899768288, 4919768786, 4939768607,
     4959772822, 4979772833, 4999775808, 5019773468, 5039776181, 5059770860, 5079773006, 5099773136,
     5119772474]"

definition x_row_10 :: "int list" where
  "x_row_10 =
    [737833738, 757236338, 776997875, 797119465, 817602058, 838445349, 859650320, 881216437,
     903143414, 925430957, 948079220, 971086231, 994451449, 1018173846, 1042251928, 1066683804,
     1091467648, 1116601416, 1142083017, 1167909918, 1194079097, 1220588887, 1247435099, 1274614860,
     1302125360, 1329962942, 1358123177, 1386601609, 1415396299, 1444501692, 1473913256, 1503628515,
     1533642054, 1563948888, 1594544067, 1625424305, 1656582169, 1688016543, 1719718553, 1751685990,
     1783912130, 1816393610, 1849122123, 1882095124, 1915305647, 1948748605, 1982419843, 2016313904,
     2050422277, 2084742618, 2119270601, 2153998538, 2188920843, 2224034736, 2259333960, 2294812594,
     2330467059, 2366291844, 2402281356, 2438428954, 2474734330, 2511187839, 2547786319, 2584527356,
     2621406814, 2658418551, 2695554270, 2732812564, 2770190157, 2807682744, 2845287138, 2882995251,
     2920807982, 2958719996, 2996728771, 3034826885, 3073014082, 3111287116, 3149642093, 3188073159,
     3226577352, 3265156836, 3303803738, 3342515111, 3381291514, 3420130671, 3459024315, 3497974631,
     3536978221, 3576034737, 3615138610, 3654285859, 3693480455, 3732715296, 3771991792, 3811305300,
     3850654870, 3890041152, 3929457167, 3968905021, 4008381466, 4047886976, 4087419414, 4126978997,
     4166562624, 4206166726, 4245793284, 4285445151, 4325113012, 4364802795, 4404506274, 4444228475,
     4483965191, 4523719569, 4563487708, 4603267460, 4643060387, 4682865430, 4722680718, 4762503248,
     4802341326, 4842185529, 4882039088, 4921900432, 4961772625, 5001649566, 5041534380, 5081425809,
     5121323013, 5161224908, 5201130560, 5241044625, 5280962456, 5320882373, 5360810007, 5400740058,
     5440673843, 5480606748, 5520547394, 5560493520, 5600438100, 5640383853, 5680335386, 5720292400,
     5760250576, 5800212705, 5840172984, 5880134991, 5920097923, 5960060294, 6000031177, 6040003398,
     6079981696, 6119954349, 6159929074, 6199908569, 6239886163, 6279863659, 6319838261, 6359815405,
     6399795170, 6439777225, 6479755885, 6519738857, 6559723169, 6599708549, 6639695186, 6679679788,
     6719663289, 6759651052, 6799634129, 6839624763, 6879615013, 6919605584, 6959591310, 6999586006,
     7039577399, 7079565236, 7119557222, 7159548481, 7199533025, 7239519648, 7279511781, 7319507639,
     7359506105, 7399497488, 7439494944, 7479491545, 7519488415, 7559480534, 7599475646, 7639470315,
     7679468730, 7719460928, 7759455834, 7799455686, 7839451758, 7879446841, 7919443884, 7959444138,
     7999443141, 8039446339, 8079445285, 8119444120, 8159443157, 8199446480, 8239438893, 8279437597,
     8319439714, 8359441566, 8399440754, 8439439156, 8479440112, 8519442365, 8559444795, 8599444497,
     8639446714, 8679449177, 8719447620, 8759443423, 8799445995, 8839446170, 8879449622, 8919450486,
     8959450372, 8999449731, 9039448449, 9079452579, 9119451596, 9159454020, 9199456651, 9239460902,
     9279460419, 9319461322, 9359464611, 9399467790, 9439471448, 9479468426, 9519462982, 9559464881,
     9599462983, 9639461706, 9679457284, 9719457023, 9759455648, 9799458786, 9839456980, 9879457411,
     9919454971, 9959451735, 9999451916, 10039443939, 10079435325, 10119432142, 10159431313, 10199431306,
     10239429671]"

definition x_row_11 :: "int list" where
  "x_row_11 =
    [1476444530, 1515260638, 1554794859, 1595048761, 1636023652, 1677720065, 1720138513, 1763279158,
     1807141823, 1851724811, 1897027530, 1943048153, 1989784818, 2037234835, 2085395149, 2134263580,
     2183834818, 2234105548, 2285071077, 2336726064, 2389065940, 2442084276, 2495776521, 2550134177,
     2605153465, 2660825522, 2717142881, 2774098631, 2831683790, 2889889911, 2948711233, 3008137464,
     3068158605, 3128766926, 3189951984, 3251704129, 3314013826, 3376873018, 3440270569, 3504194851,
     3568636295, 3633586039, 3699031630, 3764962925, 3831371336, 3898245744, 3965574384, 4033345701,
     4101550888, 4170180686, 4239221393, 4308664143, 4378497100, 4448712735, 4519296212, 4590243535,
     4661538747, 4733174738, 4805142002, 4877427081, 4950019513, 5022915001, 5096098561, 5169567185,
     5243312012, 5317314578, 5391572253, 5466077564, 5540821377, 5615792025, 5690985894, 5766392174,
     5842007403, 5917816734, 5993815607, 6069999957, 6146362662, 6222895187, 6299592875, 6376440778,
     6453443173, 6530588182, 6607874560, 6685288536, 6762829840, 6840490840, 6918272948, 6996164556,
     7074161694, 7152259404, 7230451098, 7308737035, 7387113244, 7465575350, 7544120230, 7622733447,
     7701427750, 7780188044, 7859016102, 7937904850, 8016853624, 8095860379, 8174919884, 8254034842,
     8333197794, 8412405307, 8491657429, 8570946804, 8650278289, 8729648657, 8809056098, 8888496764,
     8967966663, 9047466051, 9126993636, 9206547289, 9286127523, 9365733732, 9445361201, 9525008810,
     9604680107, 9684363532, 9764066435, 9843787987, 9923523567, 10003272886, 10083037524, 10162811803,
     10242597755, 10322402415, 10402216522, 10482042584, 10561877077, 10641722187, 10721570740, 10801435848,
     10881301249, 10961178474, 11041059765, 11120951444, 11200845806, 11280746075, 11360652145, 11440567398,
     11520476709, 11600395391, 11680316855, 11760241900, 11840170134, 11920103548, 12000038206, 12079975425,
     12159912459, 12239857191, 12319802744, 12399754385, 12479707055, 12559658981, 12639614004, 12719566502,
     12799526877, 12879488833, 12959451231, 13039416480, 13119388158, 13199360789, 13279334923, 13359298927,
     13439261641, 13519235871, 13599204919, 13679181082, 13759157391, 13839137425, 13919112545, 13999096522,
     14079082789, 14159060487, 14239040581, 14319025236, 14399006995, 14478994078, 14558980576, 14638962774,
     14718952192, 14798938522, 14878931501, 14958919062, 15038907891, 15118897247, 15198889129, 15278881057,
     15358873272, 15438867627, 15518861931, 15598858206, 15678850014, 15758849382, 15838847872, 15918837658,
     15998837920, 16078831305, 16158827345, 16238815546, 16318817302, 16398814389, 16478815820, 16558811634,
     16638808126, 16718807170, 16798805652, 16878813389, 16958806543, 17038807885, 17118813146, 17198813752,
     17278817574, 17358820511, 17438819443, 17518814262, 17598815511, 17678814160, 17758816726, 17838817584,
     17918814197, 17998821276, 18078822342, 18158828474, 18238822064, 18318826732, 18398827758, 18478827319,
     18558834153, 18638835651, 18718839105, 18798840903, 18878836463, 18958836015, 19038836351, 19118832583,
     19198829856, 19278822953, 19358824866, 19438823697, 19518826538, 19598826954, 19678831393, 19758822279,
     19838818757, 19918808247, 19998804516, 20078809201, 20158808900, 20238806398, 20318798516, 20398802224,
     20478803179]"

definition x_row_12 :: "int list" where
  "x_row_12 =
    [2953666722, 3031310137, 3110389526, 3190908699, 3272865410, 3356267166, 3441114376, 3527404284,
     3615136846, 3704310976, 3794924283, 3886973846, 3980451903, 4075355844, 4171681168, 4269423939,
     4368569738, 4469111760, 4571043603, 4674356370, 4779038117, 4885076002, 4992460659, 5101176875,
     5211214098, 5322553631, 5435184633, 5549088369, 5664258175, 5780673987, 5898312682, 6017158593,
     6137195815, 6258397951, 6380761679, 6504261630, 6628870413, 6754585867, 6881374325, 7009206926,
     7138080376, 7267979175, 7398866805, 7530722851, 7663531580, 7797269872, 7931907340, 8067451667,
     8203855692, 8341091306, 8479155031, 8618026003, 8757682272, 8898095612, 9039253787, 9181124777,
     9323694329, 9466944202, 9610861899, 9755403639, 9900578346, 10046356477, 10192718770, 10339635914,
     10487081762, 10635066232, 10783560130, 10932549371, 11082024055, 11231949071, 11382332885, 11533122831,
     11684327555, 11835935533, 11987926999, 12140281619, 12292994375, 12446046449, 12599411083, 12753088314,
     12907079745, 13061355923, 13215895621, 13370722085, 13525795736, 13681095971, 13836645692, 13992405906,
     14148380716, 14304566860, 14460959382, 14617539754, 14774296125, 14931214508, 15088271748, 15245493870,
     15402867309, 15560380994, 15718035423, 15875801492, 16033687891, 16191701231, 16349808763, 16508026001,
     16666336068, 16824745049, 16983259302, 17141848044, 17300504517, 17459240272, 17618060296, 17776914688,
     17935848010, 18094852645, 18253914288, 18413023567, 18572168358, 18731376016, 18890631505, 19049948196,
     19209279260, 19368638871, 19528043860, 19687498901, 19846941765, 20006443084, 20165973535, 20325525957,
     20485109520, 20644729917, 20804363876, 20964021778, 21123698687, 21283379344, 21443080536, 21602821439,
     21762568135, 21922305338, 22082065878, 22241856145, 22401629436, 22561435266, 22721262644, 22881080478,
     23040916036, 23200734053, 23360583255, 23520433188, 23680275065, 23840132678, 24000012847, 24159886135,
     24319788338, 24479654024, 24639540316, 24799466449, 24959369335, 25119276072, 25279186502, 25439091982,
     25599020083, 25758930671, 25918847522, 26078773060, 26238704021, 26398647566, 26558603366, 26718539855,
     26878464425, 27038402892, 27198344989, 27358270906, 27518203448, 27678169545, 27838133625, 27998111630,
     28158064264, 28318032491, 28477994153, 28637950838, 28797910362, 28957884994, 29117861910, 29277814384,
     29437774223, 29597762256, 29757729819, 29917688497, 30077675371, 30237667941, 30397639431, 30557644527,
     30717622991, 30877622641, 31037598941, 31197601527, 31357599118, 31517585221, 31677569983, 31837556138,
     31997527880, 32157500622, 32317491709, 32477504936, 32637501123, 32797516330, 32957547336, 33117541765,
     33277561207, 33437554332, 33597564988, 33757565321, 33917561180, 34077580598, 34237597132, 34397598246,
     34557617536, 34717623318, 34877649722, 35037645029, 35197681143, 35357700478, 35517701804, 35677734383,
     35837736494, 35997737103, 36157732045, 36317741539, 36477735602, 36637761491, 36797742508, 36957734137,
     37117742952, 37277789218, 37437793798, 37597779066, 37757796449, 37917794116, 38077804399, 38237797507,
     38397788049, 38557768583, 38717768279, 38877752553, 39037747349, 39197737646, 39357774395, 39517752643,
     39677753347, 39837740038, 39997719486, 40157709578, 40317708657, 40477719261, 40637726978, 40797711139,
     40957707784]"

definition x_row_13 :: "int list" where
  "x_row_13 =
    [5908111420, 6063410343, 6221578483, 6382623803, 6546553966, 6713369171, 6883070010, 7055656719,
     7231129758, 7409486672, 7590720089, 7774822139, 7961786850, 8151601206, 8344261218, 8539750086,
     8738048786, 8939141702, 9143011205, 9349645220, 9559003557, 9771078383, 9985846791, 10203277103,
     10423349219, 10646031323, 10871293001, 11099111735, 11329434411, 11562255804, 11797522109, 12035204106,
     12275263649, 12517670237, 12762388671, 13009375491, 13258587519, 13510006825, 13763564399, 14019227089,
     14276975295, 14536745792, 14798511796, 15062215057, 15327806593, 15595257499, 15864529774, 16135586770,
     16408362074, 16682849583, 16958977019, 17236708221, 17515990972, 17796798914, 18079096585, 18362834517,
     18647959152, 18934452073, 19222251998, 19511366053, 19801717928, 20093269020, 20385960319, 20679772736,
     20974698498, 21270684814, 21567671010, 21865649193, 22164581341, 22464423293, 22765172894, 23066785452,
     23369201089, 23672387494, 23976354000, 24281072155, 24586465328, 24892557323, 25199303712, 25506654130,
     25814626835, 26123148009, 26432247046, 26741889610, 27052042135, 27362685181, 27673761784, 27985292246,
     28297219809, 28609572368, 28922317633, 29235448741, 29548944253, 29862766175, 30176910610, 30491363107,
     30806103787, 31121126024, 31436412153, 31751975134, 32067737444, 32383768560, 32700017044, 33016458300,
     33333101934, 33649904492, 33966923435, 34284105041, 34601429152, 34918876076, 35236481998, 35554235511,
     35872093847, 36190101572, 36508190892, 36826420800, 37144739624, 37463138566, 37781598984, 38100191087,
     38418846511, 38737587005, 39056391321, 39375255819, 39694182864, 40013173503, 40332221146, 40651311460,
     40970465534, 41289697002, 41608913381, 41928242461, 42247585089, 42566988678, 42886409594, 43205849396,
     43525322840, 43844784209, 44164327769, 44483869861, 44803383648, 45122975593, 45442593765, 45762258110,
     46081937012, 46401605265, 46721295022, 47041004034, 47360695978, 47680435451, 48000192231, 48319953839,
     48639726508, 48959506239, 49279318744, 49599117846, 49918951926, 50238772730, 50558620076, 50878455501,
     51198285377, 51518135316, 51837976134, 52157809260, 52477635805, 52797492063, 53117368983, 53437262930,
     53757142921, 54077026859, 54396907345, 54716835955, 55036713062, 55356640827, 55676537369, 55996488865,
     56316420754, 56636355217, 56956329593, 57276245282, 57596202473, 57916159021, 58236077854, 58556010303,
     58875938110, 59195924442, 59515871947, 59835838035, 60155809948, 60475808167, 60795765545, 61115766398,
     61435725825, 61755677959, 62075688445, 62395647263, 62715609853, 63035591787, 63355588060, 63675579841,
     63995560980, 64315552298, 64635582956, 64955538779, 65275512154, 65595490993, 65915477332, 66235470693,
     66555483426, 66875455452, 67195455039, 67515435090, 67835418300, 68155401870, 68475404599, 68795452423,
     69115474466, 69435450344, 69755439668, 70075479966, 70395468204, 70715475957, 71035472807, 71355513734,
     71675486047, 71995450475, 72315443410, 72635425138, 72955481520, 73275482426, 73595476688, 73915469540,
     74235426693, 74555381683, 74875368981, 75195429157, 75515480428, 75835517265, 76155557945, 76475556134,
     76795579451, 77115605924, 77435604178, 77755572770, 78075576305, 78395562526, 78715547599, 79035551674,
     79355540615, 79675575726, 79995547586, 80315544278, 80635546227, 80955555617, 81275540591, 81595549538,
     81915550079]"

definition x_row_14 :: "int list" where
  "x_row_14 =
    [11817000969, 12127609164, 12443958867, 12766059919, 13093926347, 13427563687, 13766972021, 14112158775,
     14463118632, 14819833221, 15182310838, 15550514164, 15924452624, 16304097682, 16689414687, 17080390156,
     17476985675, 17879171048, 18286913146, 18700171223, 19118909859, 19543074108, 19972606221, 20407466793,
     20847600290, 21292965548, 21743489087, 22199109276, 22659760749, 23125379711, 23595914325, 24071277989,
     24551407611, 25036233071, 25525671155, 26019641791, 26518074136, 27020885189, 27528004081, 28039347478,
     28554818908, 29074343878, 29597869471, 30125254970, 30656449891, 31191351228, 31729908970, 32272003587,
     32817586623, 33366531359, 33918769390, 34474232727, 35032798601, 35594423192, 36159024745, 36726469786,
     37296712851, 37869686035, 38445278953, 39023442285, 39604084062, 40187147209, 40772503600, 41360148758,
     41949978377, 42541929077, 43135892496, 43731836459, 44329664552, 44929334224, 45530772542, 46133919152,
     46738746702, 47345120215, 47953051656, 48562469011, 49173281212, 49785453501, 50398908717, 51013645932,
     51629563526, 52246635759, 52864820434, 53484057447, 54104303719, 54725504675, 55347680019, 55970744363,
     56594688890, 57219458967, 57844949821, 58471197998, 59098180259, 59725774793, 60354058215, 60982962558,
     61612427469, 62242448368, 62873013426, 63504106743, 64135672742, 64767665213, 65400082326, 66032949331,
     66666219558, 67299817447, 67933801373, 68568092593, 69202717636, 69837643507, 70472852133, 71108305774,
     71744023189, 72380016332, 73016168118, 73652560876, 74289210741, 74926041959, 75563048434, 76200207724,
     76837505542, 77474999283, 78112608284, 78750375633, 79388254423, 80026267074, 80664419197, 81302602941,
     81940909776, 82579321050, 83217801329, 83856420605, 84495098999, 85133832545, 85772588001, 86411448347,
     87050399262, 87689358100, 88328463714, 88967516990, 89606618839, 90245788934, 90884986443, 91524243962,
     92163523370, 92802835394, 93442198790, 94081633840, 94721043838, 95360482304, 96000002974, 96639518339,
     97279069377, 97918584802, 98558189888, 99197773242, 99837390001, 100476994827, 101116655652, 101756293703,
     102395977437, 103035662337, 103675360919, 104315063845, 104954783621, 105594504004, 106234229823, 106874056079,
     107513846129, 108153562857, 108793393622, 109433202056, 110072966808, 110712777026, 111352577741, 111992441538,
     112632256702, 113272083743, 113911943484, 114551818432, 115191687411, 115831584194, 116471522453, 117111338979,
     117751192777, 118391070556, 119030991702, 119670888488, 120310801509, 120950761000, 121590691826, 122230618394,
     122870618097, 123510616056, 124150552363, 124790488946, 125430445483, 126070428297, 126710409643, 127350398562,
     127990397846, 128630413222, 129270354937, 129910365912, 130550332174, 131190259646, 131830280970, 132470304278,
     133110295205, 133750312426, 134390364847, 135030321000, 135670319926, 136310335570, 136950324790, 137590338289,
     138230368657, 138870374084, 139510447896, 140150468353, 140790441338, 141430438424, 142070440787, 142710431348,
     143350433770, 143990493350, 144630548409, 145270549935, 145910530486, 146550488808, 147190510290, 147830509426,
     148470575641, 149110541845, 149750592427, 150390634921, 151030706500, 151670646574, 152310624482, 152950686127,
     153590659153, 154230646236, 154870720079, 155510614028, 156150596142, 156790659641, 157430633386, 158070649047,
     158710591350, 159350585980, 159990557711, 160630530183, 161270499427, 161910521323, 162550516603, 163190482792,
     163830422631]"

definition x_row_15 :: "int list" where
  "x_row_15 =
    [23634780143, 24256008404, 24888717596, 25532934303, 26188680791, 26855965949, 27534798395, 28225179199,
     28927099457, 29640545847, 30365501013, 31101936533, 31849825685, 32609111850, 33379755958, 34161706474,
     34954912131, 35759291030, 36574778310, 37401280667, 38238742234, 39087060449, 39946133936, 40815861824,
     41696151280, 42586877221, 43487927203, 44399169293, 45320460825, 46251693279, 47192741847, 48143464216,
     49103716679, 50073349113, 51052208336, 52040138165, 53036993192, 54042604241, 55056838449, 56079501709,
     57110434199, 58149484623, 59196455710, 60251226284, 61313593108, 62383385277, 63460484960, 64544666337,
     65635763495, 66733629361, 67838096489, 68948987037, 70066117363, 71189338133, 72318464573, 73453423815,
     74593923438, 75739864335, 76891058098, 78047391508, 79208654009, 80374753680, 81545514022, 82720817799,
     83900405263, 85084273208, 86272263471, 87464134340, 88659829437, 89859204804, 91062115479, 92268425863,
     93478041907, 94690804589, 95906647693, 97125398400, 98347018145, 99571305992, 100798274503, 102027737913,
     103259574749, 104493727918, 105730035415, 106968465700, 108208988306, 109451445144, 110695748927, 111941827269,
     113189666448, 114439093665, 115690116530, 116942608958, 118196501294, 119451722652, 120708276299, 121966046247,
     123225027480, 124485082349, 125746201609, 127008357433, 128271416054, 129535417336, 130800297278, 132066008820,
     133332483576, 134599733640, 135867681429, 137136303792, 138405538969, 139675413251, 140945839375, 142216787412,
     143488232199, 144760234976, 146032650196, 147305459198, 148578703708, 149852356585, 151126347770, 152400641475,
     153675275168, 154950179904, 156225390849, 157500864126, 158776585926, 160052504602, 161328716398, 162605171897,
     163881825931, 165158677102, 166435646121, 167712814846, 168990136047, 170267619890, 171545238277, 172823011460,
     174100890250, 175378821293, 176656920467, 177935093547, 179213318173, 180491692642, 181770130424, 183048727206,
     184327217835, 185605921891, 186884657773, 188163418059, 189442221838, 190721122201, 192000068271, 193279087882,
     194558139554, 195837195523, 197116400538, 198395612565, 199674831001, 200954101970, 202233365695, 203512639968,
     204792003319, 206071379608, 207350730914, 208630080321, 209909544216, 211189014497, 212468508049, 213748055445,
     215027584964, 216307216078, 217586896296, 218866477232, 220146109506, 221425767458, 222705465633, 223985129542,
     225264797531, 226544544335, 227824304232, 229104031191, 230383739676, 231663424684, 232943198829, 234222906969,
     235502669185, 236782475696, 238062262723, 239342090234, 240622002668, 241901911022, 243181742902, 244461690551,
     245741531359, 247021432644, 248301277604, 249581168404, 250861094078, 252141038818, 253421065594, 254701020169,
     255980887518, 257260848328, 258540873565, 259820905666, 261100908594, 262380854763, 263660862699, 264940834842,
     266220775656, 267500745402, 268780761926, 270060823540, 271340798715, 272620823081, 273900881190, 275180928531,
     276460914606, 277740919081, 279020967358, 280301002010, 281581054314, 282861097638, 284141109728, 285421181335,
     286701182750, 287981231437, 289261342952, 290541328315, 291821320901, 293101395969, 294381402286, 295661374812,
     296941357112, 298221462446, 299501443884, 300781429735, 302061512800, 303341459364, 304621530042, 305901507763,
     307181541613, 308461506346, 309741474814, 311021458944, 312301373851, 313581258984, 314861222655, 316141192042,
     317421179698, 318701162346, 319981143104, 321261185706, 322541120379, 323821065555, 325100961639, 326380920540,
     327660786948]"

definition x_row_16 :: "int list" where
  "x_row_16 =
    [47270338530, 48512804588, 49778235006, 51066679846, 52378178287, 53712756179, 55070430016, 56451198432,
     57855044557, 59281941569, 60731855114, 62204727445, 63700498656, 65219087806, 66760381754, 68324278827,
     69910681844, 71519442760, 73150426782, 74803469853, 76478400456, 78175038414, 79893184924, 81632639705,
     83393214587, 85174662642, 86976739912, 88799210643, 90641829434, 92504355605, 94386478165, 96287925119,
     98208422967, 100147694840, 102105387259, 104081226364, 106074916897, 108086136683, 110114560800, 112159857579,
     114221724675, 116299785348, 118393731853, 120503258946, 122627958417, 124767540962, 126921668848, 129090003274,
     131272204811, 133467918004, 135676870426, 137898595565, 140132829694, 142379269230, 144637536478, 146907321805,
     149188299797, 151480151490, 153782571459, 156095292246, 158417834407, 160749983694, 163091465145, 165441984077,
     167801236994, 170168903670, 172544767987, 174928494171, 177319918928, 179718624717, 182124426670, 184537056818,
     186956260737, 189381869001, 191813551321, 194251107949, 196694280093, 199142910671, 201596663557, 204055453662,
     206519090402, 208987322132, 211460079506, 213936962995, 216417945039, 218902907481, 221391594168, 223883857806,
     226379519239, 228878478995, 231380515508, 233885422831, 236393251620, 238903734661, 241416885791, 243932462444,
     246450361381, 248970497360, 251492768859, 254017059221, 256543244066, 259071366198, 261601098326, 264132472390,
     266665477130, 269200003838, 271735898262, 274273128446, 276811699617, 279351334667, 281892176977, 284434126935,
     286977141855, 289520993664, 292065816286, 294611452586, 297157986206, 299705252956, 302253226506, 304801859484,
     307351170990, 309901148395, 312451594894, 315002530644, 317553961670, 320105951895, 322658553440, 325211299379,
     327764626147, 330318311300, 332872331048, 335426696106, 337981358498, 340536275072, 343091446562, 345646972942,
     348202757347, 350758693296, 353314808579, 355871203754, 358427702337, 360984491079, 363541449032, 366098493281,
     368655687887, 371213030472, 373770561193, 376328233445, 378886001706, 381443937538, 384001856504, 386559857503,
     389117926075, 391676219835, 394234530250, 396792812601, 399351291660, 401909794770, 404468330377, 407026964781,
     409585614496, 412144407471, 414703175858, 417261980659, 419820958264, 422379863083, 424938751186, 427497927620,
     430056993719, 432616066348, 435175266190, 437734382772, 440293531277, 442852711332, 445412016423, 447971502143,
     450530798765, 453090167199, 455649502729, 458208951251, 460768459694, 463328053373, 465887570627, 468447239271,
     471006792818, 473566544068, 476126194227, 478685887605, 481245577573, 483805348711, 486365028302, 488924844568,
     491484612666, 494044321666, 496604011864, 499163799789, 501723629793, 504283493711, 506843290195, 509403157856,
     511962990320, 514522941350, 517082791953, 519642848656, 522202833761, 524762686522, 527322632758, 529882529037,
     532442420851, 535002422317, 537562386309, 540122357425, 542682434171, 545242468829, 547802466694, 550362492718,
     552922461624, 555482539495, 558042531431, 560602467437, 563162648952, 565722750610, 568282702877, 570842810092,
     573402917604, 575962999235, 578523081937, 581083162584, 583643265455, 586203287883, 588763260931, 591323292027,
     593883252456, 596443273935, 599003353442, 601563492606, 604123421135, 606683438234, 609243605174, 611803638038,
     614363628593, 616923690580, 619483675256, 622043744171, 624603673246, 627163577236, 629723677960, 632283670157,
     634843692958, 637403576097, 639963511752, 642523482942, 645083419327, 647643330711, 650203272467, 652763290376,
     655323267522]"

definition x_row_17 :: "int list" where
  "x_row_17 =
    [94541455324, 97026403245, 99557280165, 102134178452, 104757187033, 107426362674, 110141726029, 112903278005,
     115710975458, 118564785344, 121464629896, 124410377345, 127401910279, 130439087070, 133521683723, 136649499031,
     139822321627, 143039848320, 146301785984, 149607844773, 152957695333, 156350945326, 159787233040, 163266157476,
     166787301371, 170350201319, 173954353438, 177599302692, 181284526367, 185009507089, 188773757457, 192576638207,
     196417619925, 200296089540, 204211494530, 208163221220, 212150613086, 216173056150, 220229879308, 224320462264,
     228444146459, 232600284426, 236788187347, 241007264352, 245256725247, 249535938618, 253844217048, 258180876528,
     262545282090, 266936686787, 271354453768, 275797958112, 280266429404, 284759298770, 289275861948, 293815386243,
     298377390708, 302961087179, 307565895452, 312191173759, 316836362522, 321500721532, 326183652758, 330884723656,
     335603197219, 340338617624, 345090316855, 349857860719, 354640538362, 359438001710, 364249638745, 369074940533,
     373913351331, 378764438864, 383627767868, 388502854215, 393389259584, 398286483436, 403194238263, 408111948151,
     413039292303, 417975909674, 422921304084, 427875195485, 432837200959, 437807062429, 442784399966, 447768726662,
     452760032525, 457757794185, 462761810279, 467771737196, 472787226777, 477808283249, 482834411114, 487865521166,
     492901275392, 497941616150, 502986164281, 508034749030, 513087210697, 518143298172, 523202692981, 528265454984,
     533331384435, 538400437943, 543472278711, 548546790172, 553623737338, 558703047575, 563784666463, 568868524932,
     573954251207, 579041935016, 584131557779, 589222910016, 594315786547, 599410314112, 604506227555, 609603610432,
     614702124262, 619801918486, 624902903258, 630005085347, 635107990499, 640211847431, 645316755403, 650422424613,
     655529009211, 660636166872, 665744170495, 670852806947, 675962099161, 681072042796, 686182458370, 691293269596,
     696404763335, 701516635253, 706628965299, 711741575313, 716854769083, 721968220605, 727082027784, 732196114131,
     737310594653, 742425339665, 747540295793, 752655505647, 757770968129, 762886636891, 768002527720, 773118559142,
     778234871441, 783351273881, 788467944809, 793584599211, 798701497594, 803818484285, 808935619316, 814053067243,
     819170390229, 824287946609, 829405450988, 834523054071, 839640856519, 844758800102, 849876719924, 854994831607,
     860112896788, 865231116455, 870349453898, 875467910756, 880586444976, 885705102070, 890823822978, 895942513436,
     901061120048, 906179716020, 911298587548, 916417583647, 921536507373, 926655570709, 931774690027, 936893879961,
     942012956398, 947132142141, 952251503479, 957370815448, 962490012685, 967609521437, 972729002837, 977848339983,
     982967824448, 988087392216, 993206992691, 998326635354, 1003446304388, 1008565985024, 1013685706678, 1018805581548,
     1023925239073, 1029045157502, 1034165035124, 1039284843524, 1044404676526, 1049524620186, 1054644441170, 1059764409794,
     1064884318434, 1070004338968, 1075124268749, 1080244471055, 1085364528193, 1090484511927, 1095604595114, 1100724598478,
     1105844666500, 1110964804168, 1116084864159, 1121204874577, 1126325062599, 1131445152321, 1136565301592, 1141685638897,
     1146805806800, 1151925790859, 1157045932640, 1162166112443, 1167286221698, 1172406273611, 1177526581875, 1182646832239,
     1187766882661, 1192886884388, 1198006962839, 1203127084377, 1208246959060, 1213366976076, 1218486763464, 1223606758568,
     1228726721761, 1233846593404, 1238966815228, 1244086865449, 1249206854850, 1254326996667, 1259447092239, 1264567198081,
     1269687499091, 1274807474194, 1279927244161, 1285047273317, 1290167090035, 1295287035620, 1300406888764, 1305526667946,
     1310646540340]"

definition x_row_18 :: "int list" where
  "x_row_18 =
    [189083688921, 194053597973, 199115342781, 204269157017, 209515195566, 214853553887, 220284295855, 225807399998,
     231422826900, 237130469824, 242930139690, 248821634191, 254804718978, 260879073467, 267044289594, 273299936993,
     279645549742, 286080586199, 292604521050, 299216651567, 305916376160, 312702908374, 319575536730, 326533420485,
     333575639430, 340701388339, 347909713977, 355199642852, 362570108280, 370020154080, 377548652175, 385154413997,
     392836374125, 400593371525, 408424172521, 416327671123, 424302406749, 432347292674, 440461014310, 448642241683,
     456889603709, 465201946081, 473577749277, 482015802141, 490514770444, 499073243760, 507689794308, 516363149230,
     525091902823, 533874850510, 542710434311, 551597433198, 560534241273, 569520019389, 578553034265, 587632180111,
     596756084542, 605923440522, 615133037840, 624383626242, 633673841133, 643002674316, 652368578283, 661770556501,
     671207605795, 680678417768, 690181818697, 699716780471, 709282084973, 718876864175, 728499951143, 738150280049,
     747827053968, 757529236597, 767255784062, 777006100829, 786779065927, 796573507429, 806388828153, 816223976258,
     826078608350, 835951751956, 845842493689, 855750225870, 865674190527, 875613809349, 885568425527, 895537272219,
     905519763307, 915515310346, 925523353103, 935543172648, 945574292664, 955616280042, 965668428231, 975730535479,
     985802055447, 995882596628, 1005971583108, 1016068664992, 1026173649961, 1036285774891, 1046404955770, 1056530588186,
     1066662648243, 1076800535542, 1086944269881, 1097093058652, 1107247076183, 1117405990557, 1127569310917, 1137737011345,
     1147908717700, 1158084362020, 1168263501029, 1178446221907, 1188632206842, 1198821131431, 1209013020373, 1219207570786,
     1229404854893, 1239604423801, 1249806433263, 1260010619993, 1270216819018, 1280424774173, 1290634560600, 1300846097203,
     1311059128630, 1321273628402, 1331489832488, 1341707300774, 1351925947953, 1362145802925, 1372366802414, 1382588547896,
     1392811264776, 1403035227449, 1413259922280, 1423485322819, 1433711916106, 1443938981360, 1454166596984, 1464394761679,
     1474623684212, 1484853156422, 1495083020146, 1505313735890, 1515544731764, 1525776086634, 1536007742073, 1546239679012,
     1556472212370, 1566704988763, 1576937965495, 1587171446007, 1597405292186, 1607639395274, 1617873660775, 1628108037273,
     1638342741799, 1648577832828, 1658813325573, 1669048803784, 1679284679963, 1689520927615, 1699757050010, 1709993263665,
     1720229557663, 1730466102090, 1740702604009, 1750939618504, 1761176930182, 1771414210528, 1781651713742, 1791889218503,
     1802126805234, 1812364257333, 1822602054007, 1832839687792, 1843077871973, 1853315944762, 1863554202066, 1873792633125,
     1884030883830, 1894269182711, 1904507712050, 1914746469507, 1924985484753, 1935224245956, 1945463225215, 1955702268883,
     1965941321722, 1976180037370, 1986419052784, 1996658429579, 2006897450283, 2017136904971, 2027376240039, 2037615549295,
     2047855197425, 2058094765906, 2068334279787, 2078573820075, 2088813469730, 2099053348620, 2109293174176, 2119533012704,
     2129772820132, 2140012744709, 2150252607739, 2160492533017, 2170732406422, 2180972400110, 2191212436319, 2201452637894,
     2211692339292, 2221932460057, 2232172746036, 2242412892705, 2252653174824, 2262893432271, 2273134002270, 2283374311008,
     2293614537881, 2303854703732, 2314095191374, 2324335236186, 2334575624526, 2344816313269, 2355056224171, 2365296361285,
     2375537048184, 2385777280284, 2396017222502, 2406257145546, 2416497272190, 2426737212210, 2436977500856, 2447217897426,
     2457458423605, 2467698536697, 2477938448096, 2488178544726, 2498418640441, 2508658160374, 2518898274852, 2529138509345,
     2539378310538, 2549617989497, 2559857504886, 2570097363128, 2580337195261, 2590576878833, 2600816572159, 2611055930087,
     2621295625004]"

end
