(* ===== verification/Hll_Table.thy ===== *)
theory Hll_Table
  imports Hll_Table_Data Rounding
begin

text \<open>
  \<^verbatim>\<open>detail/hll/composite_interpolation_table.cuh\<close>: the tables of the composite estimator and
  their accessors. A row of x values is a pointer in the code and a function of the index here;
  each entry is the double nearest to the decimal of the file. Outside precisions 4 to 18, and
  beyond index 256, the code reads out of bounds, and no statement is about that.
\<close>

section \<open>Definitions\<close>

definition table_min_lg_k :: u8 where "table_min_lg_k = 4"
definition table_max_lg_k :: u8 where "table_max_lg_k = 18"
definition num_x_values :: nat where "num_x_values = 257"
definition last_x_offset :: nat where "last_x_offset = num_x_values - 1"

definition y_strides :: "u32 list" where
  "y_strides = [1, 2, 3, 5, 10, 20, 40, 80, 160, 320, 640, 1280, 2560, 5120, 10240]"

definition x_rows :: "int list list" where
  "x_rows = [x_row_4, x_row_5, x_row_6, x_row_7, x_row_8, x_row_9, x_row_10, x_row_11, x_row_12,
     x_row_13, x_row_14, x_row_15, x_row_16, x_row_17, x_row_18]"

definition x_unit :: "nat \<Rightarrow> rat" where
  "x_unit row = (if row < 3 then 1 / 10 ^ 12 else 1 / 10 ^ 6)"

definition x_values :: "nat \<Rightarrow> nat \<Rightarrow> fp" where
  "x_values row i = f_lit (of_int (x_rows ! row ! i) * x_unit row)"

definition valid_lg_k :: "u8 \<Rightarrow> bool" where
  "valid_lg_k lg_k \<longleftrightarrow> table_min_lg_k \<le> lg_k \<and> lg_k \<le> table_max_lg_k"

definition x_values_for :: "u8 \<Rightarrow> nat \<Rightarrow> fp" where
  "x_values_for lg_k = x_values (unat lg_k - unat table_min_lg_k)"

definition y_stride_for :: "u8 \<Rightarrow> u32" where
  "y_stride_for lg_k = y_strides ! (unat lg_k - unat table_min_lg_k)"

section \<open>Facts\<close>

text \<open>
  \<open>ladder d m n xs\<close>: \<open>xs\<close> has \<open>n + 1\<close> entries, consecutive ones at least \<open>d\<close> units apart, and
  the last is at most \<open>m\<close>.
\<close>

fun ladder :: "int \<Rightarrow> int \<Rightarrow> nat \<Rightarrow> int list \<Rightarrow> bool" where
  "ladder d m 0 xs \<longleftrightarrow> (case xs of [y] \<Rightarrow> y \<le> m | _ \<Rightarrow> False)"
| "ladder d m (Suc n) xs \<longleftrightarrow>
     (case xs of x # y # zs \<Rightarrow> x + d \<le> y \<and> ladder d m n (y # zs) | _ \<Rightarrow> False)"

definition row_ok :: "int \<Rightarrow> int \<Rightarrow> int list \<Rightarrow> bool" where
  "row_ok d m xs \<longleftrightarrow> d \<le> hd xs \<and> ladder d m 256 xs"

lemma ladder_nth:
  "ladder d m n xs \<Longrightarrow> length xs = Suc n \<and> xs ! n \<le> m \<and>
    (0 \<le> d \<longrightarrow> (\<forall>j \<le> n. \<forall>i < j. xs ! i + d \<le> xs ! j))"
proof (induction n arbitrary: xs)
  case 0
  then show ?case by (auto split: list.splits)
next
  case (Suc n)
  then obtain x y zs where xs: "xs = x # y # zs" and xy: "x + d \<le> y" and l: "ladder d m n (y # zs)"
    by (auto split: list.splits)
  note IH = Suc.IH [OF l]
  have "xs ! i + d \<le> xs ! j" if "0 \<le> d" "j \<le> Suc n" "i < j" for i j
  proof -
    obtain j' where "j = Suc j'" using \<open>i < j\<close> by (cases j) auto
    then have j: "j = Suc j'" "j' \<le> n" using \<open>j \<le> Suc n\<close> by simp_all
    have y: "y \<le> (y # zs) ! j'" using IH that(1) j(2) by (cases j') force+
    show ?thesis
      using IH that j xy y by (cases i) (auto simp: xs)
  qed
  with IH show ?case by (simp add: xs)
qed

lemma low_rows_ok: "list_all (row_ok (10 ^ 11) (10 ^ 15)) [x_row_4, x_row_5, x_row_6]"
  by code_simp

lemma middle_rows_ok:
  "list_all (row_ok (10 ^ 5) (3 * 10 ^ 12)) [x_row_7, x_row_8, x_row_9, x_row_10, x_row_11, x_row_12]"
  by code_simp

lemma high_rows_ok:
  "list_all (row_ok (10 ^ 5) (3 * 10 ^ 12)) [x_row_13, x_row_14, x_row_15, x_row_16, x_row_17, x_row_18]"
  by code_simp

lemma x_rows_split: "length x_rows = 15" "\<forall>xs \<in> set (take 3 x_rows). row_ok (10 ^ 11) (10 ^ 15) xs"
  "\<forall>xs \<in> set (drop 3 x_rows). row_ok (10 ^ 5) (3 * 10 ^ 12) xs"
  using low_rows_ok middle_rows_ok high_rows_ok by (simp_all add: x_rows_def)

lemma row_ok_row:
  assumes "row < 15"
  shows "\<exists>d m. row_ok d m (x_rows ! row) \<and> 1 / 10 \<le> of_int d * x_unit row \<and>
    of_int m * x_unit row \<le> 3 * 10 ^ 6"
proof (cases "row < 3")
  case True
  then have "x_rows ! row \<in> set (take 3 x_rows)" using assms x_rows_split(1) by (auto simp: in_set_conv_nth)
  with True x_rows_split(2) show ?thesis
    by (intro exI [of _ "10 ^ 11"] exI [of _ "10 ^ 15"]) (simp add: x_unit_def)
next
  case False
  then have "x_rows ! row \<in> set (drop 3 x_rows)"
    using assms x_rows_split(1) by (auto simp: in_set_conv_nth intro!: exI [of _ "row - 3"])
  with False x_rows_split(3) show ?thesis
    by (intro exI [of _ "10 ^ 5"] exI [of _ "3 * 10 ^ 12"]) (simp add: x_unit_def)
qed

lemma rnd64_near:
  assumes "\<bar>x\<bar> < 2 ^ 22" shows "\<bar>rnd64 x - x\<bar> \<le> 1 / 2 ^ 32"
proof (cases "x = 0")
  case False
  then have "ilog2 \<bar>x\<bar> < 22" using assms by (simp add: ilog2_le_iff)
  then have "(2 :: rat) powi ulp_exp x \<le> 2 powi (- 31)"
    by (intro power_int_increasing) (auto simp: ulp_exp_def)
  also have "(2 :: rat) powi (- 31) = 1 / 2 ^ 31"
    by (simp add: power_int_def power_one_over)
  finally show ?thesis using rnd64_error [OF False] by simp
qed simp

lemma x_row_entry:
  assumes "row < 15" and "i \<le> 256"
  shows "length (x_rows ! row) = 257" and "1 / 10 \<le> of_int (x_rows ! row ! i) * x_unit row"
    and "of_int (x_rows ! row ! i) * x_unit row \<le> 3 * 10 ^ 6"
    and "i < j \<Longrightarrow> j \<le> 256 \<Longrightarrow>
      of_int (x_rows ! row ! i) * x_unit row + 1 / 10 \<le> of_int (x_rows ! row ! j) * x_unit row"
proof -
  have u: "0 < x_unit row" by (simp add: x_unit_def)
  obtain d m where "row_ok d m (x_rows ! row)" and d: "1 / 10 \<le> of_int d * x_unit row"
    and m: "of_int m * x_unit row \<le> 3 * 10 ^ 6"
    using row_ok_row [OF assms(1)] by blast
  then have pos: "d \<le> hd (x_rows ! row)" and lad: "ladder d m 256 (x_rows ! row)"
    by (simp_all add: row_ok_def)
  note l = ladder_nth [OF lad]
  show len: "length (x_rows ! row) = 257" using l by simp
  have d0: "0 \<le> d"
  proof (rule ccontr)
    assume "\<not> 0 \<le> d"
    with u have "of_int d * x_unit row < 0" by (simp add: mult_neg_pos)
    with d show False by simp
  qed
  have le: "x_rows ! row ! i \<le> x_rows ! row ! j" if "i \<le> j" "j \<le> 256" for i j
  proof (cases "i = j")
    case False
    then have "x_rows ! row ! i + d \<le> x_rows ! row ! j" using l d0 that by simp
    with d0 show ?thesis by simp
  qed simp
  have first: "d \<le> x_rows ! row ! 0" using pos len by (simp add: hd_conv_nth flip: length_greater_0_conv)
  with le [of 0 i] assms(2) have "d \<le> x_rows ! row ! i" by simp
  then have "of_int d * x_unit row \<le> of_int (x_rows ! row ! i) * x_unit row" using u by simp
  with d show "1 / 10 \<le> of_int (x_rows ! row ! i) * x_unit row" by simp
  have "x_rows ! row ! i \<le> m" using le [of i 256] assms(2) l by simp
  then have "of_int (x_rows ! row ! i) * x_unit row \<le> of_int m * x_unit row"
    using u by simp
  with m show "of_int (x_rows ! row ! i) * x_unit row \<le> 3 * 10 ^ 6" by simp
  show "of_int (x_rows ! row ! i) * x_unit row + 1 / 10 \<le> of_int (x_rows ! row ! j) * x_unit row"
    if "i < j" "j \<le> 256"
  proof -
    have "x_rows ! row ! i + d \<le> x_rows ! row ! j"
      using l d0 that by simp
    then have "of_int (x_rows ! row ! i + d) * x_unit row \<le> of_int (x_rows ! row ! j) * x_unit row"
      using u by simp
    with d show ?thesis by (simp add: distrib_right)
  qed
qed

definition x_exact :: "u8 \<Rightarrow> nat \<Rightarrow> rat" where
  "x_exact lg_k i =
     of_int (x_rows ! (unat lg_k - 4) ! i) * x_unit (unat lg_k - 4)"

lemma x_values_for_Fin:
  assumes "valid_lg_k lg_k" and "i \<le> 256"
  obtains v where "x_values_for lg_k i = Fin v" and "\<bar>v - x_exact lg_k i\<bar> \<le> 1 / 2 ^ 32"
proof
  have row: "unat lg_k - 4 < 15"
    using assms(1) by (auto simp: valid_lg_k_def table_min_lg_k_def table_max_lg_k_def word_le_nat_alt)
  note e = x_row_entry [OF row assms(2)]
  have "\<bar>x_exact lg_k i\<bar> \<le> 3 * 10 ^ 6" using e(2,3) by (simp add: x_exact_def)
  then have near: "\<bar>rnd64 (x_exact lg_k i) - x_exact lg_k i\<bar> \<le> 1 / 2 ^ 32"
    by (intro rnd64_near) simp
  then show "\<bar>rnd64 (x_exact lg_k i) - x_exact lg_k i\<bar> \<le> 1 / 2 ^ 32" .
  have "\<bar>rnd64 (x_exact lg_k i)\<bar> < 2 ^ 1024"
    using near \<open>\<bar>x_exact lg_k i\<bar> \<le> 3 * 10 ^ 6\<close> by (simp add: abs_if split: if_splits)
  then show "x_values_for lg_k i = Fin (rnd64 (x_exact lg_k i))"
    by (simp add: x_values_for_def x_values_def f_lit_def fp_round_def Let_def table_min_lg_k_def
        x_exact_def)
qed

lemma x_exact_spaced:
  assumes "valid_lg_k lg_k" and "i < j" and "j \<le> 256"
  shows "x_exact lg_k i + 1 / 10 \<le> x_exact lg_k j"
proof -
  have row: "unat lg_k - 4 < 15"
    using assms(1) by (auto simp: valid_lg_k_def table_min_lg_k_def table_max_lg_k_def word_le_nat_alt)
  from x_row_entry(4) [OF this _ assms(2,3)] assms(2,3) show ?thesis by (simp add: x_exact_def)
qed

text \<open>The doubles of a row are finite and strictly ascending, rounded decimals as they are.\<close>

lemma x_values_for_less:
  assumes "valid_lg_k lg_k" and "i < j" and "j \<le> 256"
    and "x_values_for lg_k i = Fin a" and "x_values_for lg_k j = Fin b"
  shows "a < b"
proof -
  obtain a' where "x_values_for lg_k i = Fin a'" "\<bar>a' - x_exact lg_k i\<bar> \<le> 1 / 2 ^ 32"
    using x_values_for_Fin [OF assms(1), of i] assms(2,3) by auto
  moreover obtain b' where "x_values_for lg_k j = Fin b'" "\<bar>b' - x_exact lg_k j\<bar> \<le> 1 / 2 ^ 32"
    using x_values_for_Fin [OF assms(1), of j] assms(3) by auto
  ultimately show ?thesis
    using assms(4,5) x_exact_spaced [OF assms(1-3)] by (simp add: abs_if split: if_splits)
qed

lemma x_values_for_pos:
  assumes "valid_lg_k lg_k" and "i \<le> 256" and "x_values_for lg_k i = Fin a"
  shows "0 < a"
proof -
  obtain a' where "x_values_for lg_k i = Fin a'" "\<bar>a' - x_exact lg_k i\<bar> \<le> 1 / 2 ^ 32"
    using x_values_for_Fin [OF assms(1,2)] by auto
  moreover have "1 / 10 \<le> x_exact lg_k i"
    unfolding x_exact_def by (intro x_row_entry(2)) (use assms in \<open>auto simp: valid_lg_k_def
        table_min_lg_k_def table_max_lg_k_def word_le_nat_alt\<close>)
  ultimately show ?thesis using assms(3) by (simp add: abs_if split: if_splits)
qed

section \<open>Properties\<close>

text \<open>
  At every supported precision the 257 x values are finite positive doubles in strictly
  ascending order: the rounding of the decimals does not make two of them meet, and the binary
  search of the estimator runs over a sorted array.
\<close>

theorem hll_table_ascending:
  assumes "valid_lg_k lg_k" and "i < j" and "j \<le> last_x_offset"
  shows "fless (Fin 0) (x_values_for lg_k i) \<and> fless (x_values_for lg_k i) (x_values_for lg_k j)"
proof -
  have j: "j \<le> 256" using assms(3) by (simp add: last_x_offset_def num_x_values_def)
  obtain a b where ab: "x_values_for lg_k i = Fin a" "x_values_for lg_k j = Fin b"
    using x_values_for_Fin [OF assms(1)] assms(2) j by (metis less_imp_le_nat order_trans)
  from x_values_for_pos [OF assms(1) _ ab(1)] x_values_for_less [OF assms(1,2) j ab] assms(2) j
  show ?thesis by (simp add: ab)
qed

theorem hll_table_ascending_witness:
  "fless (Fin 0) (x_values_for 12 255) \<and> fless (x_values_for 12 255) (x_values_for 12 256)"
  by (rule hll_table_ascending)
    (simp_all add: valid_lg_k_def table_min_lg_k_def table_max_lg_k_def last_x_offset_def
      num_x_values_def)

end
