(* ===== verification/Hll_Reduction.thy ===== *)
theory Hll_Reduction
  imports Hll_Env Rounding
begin

text \<open>
  \<^verbatim>\<open>detail/hll/reduction_state.hpp\<close>: the pass over the registers that the estimator and the
  image are computed from. Below, \<open>harmonic vs\<close> is the exact harmonic sum of register values,
  and \<open>high vs\<close> counts the values from 32 on.
\<close>

section \<open>Definitions\<close>

type_synonym register_type = u32

record reduction_result =
  kxq0 :: fp
  kxq1 :: fp
  cur_min :: u8
  num_at_cur_min :: u32

definition config_k :: "u8 \<Rightarrow> u32" where
  "config_k lg_k = push_bit (unat lg_k) 1"

definition reduce_register :: "hll_env \<Rightarrow> register_type \<Rightarrow> reduction_result \<Rightarrow> reduction_result" where
  "reduce_register c x r =
     (let v = ucast x :: u8
      in if v = 0 then r\<lparr>num_at_cur_min := num_at_cur_min r + 1\<rparr>
         else let delta = fsub (INVERSE_POWERS_OF_2 c v) (Fin 1)
              in if v < 32 then r\<lparr>kxq0 := fadd (kxq0 r) delta\<rparr>
                 else r\<lparr>kxq1 := fadd (kxq1 r) delta\<rparr>)"

definition reduce_hll8 :: "hll_env \<Rightarrow> register_type list \<Rightarrow> u8 \<Rightarrow> reduction_result" where
  "reduce_hll8 c registers lgK =
     foldl (\<lambda>r i. reduce_register c (registers ! i) r)
       \<lparr>kxq0 = f_of_nat (unat (config_k lgK)), kxq1 = Fin 0, cur_min = 0, num_at_cur_min = 0\<rparr>
       [0..<unat (config_k lgK)]"

section \<open>What the reduction computes\<close>

definition register_bytes :: "register_type list \<Rightarrow> u8 list" where
  "register_bytes xs = map ucast xs"

definition harmonic :: "u8 list \<Rightarrow> rat" where
  "harmonic vs = sum_list (map (\<lambda>v. 1 / 2 ^ unat v) vs)"

definition low :: "u8 list \<Rightarrow> u8 list" where "low = filter (\<lambda>v. v < 32)"
definition high :: "u8 list \<Rightarrow> nat" where "high vs = length (filter (\<lambda>v. \<not> v < 32) vs)"
definition zeroes :: "u8 list \<Rightarrow> nat" where "zeroes vs = length (filter (\<lambda>v. v = 0) vs)"

lemma counts_append [simp]:
  "high (vs @ ws) = high vs + high ws" "zeroes (vs @ ws) = zeroes vs + zeroes ws"
  "low (vs @ ws) = low vs @ low ws" "harmonic (vs @ ws) = harmonic vs + harmonic ws"
  by (simp_all add: high_def zeroes_def low_def harmonic_def)

lemma counts_Nil [simp]: "high [] = 0" "zeroes [] = 0" "low [] = []" "harmonic [] = 0"
  by (simp_all add: high_def zeroes_def low_def harmonic_def)

lemma counts_single [simp]:
  "high [v] = (if v < 32 then 0 else 1)" "zeroes [v] = (if v = 0 then 1 else 0)"
  "low [v] = (if v < 32 then [v] else [])" "harmonic [v] = 1 / 2 ^ unat v"
  by (simp_all add: high_def zeroes_def low_def harmonic_def)

lemma low_high_length: "length (low vs) + high vs = length vs"
  by (simp add: low_def high_def sum_length_filter_compl)

lemma zeroes_le: "zeroes vs \<le> length vs"
  by (simp add: zeroes_def)

lemma harmonic_nonneg: "0 \<le> harmonic vs"
  by (induction vs) (simp_all add: harmonic_def)

lemma harmonic_le: "harmonic vs \<le> of_nat (length vs)"
  by (induction vs) (simp_all add: harmonic_def, metis add_mono add.commute div_by_1 frac_le
      one_le_power one_le_numeral order_refl zero_le_one zero_less_one)

text \<open>A sum of powers from \<open>2^0\<close> down to \<open>2^-31\<close> has 31 binary digits after the point.\<close>

lemma harmonic_low_fraction: "\<exists>n :: int. harmonic (low vs) = of_int n / 2 ^ 31"
proof (induction vs)
  case Nil
  show ?case by (intro exI [of _ 0]) simp
next
  case (Cons v vs)
  then obtain n :: int where n: "harmonic (low vs) = of_int n / 2 ^ 31" by blast
  have split: "low (v # vs) = low [v] @ low vs" by (simp add: low_def)
  show ?case
  proof (cases "v < 32")
    case True
    then have "unat v \<le> 31" by (simp add: word_less_nat_alt)
    then have "(2 :: rat) ^ 31 = 2 ^ (31 - unat v) * 2 ^ unat v"
      by (simp only: power_add [symmetric]) simp
    then have p: "(1 / 2 ^ unat v :: rat) = of_int (2 ^ (31 - unat v)) / 2 ^ 31"
      by (simp only: of_int_power of_int_numeral) (simp add: field_simps)
    have "harmonic (low (v # vs)) = 1 / 2 ^ unat v + harmonic (low vs)"
      using True by (simp only: split counts_append counts_single if_True)
    then have "harmonic (low (v # vs)) = of_int (2 ^ (31 - unat v) + n) / 2 ^ 31"
      by (simp only: p n of_int_add add_divide_distrib)
    then show ?thesis ..
  next
    case False
    then show ?thesis using n by (simp add: split)
  qed
qed

text \<open>The partial sums of \<open>kxq0\<close> are exact: the difference never needs more than 53 bits.\<close>

lemma kxq0_representable:
  assumes "length vs \<le> k" and "k \<le> 2 ^ 21"
  shows "representable (of_nat k - of_nat (length (low vs)) + harmonic (low vs))"
    and "\<bar>of_nat k - of_nat (length (low vs)) + harmonic (low vs)\<bar> \<le> (2 :: rat) ^ 21"
proof -
  let ?x = "of_nat k - of_nat (length (low vs)) + harmonic (low vs)"
  obtain n :: int where n: "harmonic (low vs) = of_int n / 2 ^ 31"
    using harmonic_low_fraction by blast
  have len: "length (low vs) \<le> k" using low_high_length [of vs] assms(1) by simp
  have k: "(of_nat k :: rat) \<le> 2 ^ 21"
    using assms(2) by (metis of_nat_le_iff of_nat_numeral of_nat_power)
  have "0 \<le> ?x"
    using len harmonic_nonneg [of "low vs"] by (simp add: add_increasing2)
  moreover have "?x \<le> 2 ^ 21"
    using harmonic_le [of "low vs"] k by simp
  ultimately show b: "\<bar>?x\<bar> \<le> 2 ^ 21" by simp
  have eq: "?x = of_int ((int k - int (length (low vs))) * 2 ^ 31 + n) / 2 ^ 31"
    by (simp add: n field_simps)
  have "\<bar>(int k - int (length (low vs))) * 2 ^ 31 + n\<bar> \<le> 2 ^ 52"
  proof -
    have "\<bar>of_int ((int k - int (length (low vs))) * 2 ^ 31 + n)\<bar> \<le> (of_int (2 ^ 52) :: rat)"
      using b unfolding eq by (simp add: abs_div)
    then show ?thesis by (simp only: of_int_abs [symmetric] of_int_le_iff)
  qed
  then show "representable ?x"
    by (intro representable_fraction [OF eq]) simp_all
qed


text \<open>
  The partial sums of \<open>kxq1\<close> are rounded, but never past the bounds: each term lies in
  \<open>[-1, -1 + 2^-32]\<close>, and the multiples of \<open>2^-32\<close> in question are representable.
\<close>

definition kxq1_ok :: "nat \<Rightarrow> fp \<Rightarrow> bool" where
  "kxq1_ok m x \<longleftrightarrow> (\<exists>y. x = Fin y \<and> - of_nat m \<le> y \<and> y \<le> - of_nat m + of_nat m / 2 ^ 32)"

lemma kxq1_bounds_representable:
  assumes "m \<le> 2 ^ 21"
  shows "representable (- of_nat m)" and "representable (- of_nat m + of_nat m / 2 ^ 32)"
proof -
  show "representable (- of_nat m)" using assms by (simp add: representable_of_nat)
  have "(- of_nat m + of_nat m / 2 ^ 32 :: rat) = of_int (int m - int m * 2 ^ 32) / 2 ^ 32"
    by (simp add: field_simps)
  moreover have "\<bar>int m - int m * 2 ^ 32\<bar> < 2 ^ 53"
  proof -
    have "int m \<le> 2 ^ 21" using assms by (metis of_nat_le_iff of_nat_numeral of_nat_power)
    then show ?thesis by (simp add: abs_if)
  qed
  ultimately show "representable (- of_nat m + of_nat m / 2 ^ 32)"
    by (rule representable_fraction) simp
qed

lemma kxq1_ok_step:
  assumes "kxq1_ok m x" and "m < 2 ^ 21" and "numerics_ok c" and "\<not> v < 32"
  shows "kxq1_ok (Suc m) (fadd x (fsub (INVERSE_POWERS_OF_2 c v) (Fin 1)))"
proof -
  obtain y where x: "x = Fin y" and y: "- of_nat m \<le> y" "y \<le> - of_nat m + of_nat m / 2 ^ 32"
    using assms(1) by (auto simp: kxq1_ok_def)
  have inv: "INVERSE_POWERS_OF_2 c v = Fin (1 / 2 ^ unat v)"
    using assms(3) by (simp add: numerics_ok_def)
  have "32 \<le> unat v" using assms(4) by (simp add: word_less_nat_alt)
  then have small: "1 / 2 ^ unat v \<le> (1 / 2 ^ 32 :: rat)"
    by (intro divide_left_mono power_increasing) simp_all
  note one = kxq1_bounds_representable [of 1]
  obtain d where d: "fsub (INVERSE_POWERS_OF_2 c v) (Fin 1) = Fin d" "- 1 \<le> d" "d \<le> - 1 + 1 / 2 ^ 32"
  proof (rule fp_round_between [of "- 1" "- 1 + 1 / 2 ^ 32" "1 / 2 ^ unat v - 1"])
    show "1 / 2 ^ unat v - 1 \<le> (- 1 + 1 / 2 ^ 32 :: rat)" using small by linarith
  qed (use one in \<open>simp_all add: inv fsub_Fin that\<close>)
  have m: "(of_nat m :: rat) \<le> 2 ^ 21"
    using assms(2) by (metis less_imp_le of_nat_le_iff of_nat_numeral of_nat_power)
  obtain z where "fadd x (Fin d) = Fin z" "- of_nat (Suc m) \<le> z"
    "z \<le> - of_nat (Suc m) + of_nat (Suc m) / 2 ^ 32"
  proof (rule fp_round_between [of "- of_nat (Suc m)" "- of_nat (Suc m) + of_nat (Suc m) / 2 ^ 32" "y + d"])
    show "representable (- of_nat (Suc m))" "representable (- of_nat (Suc m) + of_nat (Suc m) / 2 ^ 32)"
      using kxq1_bounds_representable [of "Suc m"] assms(2) by simp_all
    show "- of_nat (Suc m) \<le> y + d" using y d by simp
    show "y + d \<le> - of_nat (Suc m) + of_nat (Suc m) / 2 ^ 32"
      using y d by (simp add: add_divide_distrib)
    have "(2 :: rat) ^ 21 + 1 < 2 ^ 1024" "(0 :: rat) < 2 ^ 1024" by simp_all
    then show "- (2 ^ 1024) < (- of_nat (Suc m) :: rat)" using m by simp
    show "- of_nat (Suc m) + of_nat (Suc m) / 2 ^ 32 < (2 ^ 1024 :: rat)"
      using m by (simp add: field_simps)
  qed (simp add: x that)
  then show ?thesis by (simp add: kxq1_ok_def d(1))
qed


text \<open>The state after the registers with values \<open>vs\<close>, of a sketch with \<open>k\<close> registers.\<close>

definition reduced :: "nat \<Rightarrow> u8 list \<Rightarrow> reduction_result \<Rightarrow> bool" where
  "reduced k vs r \<longleftrightarrow>
     kxq0 r = Fin (of_nat k - of_nat (length (low vs)) + harmonic (low vs)) \<and>
     kxq1_ok (high vs) (kxq1 r) \<and> cur_min r = 0 \<and> num_at_cur_min r = of_nat (zeroes vs)"

lemma reduced_step:
  assumes "reduced k vs r" and "length vs < k" and "k \<le> 2 ^ 21" and "numerics_ok c"
    and "v = ucast x"
  shows "reduced k (vs @ [v]) (reduce_register c x r)"
proof -
  have inv: "INVERSE_POWERS_OF_2 c v = Fin (1 / 2 ^ unat v)"
    using assms(4) by (simp add: numerics_ok_def)
  have zero: "harmonic [0 :: u8] = 1" by simp
  consider "v = 0" | "v \<noteq> 0" "v < 32" | "\<not> v < 32" by blast
  then show ?thesis
  proof cases
    case 1
    with assms(1,5) show ?thesis by (auto simp: reduced_def reduce_register_def)
  next
    case 2
    let ?x = "of_nat k - of_nat (length (low vs)) + harmonic (low vs)"
    let ?y = "of_nat k - of_nat (length (low (vs @ [v]))) + harmonic (low (vs @ [v]))"
    have y: "?y = ?x + (1 / 2 ^ unat v - 1)" using 2 by simp
    have "unat v < 32" using 2 by (simp add: word_less_nat_alt)
    have "(2 :: int) ^ unat v < 2 ^ 32" "(1 :: int) \<le> 2 ^ unat v"
      using power_strict_increasing [of "unat v" 32 "2 :: int"] \<open>unat v < 32\<close> by simp_all
    then have "\<bar>1 - 2 ^ unat v\<bar> < (2 :: int) ^ 53" by simp
    then have "representable (1 / 2 ^ unat v - 1)"
      using \<open>unat v < 32\<close> representable_fraction [of _ "1 - 2 ^ unat v" "unat v"]
      by (simp add: diff_divide_distrib)
    moreover have "1 / 2 ^ unat v \<le> (1 :: rat)" by (simp add: divide_le_eq)
    then have "\<bar>1 / 2 ^ unat v - 1\<bar> \<le> (1 :: rat)" using zero_le_divide_1_iff [of "2 ^ unat v :: rat"] unfolding abs_le_iff by (intro conjI) (linarith, simp)
    then have "\<bar>1 / 2 ^ unat v - 1\<bar> \<le> (2 :: rat) ^ 64" by (rule order_trans) simp
    ultimately have d: "fsub (INVERSE_POWERS_OF_2 c v) (Fin 1) = Fin (1 / 2 ^ unat v - 1)"
      unfolding inv fsub_Fin by (rule fp_round_small)
    have "representable ?y" "\<bar>?y\<bar> \<le> 2 ^ 21"
      using kxq0_representable [of "vs @ [v]" k] assms(2,3) by simp_all
    then have "fadd (Fin ?x) (Fin (1 / 2 ^ unat v - 1)) = Fin ?y"
      unfolding fadd_Fin y by (intro fp_round_Fin_nonneg) auto
    with 2 d assms(1,5) show ?thesis
      by (auto simp: reduced_def reduce_register_def Let_def)
  next
    case 3
    have "high vs < 2 ^ 21" using low_high_length [of vs] assms(2,3) by simp
    with 3 assms(1,4,5) kxq1_ok_step [of "high vs" "kxq1 r" c v] show ?thesis
      by (auto simp: reduced_def reduce_register_def Let_def)
  qed
qed

lemma reduced_loop:
  assumes "numerics_ok c" and "length xs = k" and "k \<le> 2 ^ 21" and "n \<le> k" and "reduced k [] r"
  shows "reduced k (register_bytes (take n xs)) (foldl (\<lambda>r i. reduce_register c (xs ! i) r) r [0..<n])"
  using assms(4)
proof (induction n)
  case 0
  with assms(5) show ?case by (simp add: register_bytes_def)
next
  case (Suc n)
  then have "register_bytes (take (Suc n) xs) = register_bytes (take n xs) @ [ucast (xs ! n)]"
    using assms(2) by (simp add: register_bytes_def take_Suc_conv_app_nth)
  moreover have "length (register_bytes (take n xs)) < k"
    using Suc assms(2) by (simp add: register_bytes_def)
  ultimately show ?case
    using Suc assms(1,3) by (auto intro: reduced_step)
qed

lemma unat_config_k: "lgK \<le> 21 \<Longrightarrow> unat (config_k lgK) = 2 ^ unat lgK"
proof -
  assume "lgK \<le> 21"
  then have le: "unat lgK \<le> 21" by (simp add: word_le_nat_alt)
  then have "(2 :: nat) ^ unat lgK < 2 ^ 32" by (intro power_strict_increasing) auto
  moreover have "config_k lgK = word_of_nat (2 ^ unat lgK)" by (simp add: config_k_def)
  ultimately show ?thesis by (simp only: unat_of_nat) simp
qed

lemma reduce_hll8_reduced:
  assumes "numerics_ok c" and "lgK \<le> 21" and "length xs = 2 ^ unat lgK"
  shows "reduced (2 ^ unat lgK) (register_bytes xs) (reduce_hll8 c xs lgK)"
proof -
  have le: "unat lgK \<le> 21" using assms(2) by (simp add: word_le_nat_alt)
  then have k: "(2 :: nat) ^ unat lgK \<le> 2 ^ 21" by (intro power_increasing) auto
  have "(2 :: nat) ^ unat lgK < 2 ^ 53" using le by (intro power_strict_increasing) auto
  note init = f_of_nat_exact [OF this]
  have "reduced (2 ^ unat lgK) []
    \<lparr>kxq0 = f_of_nat (2 ^ unat lgK), kxq1 = Fin 0, cur_min = 0, num_at_cur_min = 0\<rparr>"
    unfolding init by (simp add: reduced_def kxq1_ok_def)
  from reduced_loop [OF assms(1,3) k order_refl this] show ?thesis
    using assms(3) by (simp add: reduce_hll8_def unat_config_k [OF assms(2)])
qed


section \<open>Properties\<close>

lemma harmonic_split:
  "harmonic (low vs) \<le> harmonic vs \<and> harmonic vs \<le> harmonic (low vs) + of_nat (high vs) / 2 ^ 32"
proof (induction vs)
  case (Cons v vs)
  have split: "harmonic (v # vs) = 1 / 2 ^ unat v + harmonic vs" by (simp add: harmonic_def)
  have low: "low (v # vs) = low [v] @ low vs" "high (v # vs) = high [v] + high vs"
    by (simp_all add: low_def high_def)
  show ?case
  proof (cases "v < 32")
    case True
    with Cons show ?thesis unfolding split low counts_append by simp
  next
    case False
    then have "32 \<le> unat v" by (simp add: word_less_nat_alt)
    then have "1 / 2 ^ unat v \<le> (1 / 2 ^ 32 :: rat)"
      by (intro divide_left_mono power_increasing) simp_all
    moreover have "0 \<le> (1 / 2 ^ unat v :: rat)" by simp
    moreover have "harmonic (low (v # vs)) = harmonic (low vs)" "high (v # vs) = Suc (high vs)"
      using False unfolding low counts_append by simp_all
    moreover have "(of_nat (Suc (high vs)) / 2 ^ 32 :: rat) = 1 / 2 ^ 32 + of_nat (high vs) / 2 ^ 32"
      by (simp add: add_divide_distrib)
    ultimately show ?thesis using Cons unfolding split by (elim conjE) (intro conjI; simp only:; linarith)
  qed
qed simp

lemma reducedD:
  assumes "reduced k vs r" and "length vs = k"
  obtains y where "kxq0 r = Fin (harmonic (low vs) + of_nat (high vs))" and "kxq1 r = Fin y"
    and "- of_nat (high vs) \<le> y" and "y \<le> - of_nat (high vs) + of_nat (high vs) / 2 ^ 32"
proof -
  have "of_nat k - of_nat (length (low vs)) + harmonic (low vs) = harmonic (low vs) + of_nat (high vs)"
    using assms(2) low_high_length [of vs] by (simp flip: of_nat_add)
  with assms(1) that show ?thesis by (auto simp: reduced_def kxq1_ok_def)
qed

lemma hll_reduced:
  assumes "numerics_ok c" and "lgK \<le> 21" and "length xs = 2 ^ unat lgK"
  shows "cur_min (reduce_hll8 c xs lgK) = 0 \<and>
    unat (num_at_cur_min (reduce_hll8 c xs lgK)) = zeroes (register_bytes xs)"
proof -
  have len: "length (register_bytes xs) = 2 ^ unat lgK" using assms(3) by (simp add: register_bytes_def)
  have "unat lgK \<le> 21" using assms(2) by (simp add: word_le_nat_alt)
  then have "zeroes (register_bytes xs) < 2 ^ 32"
    using zeroes_le [of "register_bytes xs"] len power_strict_increasing [of "unat lgK" 32 "2 :: nat"]
    by simp
  then have "unat (word_of_nat (zeroes (register_bytes xs)) :: u32) = zeroes (register_bytes xs)"
    by (simp add: unat_of_nat)
  with reduce_hll8_reduced [OF assms] show ?thesis by (simp add: reduced_def)
qed

text \<open>An array of zero registers: every one of them adds 1 to the harmonic sum.\<close>

lemma empty_z:
  assumes "numerics_ok c" and "lgK \<le> 21"
  shows "fadd (kxq0 (reduce_hll8 c (replicate (2 ^ unat lgK) 0) lgK))
    (kxq1 (reduce_hll8 c (replicate (2 ^ unat lgK) 0) lgK)) = Fin (2 ^ unat lgK)"
proof -
  let ?xs = "replicate (2 ^ unat lgK) 0 :: register_type list"
  have bytes: "register_bytes ?xs = replicate (2 ^ unat lgK) 0" by (simp add: register_bytes_def)
  have "low (replicate n 0) = replicate n 0" "high (replicate n 0) = 0"
    "harmonic (replicate n 0) = of_nat n" for n
    by (simp_all add: low_def high_def harmonic_def sum_list_replicate)
  then have "\<exists>y. kxq0 (reduce_hll8 c ?xs lgK) = Fin (2 ^ unat lgK) \<and> kxq1 (reduce_hll8 c ?xs lgK) = Fin y \<and> y = 0"
    using reducedD [OF reduce_hll8_reduced [OF assms, of ?xs]] by (force simp: bytes)
  moreover have "representable (2 ^ n)" for n using representable_power [of "int n"] by simp
  moreover have "\<bar>2 ^ unat lgK :: rat\<bar> \<le> 2 ^ 64"
    using assms(2) power_increasing [of "unat lgK" 64 "2 :: rat"] by (simp add: word_le_nat_alt)
  ultimately show ?thesis by (auto simp: fp_round_small)
qed

text \<open>
  C21: on every register array the reduction counts the zero registers, leaves \<open>cur_min\<close> 0,
  computes \<open>kxq0\<close> without any rounding, and the exact harmonic sum of the registers differs
  from \<open>kxq0 + kxq1\<close> by at most \<open>2^-32\<close> per register from 32 on.
\<close>

theorem hll_reduction_exact:
  assumes "numerics_ok c" and "lgK \<le> 21" and "length xs = 2 ^ unat lgK"
    and "vs = register_bytes xs"
  shows "cur_min (reduce_hll8 c xs lgK) = 0 \<and>
    unat (num_at_cur_min (reduce_hll8 c xs lgK)) = zeroes vs \<and>
    kxq0 (reduce_hll8 c xs lgK) = Fin (harmonic (low vs) + of_nat (high vs)) \<and>
    (\<exists>y. kxq1 (reduce_hll8 c xs lgK) = Fin y \<and>
       \<bar>harmonic (low vs) + of_nat (high vs) + y - harmonic vs\<bar> \<le> of_nat (high vs) / 2 ^ 32)"
proof -
  note r = reduce_hll8_reduced [OF assms(1-3)]
  have len: "length vs = 2 ^ unat lgK" using assms(3,4) by (simp add: register_bytes_def)
  note hll_reduced [OF assms(1-3)]
  moreover obtain y where "kxq0 (reduce_hll8 c xs lgK) = Fin (harmonic (low vs) + of_nat (high vs))"
    "kxq1 (reduce_hll8 c xs lgK) = Fin y" "- of_nat (high vs) \<le> y"
    "y \<le> - of_nat (high vs) + of_nat (high vs) / 2 ^ 32"
    using reducedD r len assms(4) by metis
  moreover have "\<bar>harmonic (low vs) + of_nat (high vs) + y - harmonic vs\<bar> \<le> of_nat (high vs) / 2 ^ 32"
    using harmonic_split [of vs] calculation(4,5) unfolding abs_le_iff by linarith
  ultimately show ?thesis using assms(4) by simp
qed

lemma reduced_z:
  assumes "numerics_ok c" and "lgK \<le> 21" and "length xs = 2 ^ unat lgK"
    and "vs = register_bytes xs"
  shows "\<exists>z. fadd (kxq0 (reduce_hll8 c xs lgK)) (kxq1 (reduce_hll8 c xs lgK)) = Fin z \<and>
    harmonic (low vs) \<le> z \<and> z \<le> 2 ^ unat lgK \<and> (high vs = 0 \<longrightarrow> z = harmonic vs)"
proof -
  note r = reduce_hll8_reduced [OF assms(1-3)]
  have len: "length vs = 2 ^ unat lgK" using assms(3,4) by (simp add: register_bytes_def)
  obtain y where kx: "kxq0 (reduce_hll8 c xs lgK) = Fin (harmonic (low vs) + of_nat (high vs))"
    "kxq1 (reduce_hll8 c xs lgK) = Fin y" and y: "- of_nat (high vs) \<le> y"
    "y \<le> - of_nat (high vs) + of_nat (high vs) / 2 ^ 32"
    using reducedD r len assms(4) by metis
  have le: "unat lgK \<le> 21" using assms(2) by (simp add: word_le_nat_alt)
  then have k: "(2 :: nat) ^ unat lgK \<le> 2 ^ 21" by (intro power_increasing) auto
  have low: "low (low vs) = low vs" by (simp add: low_def)
  have rep: "representable (harmonic (low vs))" "\<bar>harmonic (low vs)\<bar> \<le> 2 ^ 21"
    using kxq0_representable [of "low vs" "length (low vs)"] low_high_length [of vs] len k
    by (simp_all add: low)
  have repk: "representable (2 ^ unat lgK)" "(2 :: rat) ^ unat lgK \<le> 2 ^ 21"
    using representable_of_nat [of "2 ^ unat lgK"] k power_increasing [of "unat lgK" 21 "2 :: rat"] le
    by simp_all
  have sum: "harmonic (low vs) \<le> of_nat (length (low vs))" by (rule harmonic_le)
  have "(of_nat (length (low vs)) + of_nat (high vs) :: rat) = of_nat (2 ^ unat lgK)"
    using low_high_length [of vs] len by (simp only: of_nat_add [symmetric])
  then have top: "harmonic (low vs) + of_nat (high vs) + y \<le> 2 ^ unat lgK"
    using sum y by simp
  obtain z where z: "fp_round False (harmonic (low vs) + of_nat (high vs) + y) = Fin z"
    "harmonic (low vs) \<le> z" "z \<le> 2 ^ unat lgK"
  proof (rule fp_round_between [OF rep(1) repk(1)])
    show "harmonic (low vs) \<le> harmonic (low vs) + of_nat (high vs) + y" using y by simp
    show "harmonic (low vs) + of_nat (high vs) + y \<le> 2 ^ unat lgK" by (rule top)
    show "- (2 ^ 1024) < harmonic (low vs)" "(2 :: rat) ^ unat lgK < 2 ^ 1024"
      using rep(2) repk(2) by (simp_all add: abs_le_iff)
  qed (rule that)
  have "z = harmonic vs" if "high vs = 0"
  proof -
    have "harmonic (low vs) = harmonic vs" using harmonic_split [of vs] that by simp
    moreover have "fp_round False (harmonic (low vs)) = Fin (harmonic (low vs))"
      using rep by (intro fp_round_Fin_nonneg) auto
    ultimately show ?thesis using z(1) y that by simp
  qed
  with z show ?thesis by (simp add: kx)
qed

text \<open>
  The \<open>z\<close> the estimate is computed from is a finite number at most the number of registers
  and at least the exact harmonic sum of the registers below 32; when there are no others it
  is the exact harmonic sum of the array.
\<close>

theorem hll_reduction_z:
  assumes "numerics_ok c" and "lgK \<le> 21" and "length xs = 2 ^ unat lgK"
    and "vs = register_bytes xs"
  shows "\<exists>z. fadd (kxq0 (reduce_hll8 c xs lgK)) (kxq1 (reduce_hll8 c xs lgK)) = Fin z \<and>
    harmonic (low vs) \<le> z \<and> z \<le> 2 ^ unat lgK \<and> (high vs = 0 \<longrightarrow> z = harmonic vs)"
  by (rule reduced_z [OF assms])


theorem hll_reduction_exact_witness:
  "cur_min (reduce_hll8 upstream_format ([0, 1, 40] @ replicate 13 2) 4) = 0 \<and>
   unat (num_at_cur_min (reduce_hll8 upstream_format ([0, 1, 40] @ replicate 13 2) 4)) = 1 \<and>
   kxq0 (reduce_hll8 upstream_format ([0, 1, 40] @ replicate 13 2) 4) = Fin (1 + 1 / 2 + 13 / 4 + 1)"
  using hll_reduction_exact [OF numerics_ok_upstream, of 4 "[0, 1, 40] @ replicate 13 2", OF _ _ refl]
  by (simp add: register_bytes_def zeroes_def low_def high_def harmonic_def sum_list_replicate)

theorem hll_reduction_z_witness:
  "\<exists>z. fadd (kxq0 (reduce_hll8 upstream_format ([0, 1] @ replicate 14 2) 4))
     (kxq1 (reduce_hll8 upstream_format ([0, 1] @ replicate 14 2) 4)) = Fin z \<and> z = 5"
  using hll_reduction_z [OF numerics_ok_upstream, of 4 "[0, 1] @ replicate 14 2", OF _ _ refl]
  by (simp add: register_bytes_def low_def high_def harmonic_def sum_list_replicate)

section \<open>Registers from 54 on\<close>

text \<open>
  \<open>2^-v - 1\<close> rounds to \<open>-1\<close> for \<open>v \<ge> 54\<close>, so such registers count as nothing at all in
  \<open>kxq0 + kxq1\<close>: an array with no others has \<open>z = 0\<close>, where its harmonic sum is positive.
\<close>

lemma rnd64_minus_one:
  assumes "0 < e" and "e \<le> 1 / 2 ^ 54"
  shows "rnd64 (e - 1) = - 1"
proof -
  have abs: "\<bar>e - 1\<bar> = 1 - e" using assms by simp
  have "0 < 1 - e" "1 - e < 1" "1 / 2 \<le> 1 - e" using assms by simp_all
  then have "ilog2 (1 - e) < 0" "\<not> ilog2 (1 - e) < - 1"
    using ilog2_le_iff [of "1 - e" 0] ilog2_le_iff [of "1 - e" "- 1"] by simp_all
  then have u: "ulp_exp (e - 1) = - 53" by (simp add: ulp_exp_def abs)
  have pow: "(2 :: rat) powi - 53 = 1 / 2 ^ 53" by (simp add: power_int_def power_one_over)
  let ?q = "(e - 1) / 2 powi - 53"
  have q: "?q = of_int (- (2 ^ 53)) + e * 2 ^ 53" by (simp add: pow field_simps)
  have e: "0 < e * 2 ^ 53" "e * 2 ^ 53 \<le> 1 / 2" using assms by (simp_all add: field_simps)
  have "\<lfloor>?q\<rfloor> = - (2 ^ 53)" unfolding q by (rule floor_unique) (use e in simp_all)
  then have "round_half_even ?q = - (2 ^ 53)"
    using e q by (simp add: round_half_even_def Let_def)
  then show ?thesis using assms by (simp add: rnd64_def u pow)
qed

lemma kxq1_saturated_loop:
  assumes "numerics_ok c" and "\<forall>x \<in> set xs. (54 :: u8) \<le> ucast x" and "length xs \<le> 2 ^ 21"
    and "n \<le> length xs" and "kxq1 r = Fin 0"
  shows "kxq1 (foldl (\<lambda>r i. reduce_register c (xs ! i) r) r [0..<n]) = Fin (- of_nat n)"
  using assms(4)
proof (induction n)
  case (Suc n)
  let ?v = "ucast (xs ! n) :: u8"
  have "(54 :: u8) \<le> ?v" using Suc.prems assms(2) by simp
  then have v: "54 \<le> unat ?v" by (simp add: word_le_nat_alt)
  then have v': "?v \<noteq> 0" "\<not> ?v < 32" by (auto simp: word_less_nat_alt)
  have "1 / 2 ^ unat ?v \<le> (1 / 2 ^ 54 :: rat)"
    using v by (intro divide_left_mono power_increasing) simp_all
  then have "fp_round False (1 / 2 ^ unat ?v - 1) = Fin (- 1)"
    by (simp only: fp_round_def Let_def rnd64_minus_one) (simp add: rnd64_minus_one)
  then have d: "fsub (INVERSE_POWERS_OF_2 c ?v) (Fin 1) = Fin (- 1)"
    using assms(1) by (simp only: numerics_ok_def fsub_Fin)
  have "(- of_nat (Suc n) :: rat) = - of_nat n + - 1" by simp
  moreover have "representable (- of_nat (Suc n))"
    using Suc.prems assms(3) by (intro kxq1_bounds_representable(1)) simp
  ultimately have "representable (- of_nat n + - 1)" by (simp only:)
  moreover have "\<bar>- of_nat n + - 1 :: rat\<bar> \<le> 2 ^ 64"
  proof -
    have "Suc n \<le> 2 ^ 64" using Suc.prems assms(3) by simp
    then have "(of_nat (Suc n) :: rat) \<le> 2 ^ 64"
      by (metis of_nat_le_iff of_nat_numeral of_nat_power)
    then show ?thesis by simp
  qed
  ultimately have "fadd (Fin (- of_nat n)) (Fin (- 1)) = Fin (- of_nat n + - 1)"
    unfolding fadd_Fin by (rule fp_round_small)
  with Suc v' d show ?case by (simp add: reduce_register_def Let_def)
qed (use assms(5) in simp)

lemma saturated_z:
  assumes "numerics_ok c" and "lgK \<le> 21" and "length xs = 2 ^ unat lgK"
    and "\<forall>x \<in> set xs. (54 :: u8) \<le> ucast x"
  shows "fadd (kxq0 (reduce_hll8 c xs lgK)) (kxq1 (reduce_hll8 c xs lgK)) = Fin 0"
    and "0 < harmonic (register_bytes xs)"
proof -
  have le: "unat lgK \<le> 21" using assms(2) by (simp add: word_le_nat_alt)
  then have k: "length xs \<le> 2 ^ 21" unfolding assms(3) by (intro power_increasing) auto
  have kxq1: "kxq1 (reduce_hll8 c xs lgK) = Fin (- of_nat (length xs))"
    unfolding reduce_hll8_def unat_config_k [OF assms(2)] assms(3) [symmetric]
    by (rule kxq1_saturated_loop [OF assms(1,4) k]) simp_all
  have "\<not> v < 32" if "v \<in> set (register_bytes xs)" for v
    using that assms(4) by (auto simp: register_bytes_def word_le_nat_alt word_less_nat_alt)
  then have "low (register_bytes xs) = []" "high (register_bytes xs) = length xs"
    by (auto simp: low_def high_def filter_empty_conv register_bytes_def filter_True)
  with reduce_hll8_reduced [OF assms(1-3)] assms(3)
  have "kxq0 (reduce_hll8 c xs lgK) = Fin (of_nat (length xs))"
    by (simp add: reduced_def)
  with kxq1 show "fadd (kxq0 (reduce_hll8 c xs lgK)) (kxq1 (reduce_hll8 c xs lgK)) = Fin 0"
    by (simp add: fp_round_def)
  show "0 < harmonic (register_bytes xs)"
  proof (cases xs)
    case (Cons x ys)
    have "0 < (1 / 2 ^ unat (ucast x :: u8) :: rat)" by simp
    with Cons show ?thesis
      using harmonic_nonneg [of "register_bytes ys"]
      by (simp add: register_bytes_def harmonic_def add_pos_nonneg)
  qed (use assms(3) in simp)
qed

end
