(* ===== verification/Hll_Finalizer.thy ===== *)
theory Hll_Finalizer
  imports Hll_Table Hll_Reduction Magnitude
begin

text \<open>
  \<^verbatim>\<open>detail/hll/composite_finalizer.cuh\<close>: the composite estimator, in double arithmetic. A
  pointer into a row of the table is a function of the index. The logarithm is a field of
  \<open>hll_env\<close>.
\<close>

section \<open>Definitions\<close>

definition raw_estimate :: "fp \<Rightarrow> u8 \<Rightarrow> fp" where
  "raw_estimate z lg_k =
     (let k = f_of_nat (unat (config_k lg_k));
          correction_factor =
            (if lg_k = 4 then f_lit (673 / 1000)
             else if lg_k = 5 then f_lit (697 / 1000)
             else if lg_k = 6 then f_lit (709 / 1000)
             else fdiv (f_lit (7213 / 10000)) (fadd (Fin 1) (fdiv (f_lit (1079 / 1000)) k)))
      in fdiv (fmul (fmul correction_factor k) k) z)"

text \<open>The cases of the switch, 0 to 24, in order.\<close>

definition harmonic_cases :: "fp list" where
  "harmonic_cases =
     [Fin 0, Fin 1, Fin (3 / 2), fdiv (Fin 11) (Fin 6), fdiv (Fin 25) (Fin 12),
      fdiv (Fin 137) (Fin 60), fdiv (Fin 49) (Fin 20), fdiv (Fin 363) (Fin 140),
      fdiv (Fin 761) (Fin 280), fdiv (Fin 7129) (Fin 2520), fdiv (Fin 7381) (Fin 2520),
      fdiv (Fin 83711) (Fin 27720), fdiv (Fin 86021) (Fin 27720),
      fdiv (Fin 1145993) (Fin 360360), fdiv (Fin 1171733) (Fin 360360),
      fdiv (Fin 1195757) (Fin 360360), fdiv (Fin 2436559) (Fin 720720),
      fdiv (Fin 42142223) (Fin 12252240), fdiv (Fin 14274301) (Fin 4084080),
      fdiv (Fin 275295799) (Fin 77597520), fdiv (Fin 55835135) (Fin 15519504),
      fdiv (Fin 18858053) (Fin 5173168), fdiv (Fin 19093197) (Fin 5173168),
      fdiv (Fin 444316699) (Fin 118982864), fdiv (Fin 1347822955) (Fin 356948592)]"

definition euler_mascheroni :: fp where
  "euler_mascheroni = f_lit (577215664901532860606512090082 / 10 ^ 30)"

definition harmonic_number :: "hll_env \<Rightarrow> u32 \<Rightarrow> fp" where
  "harmonic_number c v =
     (if unat v < length harmonic_cases then harmonic_cases ! unat v
      else let x = f_of_nat (unat v);
               inv_sq = fdiv (Fin 1) (fmul x x);
               sum = fadd (fadd (flog c x) euler_mascheroni) (fdiv (Fin 1) (fmul (Fin 2) x));
               power = inv_sq;
               sum = fsub sum (fmul power (fdiv (Fin 1) (Fin 12)));
               power = fmul power inv_sq;
               sum = fadd sum (fmul power (fdiv (Fin 1) (Fin 120)));
               power = fmul power inv_sq;
               sum = fsub sum (fmul power (fdiv (Fin 1) (Fin 252)));
               power = fmul power inv_sq;
               sum = fadd sum (fmul power (fdiv (Fin 1) (Fin 240)))
           in sum)"

definition bitmap_estimate :: "hll_env \<Rightarrow> u32 \<Rightarrow> u8 \<Rightarrow> fp" where
  "bitmap_estimate c num_zeroes lg_k =
     (let k = f_of_nat (unat (config_k lg_k))
      in if num_zeroes = 0 then fmul k (flog c (fdiv k (Fin (1 / 2))))
         else fmul k (fsub (harmonic_number c (config_k lg_k)) (harmonic_number c num_zeroes)))"

function straddle_loop :: "(nat \<Rightarrow> fp) \<Rightarrow> fp \<Rightarrow> nat \<Rightarrow> nat \<Rightarrow> nat" where
  "straddle_loop xv x left right =
     (if left + 1 < right
      then let middle = left + (right - left) div 2
           in if fleq (xv middle) x then straddle_loop xv x middle right
              else straddle_loop xv x left middle
      else left)"
  by pat_completeness auto
termination by (relation "measure (\<lambda>(xv, x, left, right). right - left)") auto

declare straddle_loop.simps [simp del]

definition find_straddle :: "(nat \<Rightarrow> fp) \<Rightarrow> nat \<Rightarrow> fp \<Rightarrow> nat" where
  "find_straddle xv len x = straddle_loop xv x 0 (len - 1)"

definition cubic_interpolate ::
  "fp \<Rightarrow> fp \<Rightarrow> fp \<Rightarrow> fp \<Rightarrow> fp \<Rightarrow> fp \<Rightarrow> fp \<Rightarrow> fp \<Rightarrow> fp \<Rightarrow> fp" where
  "cubic_interpolate x0 y0 x1 y1 x2 y2 x3 y3 x =
     (let l0_numer = fmul (fmul (fsub x x1) (fsub x x2)) (fsub x x3);
          l1_numer = fmul (fmul (fsub x x0) (fsub x x2)) (fsub x x3);
          l2_numer = fmul (fmul (fsub x x0) (fsub x x1)) (fsub x x3);
          l3_numer = fmul (fmul (fsub x x0) (fsub x x1)) (fsub x x2);
          l0_denom = fmul (fmul (fsub x0 x1) (fsub x0 x2)) (fsub x0 x3);
          l1_denom = fmul (fmul (fsub x1 x0) (fsub x1 x2)) (fsub x1 x3);
          l2_denom = fmul (fmul (fsub x2 x0) (fsub x2 x1)) (fsub x2 x3);
          l3_denom = fmul (fmul (fsub x3 x0) (fsub x3 x1)) (fsub x3 x2);
          term0 = fdiv (fmul y0 l0_numer) l0_denom;
          term1 = fdiv (fmul y1 l1_numer) l1_denom;
          term2 = fdiv (fmul y2 l2_numer) l2_denom;
          term3 = fdiv (fmul y3 l3_numer) l3_denom
      in fadd (fadd (fadd term0 term1) term2) term3)"

definition straddle_base :: "nat \<Rightarrow> nat" where
  "straddle_base off =
     (if off = 0 then 0 else if off = num_x_values - 2 then off - 2 else off - 1)"

definition interpolate_composite :: "(nat \<Rightarrow> fp) \<Rightarrow> u32 \<Rightarrow> fp \<Rightarrow> fp" where
  "interpolate_composite xv y_stride x =
     (let len = num_x_values; s = f_of_nat (unat y_stride)
      in if feq x (xv (len - 1)) then fmul s (f_of_nat (len - 1))
         else let off = find_straddle xv len x; base = straddle_base off
              in cubic_interpolate
                   (xv base) (fmul s (f_of_nat base))
                   (xv (base + 1)) (fmul s (f_of_nat (base + 1)))
                   (xv (base + 2)) (fmul s (f_of_nat (base + 2)))
                   (xv (base + 3)) (fmul s (f_of_nat (base + 3))) x)"

definition crossover :: "u8 \<Rightarrow> fp" where
  "crossover lg_k =
     (if lg_k = 4 then f_lit (718 / 1000) else if lg_k = 5 then f_lit (672 / 1000)
      else f_lit (64 / 100))"

definition composite_estimate :: "hll_env \<Rightarrow> fp \<Rightarrow> u32 \<Rightarrow> u8 \<Rightarrow> fp" where
  "composite_estimate c z num_zeroes lg_k =
     (let raw_est = raw_estimate z lg_k; xv = x_values_for lg_k; y_stride = y_stride_for lg_k
      in if fless raw_est (xv 0) then Fin 0
         else if fless (xv last_x_offset) raw_est
         then let final_y = fmul (f_of_nat (unat y_stride)) (f_of_nat last_x_offset)
              in fmul raw_est (fdiv final_y (xv last_x_offset))
         else let adjusted = interpolate_composite xv y_stride raw_est
              in if fless (f_of_nat (unat (push_bit (unat lg_k) 3 :: u32))) adjusted then adjusted
                 else let linear = bitmap_estimate c num_zeroes lg_k;
                          average = fdiv (fadd adjusted linear) (Fin 2)
                      in if fless (fmul (crossover lg_k) (f_of_nat (unat (config_k lg_k)))) average
                         then adjusted else linear)"

definition composite_finalizer :: "hll_env \<Rightarrow> fp \<Rightarrow> u8 \<Rightarrow> u32 \<Rightarrow> u8 \<Rightarrow> fp" where
  "composite_finalizer c z cur_min' num_at_cur_min' lg_k =
     (let num_zeroes = (if cur_min' = 0 then num_at_cur_min' else 0)
      in composite_estimate c z num_zeroes lg_k)"

text \<open>The entry that the cudax estimate calls, with its \<^verbatim>\<open>int\<close> arguments.\<close>

definition policy_finalize :: "hll_env \<Rightarrow> fp \<Rightarrow> u32 \<Rightarrow> u32 \<Rightarrow> fp" where
  "policy_finalize c z num_zeroes precision = composite_estimate c z num_zeroes (ucast precision)"

section \<open>Binary search\<close>

lemma straddle_loop_bracket:
  assumes "left < right" and "fleq (xv left) x" and "\<not> fleq (xv right) x"
  shows "left \<le> straddle_loop xv x left right \<and> straddle_loop xv x left right < right \<and>
    fleq (xv (straddle_loop xv x left right)) x \<and>
    \<not> fleq (xv (Suc (straddle_loop xv x left right))) x"
  using assms
proof (induction xv x left right rule: straddle_loop.induct)
  case (1 xv x left right)
  let ?m = "left + (right - left) div 2"
  show ?case
  proof (cases "left + 1 < right")
    case True
    then have m: "left < ?m" "?m < right" by linarith+
    show ?thesis
    proof (cases "fleq (xv ?m) x")
      case m': True
      with "1.IH" (1) [OF True refl m'] m "1.prems"(3) True show ?thesis
        by (subst (1 2 3 4) straddle_loop.simps) auto
    next
      case m': False
      with "1.IH" (2) [OF True refl m'] m "1.prems"(2) True show ?thesis
        by (subst (1 2 3 4) straddle_loop.simps) auto
    qed
  next
    case False
    then have "right = Suc left" using "1.prems"(1) by simp
    with "1.prems" False show ?thesis by (subst (1 2 3 4) straddle_loop.simps) simp
  qed
qed

text \<open>The search reads only entries between its bounds, and stays between them.\<close>

lemma straddle_loop_bound: "left < right \<Longrightarrow> straddle_loop xv x left right < right"
proof (induction xv x left right rule: straddle_loop.induct)
  case (1 xv x left right)
  let ?m = "left + (right - left) div 2"
  have "left + 1 < right \<Longrightarrow> left < ?m \<and> ?m < right" by linarith
  with "1.IH" [OF _ refl] "1.prems" show ?case
    by (subst straddle_loop.simps) (auto simp: Let_def intro: less_trans)
qed

lemma straddle_loop_cong:
  "left < right \<Longrightarrow> (\<And>i. i \<le> right \<Longrightarrow> xv i = xv' i) \<Longrightarrow>
     straddle_loop xv x left right = straddle_loop xv' x left right"
proof (induction xv x left right rule: straddle_loop.induct)
  case (1 xv x left right)
  let ?m = "left + (right - left) div 2"
  have "left + 1 < right \<Longrightarrow> left < ?m \<and> ?m < right" by linarith
  with "1.IH" [OF _ refl] "1.prems" show ?case
    by (subst (1 2) straddle_loop.simps) (auto simp: Let_def)
qed

lemma find_straddle_cong:
  "(\<And>i. i < num_x_values \<Longrightarrow> xv i = xv' i) \<Longrightarrow>
     find_straddle xv num_x_values x = find_straddle xv' num_x_values x"
  unfolding find_straddle_def by (rule straddle_loop_cong) (simp_all add: num_x_values_def)

lemma straddle_base_bound:
  "off < 256 \<Longrightarrow> straddle_base off + 3 < num_x_values"
  by (auto simp: straddle_base_def num_x_values_def)

section \<open>Harmonic numbers\<close>

primrec hsum :: "nat \<Rightarrow> rat" where
  "hsum 0 = 0"
| "hsum (Suc n) = hsum n + 1 / of_nat (Suc n)"

lemma hsum_sum: "hsum n = (\<Sum>i = 1..n. 1 / of_nat i)"
  by (induction n) simp_all

lemma hsum_values:
  "map hsum [0..<25] = [0, 1, 3 / 2, 11 / 6, 25 / 12, 137 / 60, 49 / 20, 363 / 140,
     761 / 280, 7129 / 2520, 7381 / 2520, 83711 / 27720, 86021 / 27720, 1145993 / 360360,
     1171733 / 360360, 1195757 / 360360, 2436559 / 720720, 42142223 / 12252240,
     14274301 / 4084080, 275295799 / 77597520, 55835135 / 15519504, 18858053 / 5173168,
     19093197 / 5173168, 444316699 / 118982864, 1347822955 / 356948592]"
  by (simp add: upt_rec)

text \<open>The constants of the switch are the harmonic numbers, each rounded once.\<close>

lemma harmonic_cases_hsum: "harmonic_cases = map (\<lambda>n. fp_round False (hsum n)) [0..<25]"
proof -
  have exact: "fp_round False 0 = Fin 0" "fp_round False 1 = Fin 1"
    "fp_round False (3 / 2) = Fin (3 / 2)"
    using representable_of_nat [of 1] representable_fraction [of "3 / 2" 3 1]
    by (simp_all add: fp_round_small)
  have "map (\<lambda>n. fp_round False (hsum n)) [0..<25] = map (fp_round False) (map hsum [0..<25])"
    by simp
  also have "\<dots> = harmonic_cases"
    unfolding hsum_values harmonic_cases_def by (simp add: exact)
  finally show ?thesis by simp
qed

lemma hsum_bounds: "0 \<le> hsum n \<and> hsum n \<le> of_nat n"
proof (induction n)
  case (Suc n)
  have "1 / of_nat (Suc n) \<le> (1 :: rat)" "0 \<le> (1 / of_nat (Suc n) :: rat)"
    by (simp_all add: divide_le_eq)
  moreover have "(of_nat (Suc n) :: rat) = of_nat n + 1" by simp
  ultimately show ?case using Suc unfolding hsum.simps by linarith
qed simp

lemma sized_harmonic_number:
  assumes "numerics_ok c" and "unat v \<le> 2 ^ 21"
  shows "sized 30 (harmonic_number c v)"
proof (cases "unat v < length harmonic_cases")
  case True
  then have n: "unat v < 25" by (simp add: harmonic_cases_hsum)
  have "unat v \<le> 2 ^ 30" using n by simp
  then have "\<bar>hsum (unat v)\<bar> \<le> 2 ^ 30"
    using hsum_bounds [of "unat v"] order_trans [OF conjunct2 [OF hsum_bounds] of_nat_le_power]
    by (simp only: abs_of_nonneg)
  then have "sized 30 (fp_round False (hsum (unat v)))" by (intro sized_round) simp_all
  with True n show ?thesis by (simp add: harmonic_number_def harmonic_cases_hsum)
next
  case False
  define n where "n = unat v"
  have n: "1 \<le> n" "n \<le> 2 ^ 21" using False assms(2) by (auto simp: n_def harmonic_cases_def)
  have nr: "1 \<le> (of_nat n :: rat)" "(of_nat n :: rat) \<le> 2 ^ 21"
    using n by (simp, metis of_nat_le_iff of_nat_numeral of_nat_power)
  have x: "f_of_nat n = Fin (of_nat n)" using n by (intro f_of_nat_exact) simp
  have nn: "n * n \<le> 2 ^ 21 * 2 ^ 21" using n by (intro mult_mono) auto
  then have xx: "fmul (Fin (of_nat n)) (Fin (of_nat n)) = Fin (of_nat (n * n))"
    by (intro fmul_of_nat) simp
  have xx2: "fmul (Fin 2) (Fin (of_nat n)) = Fin (of_nat (2 * n))"
    using fmul_of_nat [of 2 n] n by simp
  define q where "q = fdiv (Fin 1) (Fin (of_nat (n * n)))"
  have "0 < n * n" using n by simp
  then have "(1 :: rat) \<le> of_nat (n * n)" by (metis One_nat_def Suc_leI of_nat_1 of_nat_le_iff)
  then have q: "sized 0 q" unfolding q_def by (intro sized_fdiv) auto
  obtain l where "flog c (Fin (of_nat n)) = Fin l" "0 \<le> l" "l \<le> of_nat n"
    using assms(1) nr(1) unfolding numerics_ok_def by blast
  then have l: "sized 21 (flog c (Fin (of_nat n)))" using nr(2) by simp
  have e: "sized 21 euler_mascheroni" unfolding euler_mascheroni_def f_lit_def
    by (intro sized_round) simp_all
  have h: "sized 22 (fdiv (Fin 1) (Fin (of_nat (2 * n))))"
    using n by (intro sized_fdiv) auto
  have k: "sized 0 (fdiv (Fin 1) (Fin 12))" "sized 0 (fdiv (Fin 1) (Fin 120))"
    "sized 0 (fdiv (Fin 1) (Fin 252))" "sized 0 (fdiv (Fin 1) (Fin 240))"
    by (intro sized_fdiv; simp)+
  have p: "sized 0 (fmul x y)" if "sized 0 x" "sized 0 y" for x y
    using sized_fmul [of 0 x 0 y] that by simp
  have up: "sized m x" if "sized 0 x" for m x using that by (rule sized_mono) simp
  have add: "sized (Suc k) (fadd x y)" "sized (Suc k) (fsub x y)"
    if "sized k x" "sized 0 y" "k < 1000" for x y k
    using that sized_fadd [of k x y] sized_fsub [of k x y] up [of y k] by simp_all
  have s0: "sized 23 (fadd (fadd (flog c (Fin (of_nat n))) euler_mascheroni)
      (fdiv (Fin 1) (Fin (of_nat (2 * n)))))"
    using sized_fadd [OF sized_fadd [OF l e] , of "fdiv (Fin 1) (Fin (of_nat (2 * n)))"] h
    by (simp add: numeral_eq_Suc)
  have q2: "sized 0 (fmul q q)" "sized 0 (fmul (fmul q q) q)"
    "sized 0 (fmul (fmul (fmul q q) q) q)" using p q by blast+
  note terms = p [OF q k(1)] p [OF q2(1) k(2)] p [OF q2(2) k(3)] p [OF q2(3) k(4)]
  note s4 = add(1) [OF add(2) [OF add(1) [OF add(2) [OF s0 terms(1)] terms(2)] terms(3)] terms(4)]
  have eq: "harmonic_number c v =
    fadd (fsub (fadd (fsub (fadd (fadd (flog c (Fin (of_nat n))) euler_mascheroni)
      (fdiv (Fin 1) (Fin (of_nat (2 * n))))) (fmul q (fdiv (Fin 1) (Fin 12))))
      (fmul (fmul q q) (fdiv (Fin 1) (Fin 120)))) (fmul (fmul (fmul q q) q) (fdiv (Fin 1) (Fin 252))))
      (fmul (fmul (fmul (fmul q q) q) q) (fdiv (Fin 1) (Fin 240)))"
    using False by (simp only: harmonic_number_def Let_def n_def [symmetric] x xx xx2
        q_def [symmetric] if_False)
  show ?thesis unfolding eq by (rule sized_mono [OF s4]) simp_all
qed


section \<open>The two ends of the estimate\<close>

lemma valid_lg_k_iff: "valid_lg_k lg_k \<longleftrightarrow> 4 \<le> unat lg_k \<and> unat lg_k \<le> 18"
  by (simp add: valid_lg_k_def table_min_lg_k_def table_max_lg_k_def word_le_nat_alt)

lemma valid_lg_k_le: "valid_lg_k lg_k \<Longrightarrow> lg_k \<le> 21"
  by (simp add: valid_lg_k_iff word_le_nat_alt)

lemma spans_config_k:
  assumes "lg_k \<le> 21" shows "spans 0 21 (f_of_nat (unat (config_k lg_k)))"
proof -
  have "(2 :: nat) ^ unat lg_k \<le> 2 ^ 21" using assms by (intro power_increasing) (simp_all add: word_le_nat_alt)
  then show ?thesis by (intro spans_of_nat) (simp_all add: unat_config_k [OF assms])
qed

lemma raw_estimate_numerator:
  assumes "lg_k \<le> 21"
  obtains v where "0 < v" and "\<And>z. raw_estimate z lg_k = fdiv (Fin v) z"
proof -
  let ?k = "f_of_nat (unat (config_k lg_k))"
  let ?c = "if lg_k = 4 then f_lit (673 / 1000) else if lg_k = 5 then f_lit (697 / 1000)
    else if lg_k = 6 then f_lit (709 / 1000)
    else fdiv (f_lit (7213 / 10000)) (fadd (Fin 1) (fdiv (f_lit (1079 / 1000)) ?k))"
  note k = spans_config_k [OF assms]
  have lit: "spans 1 1 (f_lit (673 / 1000))" "spans 1 1 (f_lit (697 / 1000))"
    "spans 1 1 (f_lit (709 / 1000))" "spans 1 1 (f_lit (7213 / 10000))" "spans 1 1 (f_lit (1079 / 1000))"
    by (rule spans_lit; simp)+
  have "spans 0 2 (fadd (Fin 1) (fdiv (f_lit (1079 / 1000)) ?k))"
    using spans_one_plus [OF spans_fdiv [OF lit(5) k]] by (simp add: numeral_2_eq_2)
  then have "spans 3 1 (fdiv (f_lit (7213 / 10000)) (fadd (Fin 1) (fdiv (f_lit (1079 / 1000)) ?k)))"
    using spans_fdiv [OF lit(4)] by fastforce
  moreover have "spans 3 1 (f_lit (673 / 1000))" "spans 3 1 (f_lit (697 / 1000))"
    "spans 3 1 (f_lit (709 / 1000))"
    using lit(1-3) by (auto elim: spans_mono)
  ultimately have c: "spans 3 1 ?c" by (simp only: if_split) blast
  have "spans 3 43 (fmul (fmul ?c ?k) ?k)"
    using spans_fmul [OF spans_fmul [OF c k] k] by simp
  then obtain v where "fmul (fmul ?c ?k) ?k = Fin v" "0 < v" by (rule spans_cases)
  with that show ?thesis by (simp add: raw_estimate_def Let_def)
qed

lemma y_stride_bounds:
  assumes "valid_lg_k lg_k"
  shows "1 \<le> unat (y_stride_for lg_k)" and "unat (y_stride_for lg_k) \<le> 2 ^ 14"
proof -
  have "list_all (\<lambda>s. 1 \<le> unat s \<and> unat s \<le> 2 ^ 14) y_strides" "length y_strides = 15"
    by (simp_all add: y_strides_def)
  moreover have "unat lg_k - unat table_min_lg_k < 15"
    using assms by (auto simp: valid_lg_k_iff table_min_lg_k_def)
  ultimately show "1 \<le> unat (y_stride_for lg_k)" and "unat (y_stride_for lg_k) \<le> 2 ^ 14"
    by (simp_all add: y_stride_for_def list_all_length)
qed

text \<open>With \<open>z = 0\<close> the raw estimate is infinite, and so is the result.\<close>

lemma extrapolation_factor:
  assumes "valid_lg_k lg_k"
  shows "spans 22 26 (fdiv (fmul (f_of_nat (unat (y_stride_for lg_k))) (f_of_nat last_x_offset))
    (x_values_for lg_k last_x_offset))"
proof -
  obtain b where b: "x_values_for lg_k 256 = Fin b" "\<bar>b - x_exact lg_k 256\<bar> \<le> 1 / 2 ^ 32"
    using x_values_for_Fin [OF assms, of 256] by auto
  have row: "unat lg_k - 4 < 15" using assms by (auto simp: valid_lg_k_iff)
  have "1 / 10 \<le> x_exact lg_k 256" "x_exact lg_k 256 \<le> 3 * 10 ^ 6"
    using x_row_entry(2,3) [OF row, of 256] by (simp_all add: x_exact_def)
  with b(2) have "1 / 2 ^ 4 \<le> b" "b \<le> 2 ^ 22" unfolding abs_le_iff by (simp_all add: field_simps)
  with b(1) have x: "spans 4 22 (x_values_for lg_k 256)" by (simp add: spans_def)
  note s = spans_of_nat [OF y_stride_bounds [OF assms]]
  have "spans 0 8 (f_of_nat 256)" by (rule spans_of_nat) simp_all
  with s have "spans 0 22 (fmul (f_of_nat (unat (y_stride_for lg_k))) (f_of_nat 256))"
    using spans_fmul by fastforce
  then show ?thesis using spans_fdiv [OF _ x] by (fastforce simp: last_x_offset_def num_x_values_def)
qed

lemma composite_estimate_zero:
  assumes "valid_lg_k lg_k" shows "composite_estimate c (Fin 0) n lg_k = FInf False"
proof -
  obtain v where v: "0 < v" "raw_estimate (Fin 0) lg_k = fdiv (Fin v) (Fin 0)"
    using raw_estimate_numerator [OF valid_lg_k_le [OF assms]] by metis
  then have raw: "raw_estimate (Fin 0) lg_k = FInf False" by simp
  obtain a where a: "x_values_for lg_k 0 = Fin a"
    using x_values_for_Fin [OF assms, of 0] by auto
  obtain b where b: "x_values_for lg_k last_x_offset = Fin b"
    using x_values_for_Fin [OF assms, of 256] by (auto simp: last_x_offset_def num_x_values_def)
  obtain w where "fdiv (fmul (f_of_nat (unat (y_stride_for lg_k))) (f_of_nat last_x_offset))
      (x_values_for lg_k last_x_offset) = Fin w" "0 < w"
    using extrapolation_factor [OF assms] by (rule spans_cases)
  then show ?thesis by (simp add: composite_estimate_def Let_def raw a b)
qed

section \<open>Properties\<close>

lemma x_values_for_mono:
  assumes "valid_lg_k lg_k" and "i \<le> j" and "j \<le> 256"
    and "x_values_for lg_k i = Fin a" and "x_values_for lg_k j = Fin b"
  shows "a \<le> b"
  using x_values_for_less [OF assms(1) _ assms(3,4,5)] assms by (cases "i = j") auto

lemma find_straddle_index:
  assumes "valid_lg_k lg_k" and "x = Fin r" and "\<not> fless x (x_values_for lg_k 0)"
    and "fless x (x_values_for lg_k last_x_offset)"
    and "i = find_straddle (x_values_for lg_k) num_x_values x"
  shows "i < last_x_offset \<and> (\<forall>j \<le> last_x_offset. fleq (x_values_for lg_k j) x \<longleftrightarrow> j \<le> i)"
proof -
  let ?xv = "x_values_for lg_k"
  have last: "last_x_offset = 256" by (simp add: last_x_offset_def num_x_values_def)
  have fin: "\<exists>v. ?xv j = Fin v" if "j \<le> 256" for j
    using x_values_for_Fin [OF assms(1) that] by blast
  obtain a where a: "?xv 0 = Fin a" using fin [of 0] by auto
  obtain b where b: "?xv 256 = Fin b" using fin [of 256] by auto
  have lo: "fleq (?xv 0) x" using assms(3) by (auto simp: assms(2) a fleq_def)
  have hi: "\<not> fleq (?xv 256) x" using assms(4) by (auto simp: assms(2) b last fleq_def)
  have i: "i < 256" "fleq (?xv i) x" "\<not> fleq (?xv (Suc i)) x"
    using straddle_loop_bracket [of 0 256 ?xv x] lo hi
    by (simp_all add: assms(5) find_straddle_def num_x_values_def)
  obtain u where u: "?xv i = Fin u" using fin [of i] i(1) by auto
  obtain w where w: "?xv (Suc i) = Fin w" using fin [of "Suc i"] i(1) by auto
  have "fleq (?xv j) x \<longleftrightarrow> j \<le> i" if j: "j \<le> 256" for j
  proof -
    obtain v where v: "?xv j = Fin v" using fin [OF j] by auto
    show ?thesis
    proof (cases "j \<le> i")
      case True
      then have "v \<le> u" using x_values_for_mono [OF assms(1) _ _ v u] i(1) by simp
      with True i(2) show ?thesis by (auto simp: assms(2) u v fleq_def)
    next
      case False
      then have "w \<le> v" using x_values_for_mono [OF assms(1) _ j w v] by simp
      with False i(3) show ?thesis by (auto simp: assms(2) v w fleq_def)
    qed
  qed
  with i(1) show ?thesis by (simp add: last)
qed

text \<open>
  For every estimate inside the table the binary search ends, and returns the index of the
  last x value that is not above it: exactly the entries up to that index are at most \<open>x\<close>.
\<close>

theorem hll_find_straddle:
  assumes "valid_lg_k lg_k" and "x = Fin r" and "\<not> fless x (x_values_for lg_k 0)"
    and "fless x (x_values_for lg_k last_x_offset)"
    and "i = find_straddle (x_values_for lg_k) num_x_values x"
  shows "i < last_x_offset \<and> (\<forall>j \<le> last_x_offset. fleq (x_values_for lg_k j) x \<longleftrightarrow> j \<le> i)"
  by (rule find_straddle_index [OF assms])

theorem hll_find_straddle_witness:
  "find_straddle (x_values_for 4) num_x_values (Fin 11) < last_x_offset \<and>
   fleq (x_values_for 4 (find_straddle (x_values_for 4) num_x_values (Fin 11))) (Fin 11)"
proof -
  have valid: "valid_lg_k 4" by (simp add: valid_lg_k_iff)
  obtain a where a: "x_values_for 4 0 = Fin a" "\<bar>a - x_exact 4 0\<bar> \<le> 1 / 2 ^ 32"
    using x_values_for_Fin [OF valid, of 0] by auto
  obtain b where b: "x_values_for 4 256 = Fin b" "\<bar>b - x_exact 4 256\<bar> \<le> 1 / 2 ^ 32"
    using x_values_for_Fin [OF valid, of 256] by auto
  have "x_exact 4 0 = 10767999803534 / 10 ^ 12"
    by (simp add: x_exact_def x_rows_def x_row_4_def x_unit_def)
  moreover have "x_exact 4 0 + 1 \<le> x_exact 4 256"
    by (simp add: x_exact_def x_rows_def x_row_4_def x_unit_def)
  ultimately have "a < 11" "11 < b" using a(2) b(2) unfolding abs_le_iff by (simp_all add: field_simps)
  then show ?thesis
    using hll_find_straddle [OF valid refl, of 11, OF _ _ refl] a(1) b(1)
    by (simp add: last_x_offset_def num_x_values_def)
qed

text \<open>
  C35: the interpolation reads the row only at its 257 indices, whatever the estimate, NaN and
  infinities included: rows that agree there give the same result.
\<close>

theorem hll_interpolation_in_bounds:
  assumes "\<forall>i < num_x_values. xv i = xv' i"
  shows "interpolate_composite xv y_stride x = interpolate_composite xv' y_stride x"
proof -
  let ?off = "find_straddle xv' num_x_values x" and ?b = "straddle_base (find_straddle xv' num_x_values x)"
  have off: "find_straddle xv num_x_values x = ?off"
    using assms by (intro find_straddle_cong) simp
  have "?off < 256" using straddle_loop_bound [of 0 256 xv' x]
    by (simp add: find_straddle_def num_x_values_def)
  then have "?b + 3 < num_x_values" by (rule straddle_base_bound)
  then have "xv ?b = xv' ?b" "xv (?b + 1) = xv' (?b + 1)" "xv (?b + 2) = xv' (?b + 2)"
    "xv (?b + 3) = xv' (?b + 3)" "xv (num_x_values - 1) = xv' (num_x_values - 1)"
    using assms by simp_all
  then show ?thesis unfolding interpolate_composite_def Let_def off by simp
qed

theorem hll_interpolation_in_bounds_witness:
  "interpolate_composite (x_values_for 4) 1 FNaN =
   interpolate_composite (\<lambda>i. if i < num_x_values then x_values_for 4 i else FNaN) 1 FNaN"
  by (rule hll_interpolation_in_bounds) simp

text \<open>
  The constants of the switch in \<^verbatim>\<open>harmonic_number\<close> are right: up to 24 the result is the
  harmonic number itself, rounded to a double once.
\<close>

theorem hll_harmonic_number:
  assumes "n \<le> 24"
  shows "harmonic_number c (word_of_nat n) = fp_round False (\<Sum>i = 1..n. 1 / of_nat i)"
proof -
  have "n < 2 ^ 32" using assms by simp
  then have "unat (word_of_nat n :: u32) = n" by (simp add: unat_of_nat)
  with assms show ?thesis
    by (simp add: harmonic_number_def harmonic_cases_hsum hsum_sum)
qed

theorem hll_harmonic_number_witness:
  "harmonic_number upstream_format (word_of_nat 4) = fp_round False (25 / 12)"
proof -
  have "(\<Sum>i = 1..4 :: nat. 1 / of_nat i) = (25 / 12 :: rat)" by (simp add: numeral_eq_Suc)
  with hll_harmonic_number [of 4 upstream_format] show ?thesis by (simp only:)
qed

text \<open>
  Linear counting of an array with only zero registers is exactly zero at every precision,
  where the two harmonic numbers cancel without leaving a rounding error or a NaN.
\<close>

theorem hll_empty_bitmap:
  assumes "numerics_ok c" and "lg_k \<le> 21"
  shows "bitmap_estimate c (config_k lg_k) lg_k = Fin 0"
proof -
  have le: "unat (config_k lg_k) \<le> 2 ^ 21"
    unfolding unat_config_k [OF assms(2)] using assms(2)
    by (intro power_increasing) (simp_all add: word_le_nat_alt)
  have "config_k lg_k \<noteq> 0" using unat_config_k [OF assms(2)] by auto
  moreover have "fsub (harmonic_number c (config_k lg_k)) (harmonic_number c (config_k lg_k)) = Fin 0"
    using sized_harmonic_number [OF assms(1) le] by (rule fsub_self)
  moreover obtain k where "f_of_nat (unat (config_k lg_k)) = Fin k" "0 < k"
    using spans_config_k [OF assms(2)] by (rule spans_cases)
  ultimately show ?thesis by (simp add: bitmap_estimate_def Let_def fp_round_def)
qed

theorem hll_empty_bitmap_witness:
  "bitmap_estimate upstream_format (config_k 18) 18 = Fin 0"
  by (rule hll_empty_bitmap [OF numerics_ok_upstream]) simp

section \<open>An empty sketch at precision 4\<close>

text \<open>
  At precision 4 the raw estimate of an empty sketch is not below the first x value, so an empty
  sketch does not take the first return of the estimator there.
\<close>

lemma literal_673: "f_lit (673 / 1000) = Fin (378865318652543 / 2 ^ 49)"
proof -
  have "ilog2 (673 / 1000) < 0" "\<not> ilog2 (673 / 1000) < - 1"
    using ilog2_le_iff [of "673 / 1000" 0] ilog2_le_iff [of "673 / 1000" "- 1"] by simp_all
  then have u: "ulp_exp (673 / 1000) = - 53" by (simp add: ulp_exp_def)
  have pow: "(2 :: rat) powi - 53 = 1 / 2 ^ 53" by (simp add: power_int_def power_one_over)
  have "\<lfloor>673 / 1000 * 2 ^ 53 :: rat\<rfloor> = 6061845098440687" by (rule floor_unique) simp_all
  then have "round_half_even (673 / 1000 * 2 ^ 53) = 6061845098440688"
    by (simp add: round_half_even_def Let_def)
  then have "rnd64 (673 / 1000) = 378865318652543 / 2 ^ 49"
    by (simp add: rnd64_def u pow)
  then show ?thesis by (simp add: f_lit_def fp_round_def)
qed

theorem raw_estimate_empty_4: "\<not> fless (raw_estimate (Fin 16) 4) (x_values_for 4 0)"
proof -
  have exact: "fp_round False (378865318652543 / 2 ^ 49 * 16) = Fin (378865318652543 / 2 ^ 45)"
    "fp_round False (378865318652543 / 2 ^ 45 * 16) = Fin (378865318652543 / 2 ^ 41)"
    "fp_round False (378865318652543 / 2 ^ 41 / 16) = Fin (378865318652543 / 2 ^ 45)"
    using fp_round_small [OF representable_fraction [of _ 378865318652543 45]]
      fp_round_small [OF representable_fraction [of _ 378865318652543 41]] by simp_all
  have k: "f_of_nat (unat (config_k 4)) = Fin 16"
    using f_of_nat_exact [of 16] by (simp add: unat_config_k)
  have raw: "raw_estimate (Fin 16) 4 = Fin (378865318652543 / 2 ^ 45)"
    using exact by (simp add: raw_estimate_def Let_def k literal_673)
  have valid: "valid_lg_k 4" by (simp add: valid_lg_k_iff)
  obtain a where a: "x_values_for 4 0 = Fin a" "\<bar>a - x_exact 4 0\<bar> \<le> 1 / 2 ^ 32"
    using x_values_for_Fin [OF valid, of 0] by auto
  have "x_exact 4 0 = 10767999803534 / 10 ^ 12"
    by (simp add: x_exact_def x_rows_def x_row_4_def x_unit_def)
  with a(2) have "a \<le> 378865318652543 / 2 ^ 45" unfolding abs_le_iff by (simp add: field_simps)
  then show ?thesis by (simp add: raw a(1))
qed

end
