(* ===== verification/Hll_Sketch.thy ===== *)
theory Hll_Sketch
  imports Hll_Policy Hll_Preamble Hll_Finalizer
begin

text \<open>
  \<^verbatim>\<open>detail/hll/sketch_impl.hpp\<close> and \<^verbatim>\<open>detail/hll/hll.inl\<close>: the HLL sketch. The registers live
  in a \<^verbatim>\<open>cuda::experimental::cuco::hyperloglog\<close>, which is third-party code: its type is the
  parameter \<open>'o\<close>, and its members are the fields of the record \<open>cudax\<close>. A member that talks to
  the device runs in the device monad; one that changes the sketch returns it with the result,
  also when it throws.
\<close>

section \<open>The cudax object\<close>

text \<open>What the policy type gives the cudax object.\<close>

record policy =
  pol_hash :: "key \<Rightarrow> u128"
  pol_index :: "u128 \<Rightarrow> nat \<Rightarrow> u32"
  pol_value :: "u128 \<Rightarrow> nat \<Rightarrow> u8"

definition hll_policy :: "platform \<Rightarrow> policy" where
  "hll_policy pf =
     \<lparr>pol_hash = hll_hash pf, pol_index = register_index, pol_value = register_value\<rparr>"

type_synonym 'o cudax_op = "'o \<Rightarrow> world \<Rightarrow> unit result \<times> 'o \<times> world"

text \<open>
  \<open>cx_registers\<close> and \<open>cx_write\<close> read and write the span that \<^verbatim>\<open>sketch()\<close> returns;
  \<open>cx_precision\<close> is the precision the object was made with.
\<close>

record 'o cudax =
  cx_new :: "nat \<Rightarrow> 'o dev"
  cx_precision :: "'o \<Rightarrow> nat"
  cx_registers :: "'o \<Rightarrow> register_type list"
  cx_write :: "'o \<Rightarrow> register_type list \<Rightarrow> 'o"
  cx_add :: "policy \<Rightarrow> key list \<Rightarrow> 'o cudax_op"
  cx_add_async :: "policy \<Rightarrow> key list \<Rightarrow> 'o cudax_op"
  cx_merge :: "'o \<Rightarrow> 'o cudax_op"
  cx_merge_async :: "'o \<Rightarrow> 'o cudax_op"

section \<open>The sketch and its operations\<close>

record 'o hll_sketch =
  hs_lg_config_k :: u8
  hs_tgt :: u8
  hs_inner :: 'o

record host_snapshot =
  snap_registers :: "register_type list"
  snap_reduction :: reduction_result

type_synonym ('o, 'a) hll_meth = "'o hll_sketch \<Rightarrow> world \<Rightarrow> 'a result \<times> 'o hll_sketch \<times> world"

definition check_target :: "hll_env \<Rightarrow> u8 \<Rightarrow> u8 result" where
  "check_target c tgt =
     (if tgt \<noteq> HLL_8 c
      then Inl (Invalid_argument ''datasketches::cuda::hll_sketch supports only target_hll_type::HLL_8'')
      else Inr tgt)"

definition hll_construct :: "hll_env \<Rightarrow> 'o cudax \<Rightarrow> u8 \<Rightarrow> u8 \<Rightarrow> 'o hll_sketch dev" where
  "hll_construct c cx lgK tgt =
     (case check_target c tgt of Inl e \<Rightarrow> dthrow e | Inr tgt \<Rightarrow>
      dbind (cx_new cx (unat lgK)) (\<lambda>inner. dreturn
        \<lparr>hs_lg_config_k = lgK, hs_tgt = tgt, hs_inner = inner\<rparr>))"

definition num_registers :: "'o hll_sketch \<Rightarrow> nat" where
  "num_registers s = 2 ^ unat (hs_lg_config_k s)"

definition get_lg_config_k :: "'o hll_sketch \<Rightarrow> u8" where "get_lg_config_k s = hs_lg_config_k s"

definition get_target_type :: "'o hll_sketch \<Rightarrow> u8" where "get_target_type s = hs_tgt s"

text \<open>The copy of the registers to the host, its synchronisation, and the reduction.\<close>

definition snapshot :: "hll_env \<Rightarrow> 'o cudax \<Rightarrow> 'o hll_sketch \<Rightarrow> host_snapshot dev" where
  "snapshot c cx s =
     (let configK = 2 ^ unat (hs_lg_config_k s) in
      dbind cuda_try (\<lambda>_. dbind cuda_try (\<lambda>_.
        let registers = take configK (cx_registers cx (hs_inner s)) in
        dreturn \<lparr>snap_registers = registers,
          snap_reduction = reduce_hll8 c registers (hs_lg_config_k s)\<rparr>)))"

definition estimate_from :: "hll_env \<Rightarrow> reduction_result \<Rightarrow> u8 \<Rightarrow> fp" where
  "estimate_from c r lgK =
     composite_finalizer c (fadd (kxq0 r) (kxq1 r)) (cur_min r) (num_at_cur_min r) lgK"

definition snapshot_fields :: "hll_env \<Rightarrow> bool \<Rightarrow> 'o hll_sketch \<Rightarrow> host_snapshot \<Rightarrow> preamble_fields" where
  "snapshot_fields c is_compact s snap =
     \<lparr>pf_lgK = hs_lg_config_k s, pf_mode = mode_hll, pf_tgt = HLL_8 c,
      pf_is_empty =
        (unat (num_at_cur_min (snap_reduction snap)) = 2 ^ unat (hs_lg_config_k s)),
      pf_is_compact = is_compact, pf_ooo_flag = True, pf_full_size_flag = True, pf_cur_min = 0,
      pf_num_at_cur_min = num_at_cur_min (snap_reduction snap),
      pf_kxq0 = encode64 (kxq0 (snap_reduction snap)),
      pf_kxq1 = encode64 (kxq1 (snap_reduction snap)),
      pf_hip_accum = encode64 (Fin 0), pf_aux_lg_int_arr_size = 0, pf_aux_count = 0\<rparr>"

definition hll_serialize :: "hll_env \<Rightarrow> 'o cudax \<Rightarrow> bool \<Rightarrow> 'o hll_sketch \<Rightarrow> u8 list dev" where
  "hll_serialize c cx is_compact s =
     (let configK = 2 ^ unat (hs_lg_config_k s) in
      dbind (snapshot c cx s) (\<lambda>snap.
        let f = snapshot_fields c is_compact s snap; preamble = assemble_preamble c f
        in dreturn (preamble @ map (\<lambda>i. ucast (snap_registers snap ! i)) [0..<configK])))"

definition hll_serialize_compact :: "hll_env \<Rightarrow> 'o cudax \<Rightarrow> 'o hll_sketch \<Rightarrow> u8 list dev" where
  "hll_serialize_compact c cx s = hll_serialize c cx True s"

definition hll_serialize_updatable :: "hll_env \<Rightarrow> 'o cudax \<Rightarrow> 'o hll_sketch \<Rightarrow> u8 list dev" where
  "hll_serialize_updatable c cx s = hll_serialize c cx False s"

definition parse_and_validate :: "hll_env \<Rightarrow> u8 list \<Rightarrow> preamble_fields result" where
  "parse_and_validate c bytes =
     (if length bytes < PREAMBLE_BYTES
      then Inl (Invalid_argument
        ''datasketches::cuda::hll_sketch::deserialize: byte span shorter than 40-byte preamble'')
      else bind_result (parse_preamble c (take PREAMBLE_BYTES bytes)) (\<lambda>pf.
        let configK = 2 ^ unat (pf_lgK pf); expected = PREAMBLE_BYTES + configK
        in if length bytes \<noteq> expected
           then Inl (Invalid_argument
             ''datasketches::cuda::hll_sketch::deserialize: byte span size != preamble + 2^lgK'')
           else Inr pf))"

text \<open>The loop over the register bytes.\<close>

fun host_registers :: "u8 list \<Rightarrow> register_type list result" where
  "host_registers [] = Inr []"
| "host_registers (v # vs) =
     (if 63 < v
      then Inl (Invalid_argument
        ''datasketches::cuda::hll_sketch::deserialize: HLL_8 register value out of range'')
      else bind_result (host_registers vs) (\<lambda>rs. Inr (ucast v # rs)))"

definition load_registers :: "'o cudax \<Rightarrow> u8 list \<Rightarrow> ('o, unit) hll_meth" where
  "load_registers cx bytes s w =
     (let configK = 2 ^ unat (hs_lg_config_k s) in
      case host_registers (map (\<lambda>i. bytes ! (PREAMBLE_BYTES + i)) [0..<configK]) of
        Inl e \<Rightarrow> (Inl e, s, w)
      | Inr host_regs \<Rightarrow>
          (case cuda_try w of
            (Inl e, w1) \<Rightarrow> (Inl e, s, w1)
          | (Inr _, w1) \<Rightarrow>
              let s' = s\<lparr>hs_inner := cx_write cx (hs_inner s) host_regs\<rparr> in
              case cuda_try w1 of (r, w2) \<Rightarrow> (r, s', w2)))"

definition hll_deserialize :: "hll_env \<Rightarrow> 'o cudax \<Rightarrow> u8 list \<Rightarrow> 'o hll_sketch dev" where
  "hll_deserialize c cx bytes =
     (case parse_and_validate c bytes of Inl e \<Rightarrow> dthrow e | Inr pf \<Rightarrow>
      dbind (hll_construct c cx (pf_lgK pf) (HLL_8 c)) (\<lambda>s w.
        case load_registers cx bytes s w of
          (Inl e, s', w') \<Rightarrow> (Inl e, w')
        | (Inr _, s', w') \<Rightarrow> (Inr s', w')))"

definition on_inner :: "('o cudax_op) \<Rightarrow> ('o, unit) hll_meth" where
  "on_inner f s w = (case f (hs_inner s) w of (r, inner, w') \<Rightarrow> (r, s\<lparr>hs_inner := inner\<rparr>, w'))"

definition hll_update :: "'o cudax \<Rightarrow> platform \<Rightarrow> key list \<Rightarrow> ('o, unit) hll_meth" where
  "hll_update cx pf keys = on_inner (cx_add cx (hll_policy pf) keys)"

definition hll_update_async :: "'o cudax \<Rightarrow> platform \<Rightarrow> key list \<Rightarrow> ('o, unit) hll_meth" where
  "hll_update_async cx pf keys = on_inner (cx_add_async cx (hll_policy pf) keys)"

definition hll_merge :: "'o cudax \<Rightarrow> 'o hll_sketch \<Rightarrow> ('o, unit) hll_meth" where
  "hll_merge cx other = on_inner (cx_merge cx (hs_inner other))"

definition hll_merge_async :: "'o cudax \<Rightarrow> 'o hll_sketch \<Rightarrow> ('o, unit) hll_meth" where
  "hll_merge_async cx other = on_inner (cx_merge_async cx (hs_inner other))"

definition hll_is_empty :: "hll_env \<Rightarrow> 'o cudax \<Rightarrow> 'o hll_sketch \<Rightarrow> bool dev" where
  "hll_is_empty c cx s =
     dbind (snapshot c cx s) (\<lambda>snap.
       dreturn (num_at_cur_min (snap_reduction snap) = config_k (hs_lg_config_k s)))"

definition hll_get_estimate :: "hll_env \<Rightarrow> 'o cudax \<Rightarrow> 'o hll_sketch \<Rightarrow> fp dev" where
  "hll_get_estimate c cx s =
     dbind (snapshot c cx s) (\<lambda>snap.
       dreturn (estimate_from c (snap_reduction snap) (hs_lg_config_k s)))"

definition hll_get_lower_bound :: "hll_env \<Rightarrow> 'o cudax \<Rightarrow> u8 \<Rightarrow> 'o hll_sketch \<Rightarrow> fp dev" where
  "hll_get_lower_bound c cx numStdDev s =
     (case checkNumStdDev c numStdDev of Inl e \<Rightarrow> dthrow e | Inr _ \<Rightarrow>
      dbind (snapshot c cx s) (\<lambda>snap.
        let rs = snap_reduction snap; configK = config_k (hs_lg_config_k s);
            numNonZeros =
              (if cur_min rs = 0 then f_of_nat (unat (configK - num_at_cur_min rs))
               else f_of_nat (unat configK));
            estimate = estimate_from c rs (hs_lg_config_k s);
            relErr = getRelErr c False True (hs_lg_config_k s) numStdDev
        in dreturn (fmax (fdiv estimate (fadd (Fin 1) relErr)) numNonZeros)))"

definition hll_get_upper_bound :: "hll_env \<Rightarrow> 'o cudax \<Rightarrow> u8 \<Rightarrow> 'o hll_sketch \<Rightarrow> fp dev" where
  "hll_get_upper_bound c cx numStdDev s =
     (case checkNumStdDev c numStdDev of Inl e \<Rightarrow> dthrow e | Inr _ \<Rightarrow>
      dbind (hll_get_estimate c cx s) (\<lambda>estimate.
        let relErr = getRelErr c True True (hs_lg_config_k s) numStdDev
        in dreturn (fdiv estimate (fadd (Fin 1) relErr))))"

end
