(* ===== verification/Hll_Contract.thy ===== *)
theory Hll_Contract
  imports Hll_Sketch Sketch_Contract
begin

text \<open>
  What the HLL sketch relies on of the cudax object, the invariant of the sketch, and its
  meaning: every register holds the largest value of the hashes that fall on it. The sketch
  interprets the contract of mergeable summaries.
\<close>

section \<open>The contract of the cudax object\<close>

text \<open>Registers are signed, and the device takes the maximum atomically.\<close>

definition max_register :: "register_type \<Rightarrow> register_type \<Rightarrow> register_type" where
  "max_register x y = (if sint x < sint y then y else x)"

definition observe_key :: "policy \<Rightarrow> nat \<Rightarrow> register_type list \<Rightarrow> key \<Rightarrow> register_type list" where
  "observe_key pol p regs k =
     (let h = pol_hash pol k; i = unat (pol_index pol h p)
      in regs[i := max_register (regs ! i) (ucast (pol_value pol h p))])"

text \<open>
  cudax supports precisions 4 to 18 and starts with zero registers; adding keys, in whatever
  order the threads run, leaves the maximum of what was there and what the keys offer; merging
  takes the maximum register by register and requires equal precisions. The asynchronous
  members have the same effect once the stream has been synchronised. A working device
  constructs the object.
\<close>

definition adds_max :: "'o cudax \<Rightarrow> (policy \<Rightarrow> key list \<Rightarrow> 'o cudax_op) \<Rightarrow> bool" where
  "adds_max cx add \<longleftrightarrow>
     (\<forall>pol keys inner w inner' w'. add pol keys inner w = (Inr (), inner', w') \<longrightarrow>
        cx_precision cx inner' = cx_precision cx inner \<and>
        cx_registers cx inner' =
          foldl (observe_key pol (cx_precision cx inner)) (cx_registers cx inner) keys)"

definition merges_max :: "'o cudax \<Rightarrow> ('o \<Rightarrow> 'o cudax_op) \<Rightarrow> bool" where
  "merges_max cx join \<longleftrightarrow>
     (\<forall>other inner w inner' w'. join other inner w = (Inr (), inner', w') \<longrightarrow>
        cx_precision cx other = cx_precision cx inner \<and>
        cx_precision cx inner' = cx_precision cx inner \<and>
        cx_registers cx inner' = map2 max_register (cx_registers cx inner) (cx_registers cx other))"

definition cudax_ok :: "'o cudax \<Rightarrow> bool" where
  "cudax_ok cx \<longleftrightarrow>
     (\<forall>p w inner w'. cx_new cx p w = (Inr inner, w') \<longrightarrow> 4 \<le> p \<and> p \<le> 18 \<and>
        cx_precision cx inner = p \<and> cx_registers cx inner = replicate (2 ^ p) 0) \<and>
     (\<forall>p w. no_faults w \<longrightarrow> 4 \<le> p \<longrightarrow> p \<le> 18 \<longrightarrow>
        (\<exists>inner w'. cx_new cx p w = (Inr inner, w') \<and> no_faults w')) \<and>
     (\<forall>inner xs. length xs = length (cx_registers cx inner) \<longrightarrow>
        cx_registers cx (cx_write cx inner xs) = xs \<and>
        cx_precision cx (cx_write cx inner xs) = cx_precision cx inner) \<and>
     adds_max cx (cx_add cx) \<and> adds_max cx (cx_add_async cx) \<and>
     merges_max cx (cx_merge cx) \<and> merges_max cx (cx_merge_async cx)"

text \<open>An instance that meets the contract: the precision with the registers, changed at once.\<close>

definition list_add :: "policy \<Rightarrow> key list \<Rightarrow> (nat \<times> register_type list) cudax_op" where
  "list_add pol keys inner w =
     (case inner of (p, regs) \<Rightarrow>
       case cuda_try w of (Inl e, w') \<Rightarrow> (Inl e, inner, w')
       | (Inr _, w') \<Rightarrow> (Inr (), (p, foldl (observe_key pol p) regs keys), w'))"

definition list_merge :: "nat \<times> register_type list \<Rightarrow> (nat \<times> register_type list) cudax_op" where
  "list_merge other inner w =
     (if fst other \<noteq> fst inner then (Inl (Invalid_argument ''precision''), inner, w)
      else case cuda_try w of (Inl e, w') \<Rightarrow> (Inl e, inner, w')
       | (Inr _, w') \<Rightarrow> (Inr (), (fst inner, map2 max_register (snd inner) (snd other)), w'))"

definition list_cudax :: "(nat \<times> register_type list) cudax" where
  "list_cudax =
     \<lparr>cx_new = (\<lambda>p. if p < 4 \<or> 18 < p then dthrow (Invalid_argument ''precision'')
        else dbind cuda_try (\<lambda>_. dreturn (p, replicate (2 ^ p) 0))),
      cx_precision = fst, cx_registers = snd, cx_write = (\<lambda>inner xs. (fst inner, xs)),
      cx_add = list_add, cx_add_async = list_add, cx_merge = list_merge,
      cx_merge_async = list_merge\<rparr>"

lemma cudax_ok_list: "cudax_ok list_cudax"
proof -
  have "\<exists>inner w'. cx_new list_cudax p w = (Inr inner, w') \<and> no_faults w'"
    if "no_faults w" "4 \<le> p" "p \<le> 18" for p w
    using that cuda_try_no_faults [OF that(1)] by (simp add: list_cudax_def not_less)
  then show ?thesis
    by (auto simp: cudax_ok_def adds_max_def merges_max_def list_cudax_def list_add_def list_merge_def
        split: if_splits prod.splits sum.splits)
qed

lemma cudax_ok_new:
  assumes "cudax_ok cx" and "cx_new cx p w = (Inr inner, w')"
  shows "4 \<le> p \<and> p \<le> 18 \<and> cx_precision cx inner = p \<and>
    cx_registers cx inner = replicate (2 ^ p) 0"
  using assms unfolding cudax_ok_def by blast

lemma cudax_ok_returns:
  assumes "cudax_ok cx" and "no_faults w" and "4 \<le> p" and "p \<le> 18"
  shows "\<exists>inner w'. cx_new cx p w = (Inr inner, w') \<and> no_faults w'"
  using assms unfolding cudax_ok_def by blast

lemma cudax_ok_write:
  assumes "cudax_ok cx" and "length xs = length (cx_registers cx inner)"
  shows "cx_registers cx (cx_write cx inner xs) = xs"
    and "cx_precision cx (cx_write cx inner xs) = cx_precision cx inner"
  using assms unfolding cudax_ok_def by blast+

lemma cudax_ok_ops:
  assumes "cudax_ok cx"
  shows "adds_max cx (cx_add cx)" and "adds_max cx (cx_add_async cx)"
    and "merges_max cx (cx_merge cx)" and "merges_max cx (cx_merge_async cx)"
  using assms by (simp_all add: cudax_ok_def)

section \<open>Registers and hashes\<close>

definition coupons :: "nat \<Rightarrow> u128 set \<Rightarrow> nat \<Rightarrow> nat" where
  "coupons p H i =
     Max (insert 0 ((\<lambda>h. unat (register_value h p)) ` {h \<in> H. unat (register_index h p) = i}))"

lemma coupons_empty [simp]: "coupons p {} i = 0"
  by (simp add: coupons_def)

lemma coupons_Un:
  assumes "finite A" and "finite B"
  shows "coupons p (A \<union> B) i = max (coupons p A i) (coupons p B i)"
proof -
  let ?f = "\<lambda>H. (\<lambda>h. unat (register_value h p)) ` {h \<in> H. unat (register_index h p) = i}"
  have "insert 0 (?f (A \<union> B)) = insert 0 (?f A) \<union> insert 0 (?f B)" by auto
  with assms show ?thesis unfolding coupons_def by (simp only:) (intro Max_Un; simp)
qed

lemma coupons_singleton:
  "coupons p {h} i = (if unat (register_index h p) = i then unat (register_value h p) else 0)"
proof -
  have "{h' \<in> {h}. unat (register_index h' p) = i} = (if unat (register_index h p) = i then {h} else {})"
    by auto
  then show ?thesis by (simp add: coupons_def)
qed

lemma coupons_le: "finite H \<Longrightarrow> coupons p H i \<le> 63"
  using register_value_range by (auto simp: coupons_def)

lemma unat_max_register:
  assumes "unat x \<le> 63" and "unat y \<le> 63"
  shows "unat (max_register x y) = max (unat x) (unat y)"
proof -
  have self: "signed_take_bit 31 (int n) = int n" if "n \<le> 63" for n
    using that by (intro signed_take_bit_int_eq_self) simp_all
  have s: "sint z = int (unat z)" if "unat z \<le> 63" for z :: register_type
  proof -
    have "sint z = sint (word_of_nat (unat z) :: register_type)" by simp
    also have "\<dots> = signed_take_bit 31 (int (unat z))" by (simp only: signed_of_nat) simp
    also have "\<dots> = int (unat z)" using self that by blast
    finally show ?thesis .
  qed
  show ?thesis 
    unfolding max_register_def s [OF assms(1)] s [OF assms(2)] of_nat_less_iff by (simp add: max_def)
qed

text \<open>\<open>holds p regs H\<close>: the registers are those of the hashes \<open>H\<close> at precision \<open>p\<close>.\<close>

definition holds :: "nat \<Rightarrow> register_type list \<Rightarrow> u128 set \<Rightarrow> bool" where
  "holds p regs H \<longleftrightarrow> length regs = 2 ^ p \<and> finite H \<and> (\<forall>i < 2 ^ p. unat (regs ! i) = coupons p H i)"

lemma holds_unique: "holds p xs H \<Longrightarrow> holds p ys H \<Longrightarrow> xs = ys"
  by (rule nth_equalityI) (auto simp: holds_def word_unat_eq_iff)

lemma holds_le: "holds p regs H \<Longrightarrow> r \<in> set regs \<Longrightarrow> unat r \<le> 63"
  using coupons_le by (auto simp: holds_def in_set_conv_nth)

lemma holds_zero: "holds p (replicate (2 ^ p) 0) {}"
  by (simp add: holds_def)

lemma holds_observe:
  assumes "holds p regs H" and "p \<le> 32"
  shows "holds p (observe_key (hll_policy pf) p regs k) (insert (hll_hash pf k) H)"
proof -
  let ?h = "hll_hash pf k"
  let ?i = "unat (register_index ?h p)"
  have i: "?i < length regs" using assms register_index_less by (simp add: holds_def)
  have v: "unat (ucast (register_value ?h p) :: register_type) = unat (register_value ?h p)"
    using register_value_range [of ?h p] by (simp add: unsigned_ucast_eq take_bit_nat_eq_self)
  have "unat (max_register (regs ! ?i) (ucast (register_value ?h p))) =
      max (unat (regs ! ?i)) (unat (register_value ?h p))"
    using holds_le [OF assms(1)] i register_value_range [of ?h p] v
    by (subst unat_max_register) auto
  moreover have "coupons p (insert ?h H) j = max (coupons p {?h} j) (coupons p H j)" for j
    using coupons_Un [of "{?h}" H] assms(1) by (simp add: holds_def)
  ultimately show ?thesis
    using assms i
    by (auto simp: holds_def observe_key_def hll_policy_def Let_def nth_list_update
        coupons_singleton max.commute)
qed

lemma holds_observe_all:
  assumes "holds p regs H" and "p \<le> 32"
  shows "holds p (foldl (observe_key (hll_policy pf) p) regs keys) (H \<union> hll_hash pf ` set keys)"
  using assms
proof (induction keys arbitrary: regs H)
  case (Cons k keys)
  from Cons.IH [OF holds_observe [OF Cons.prems] Cons.prems(2)] show ?case by simp
qed simp

lemma holds_merge:
  assumes "holds p xs A" and "holds p ys B"
  shows "holds p (map2 max_register xs ys) (A \<union> B)"
proof -
  have "unat (max_register (xs ! i) (ys ! i)) = max (unat (xs ! i)) (unat (ys ! i))" if "i < 2 ^ p" for i
    using that assms holds_le [OF assms(1) nth_mem] holds_le [OF assms(2) nth_mem]
    by (intro unat_max_register) (auto simp: holds_def)
  with assms show ?thesis by (auto simp: holds_def coupons_Un)
qed

section \<open>The invariant and the meaning of a sketch\<close>

definition wf_hll :: "hll_env \<Rightarrow> 'o cudax \<Rightarrow> 'o hll_sketch \<Rightarrow> bool" where
  "wf_hll c cx s \<longleftrightarrow> valid_lg_k (hs_lg_config_k s) \<and> hs_tgt s = HLL_8 c \<and>
     cx_precision cx (hs_inner s) = unat (hs_lg_config_k s) \<and>
     length (cx_registers cx (hs_inner s)) = num_registers s \<and>
     (\<forall>r \<in> set (cx_registers cx (hs_inner s)). unat r \<le> 63)"

text \<open>
  \<open>hll_canon c cx lg s H\<close>: \<open>s\<close> is the sketch of precision \<open>lg\<close> of the 128-bit hashes \<open>H\<close>. What
  can be observed of it is its precision and its registers.
\<close>

definition hll_canon :: "hll_env \<Rightarrow> 'o cudax \<Rightarrow> u8 \<Rightarrow> 'o hll_sketch \<Rightarrow> u128 set \<Rightarrow> bool" where
  "hll_canon c cx lg s H \<longleftrightarrow> cudax_ok cx \<and> wf_hll c cx s \<and> hs_lg_config_k s = lg \<and>
     holds (unat lg) (cx_registers cx (hs_inner s)) H"

definition hll_observe :: "'o cudax \<Rightarrow> 'o hll_sketch \<Rightarrow> u8 \<times> register_type list" where
  "hll_observe cx s = (hs_lg_config_k s, cx_registers cx (hs_inner s))"

definition hll_feed :: "'o cudax \<Rightarrow> platform \<Rightarrow> 'o hll_sketch \<Rightarrow> u128 set \<Rightarrow> 'o hll_sketch \<Rightarrow> bool" where
  "hll_feed cx pf s K s' \<longleftrightarrow>
     (\<exists>keys w w'. K = hll_hash pf ` set keys \<and>
        (hll_update cx pf keys s w = (Inr (), s', w') \<or> hll_update_async cx pf keys s w = (Inr (), s', w')))"

definition hll_join :: "'o cudax \<Rightarrow> 'o hll_sketch \<Rightarrow> 'o hll_sketch \<Rightarrow> 'o hll_sketch \<Rightarrow> bool" where
  "hll_join cx s other s' \<longleftrightarrow>
     (\<exists>w w'. hll_merge cx other s w = (Inr (), s', w') \<or> hll_merge_async cx other s w = (Inr (), s', w'))"

lemma valid_lg_k_bounds: "valid_lg_k lg \<Longrightarrow> unat lg \<le> 32"
  by (simp add: valid_lg_k_iff)

lemma on_inner_Inr:
  "on_inner f s w = (Inr u, s', w') \<longleftrightarrow>
     (\<exists>inner. f (hs_inner s) w = (Inr u, inner, w') \<and> s' = s\<lparr>hs_inner := inner\<rparr>)"
  by (auto simp: on_inner_def split: prod.splits)

lemma hll_canon_construct:
  assumes "cudax_ok cx" and "hll_construct c cx lgK tgt w = (Inr s, w')"
  shows "hll_canon c cx lgK s {}"
proof -
  obtain inner where t: "check_target c tgt = Inr (HLL_8 c)"
    and n: "cx_new cx (unat lgK) w = (Inr inner, w')"
    and s: "s = \<lparr>hs_lg_config_k = lgK, hs_tgt = HLL_8 c, hs_inner = inner\<rparr>"
    using assms(2) by (auto simp: hll_construct_def check_target_def split: if_splits)
  from cudax_ok_new [OF assms(1) n] holds_zero [of "unat lgK"] assms(1) show ?thesis
    by (simp add: hll_canon_def wf_hll_def s valid_lg_k_iff num_registers_def)
qed

text \<open>A change of the registers that keeps the precision keeps the invariant.\<close>

lemma hll_canon_change:
  assumes "hll_canon c cx lg s H" and "cx_precision cx inner = cx_precision cx (hs_inner s)"
    and "holds (unat lg) (cx_registers cx inner) K"
  shows "hll_canon c cx lg (s\<lparr>hs_inner := inner\<rparr>) K"
  using assms holds_le [OF assms(3)]
  by (auto simp: hll_canon_def wf_hll_def num_registers_def holds_def)

lemma hll_canon_feed:
  assumes "hll_canon c cx lg s H" and "hll_feed cx pf s K s'"
  shows "hll_canon c cx lg s' (H \<union> K)"
proof -
  have ok: "cudax_ok cx" and wf: "wf_hll c cx s" and lg: "hs_lg_config_k s = lg"
    and holds: "holds (unat lg) (cx_registers cx (hs_inner s)) H"
    using assms(1) by (simp_all add: hll_canon_def)
  have p: "cx_precision cx (hs_inner s) = unat lg" "unat lg \<le> 32"
    using wf lg valid_lg_k_bounds [of lg] by (auto simp: wf_hll_def)
  obtain keys inner where K: "K = hll_hash pf ` set keys" and s': "s' = s\<lparr>hs_inner := inner\<rparr>"
    and pr: "cx_precision cx inner = cx_precision cx (hs_inner s)"
    and regs: "cx_registers cx inner =
      foldl (observe_key (hll_policy pf) (unat lg)) (cx_registers cx (hs_inner s)) keys"
    using assms(2) cudax_ok_ops(1,2) [OF ok] p(1) unfolding hll_feed_def hll_update_def
      hll_update_async_def on_inner_Inr adds_max_def by (elim exE conjE disjE) metis+
  show ?thesis unfolding s' K
    by (rule hll_canon_change [OF assms(1) pr]) (simp only: regs holds_observe_all [OF holds p(2)])
qed

lemma hll_canon_join:
  assumes "hll_canon c cx lg s H" and "hll_canon c cx lg t K" and "hll_join cx s t s'"
  shows "hll_canon c cx lg s' (H \<union> K)"
proof -
  have ok: "cudax_ok cx" using assms(1) by (simp add: hll_canon_def)
  obtain inner where s': "s' = s\<lparr>hs_inner := inner\<rparr>"
    and pr: "cx_precision cx inner = cx_precision cx (hs_inner s)"
    and regs: "cx_registers cx inner =
      map2 max_register (cx_registers cx (hs_inner s)) (cx_registers cx (hs_inner t))"
    using assms(3) cudax_ok_ops(3,4) [OF ok] unfolding hll_join_def hll_merge_def
      hll_merge_async_def on_inner_Inr merges_max_def by (elim exE conjE disjE) metis+
  have "holds (unat lg) (cx_registers cx inner) (H \<union> K)"
    unfolding regs using assms(1,2) by (intro holds_merge) (simp_all add: hll_canon_def)
  from hll_canon_change [OF assms(1) pr this] show ?thesis by (simp add: s')
qed

interpretation hll_summaries: mergeable "hll_canon c cx lg" "hll_observe cx" "hll_feed cx pf" "hll_join cx"
  for c :: hll_env and cx :: "'o cudax" and lg :: u8 and pf :: platform
proof unfold_locales
  show "hll_canon c cx lg s H \<Longrightarrow> hll_canon c cx lg t H \<Longrightarrow> hll_observe cx s = hll_observe cx t" for s t H
    by (auto simp: hll_canon_def hll_observe_def intro: holds_unique)
qed (fact hll_canon_feed hll_canon_join)+

text \<open>Everything a sketch reports is a function of what is observed of it.\<close>

lemma snapshot_observe:
  "hll_observe cx s = hll_observe cx t \<Longrightarrow> snapshot c cx s = snapshot c cx t"
  by (simp add: hll_observe_def snapshot_def)

lemma reports_observe:
  assumes "hll_observe cx s = hll_observe cx t"
  shows "hll_serialize c cx b s = hll_serialize c cx b t"
    and "hll_get_estimate c cx s = hll_get_estimate c cx t"
    and "hll_get_lower_bound c cx n s = hll_get_lower_bound c cx n t"
    and "hll_get_upper_bound c cx n s = hll_get_upper_bound c cx n t"
    and "hll_is_empty c cx s = hll_is_empty c cx t"
proof -
  have lg: "hs_lg_config_k s = hs_lg_config_k t" using assms by (simp add: hll_observe_def)
  note snap = snapshot_observe [OF assms, of c]
  show est: "hll_get_estimate c cx s = hll_get_estimate c cx t"
    by (simp add: hll_get_estimate_def snap lg)
  show "hll_serialize c cx b s = hll_serialize c cx b t"
    by (simp add: hll_serialize_def snapshot_fields_def snap lg)
  show "hll_get_lower_bound c cx n s = hll_get_lower_bound c cx n t"
    unfolding hll_get_lower_bound_def snap lg ..
  show "hll_get_upper_bound c cx n s = hll_get_upper_bound c cx n t"
    unfolding hll_get_upper_bound_def est lg ..
  show "hll_is_empty c cx s = hll_is_empty c cx t"
    by (simp add: hll_is_empty_def snap lg)
qed

end
