(* ===== verification/Hll_Image.thy ===== *)
theory Hll_Image
  imports Hll_Contract
begin

text \<open>
  The images of the HLL sketch: what serialization writes and what deserialization accepts.
\<close>

section \<open>Serialization\<close>

lemma dbind_cuda_try_Inr:
  "dbind cuda_try f w = (Inr x, w') \<longleftrightarrow> (\<exists>w1. cuda_try w = (Inr (), w1) \<and> f () w1 = (Inr x, w'))"
  by auto

lemma snapshot_Inr:
  assumes "wf_hll c cx s" and "snapshot c cx s w = (Inr snap, w')"
  shows "snap = \<lparr>snap_registers = cx_registers cx (hs_inner s),
    snap_reduction = reduce_hll8 c (cx_registers cx (hs_inner s)) (hs_lg_config_k s)\<rparr>"
  using assms by (auto simp: snapshot_def Let_def wf_hll_def num_registers_def)

text \<open>The snapshot of a well-formed sketch.\<close>

definition snap_of :: "hll_env \<Rightarrow> 'o cudax \<Rightarrow> 'o hll_sketch \<Rightarrow> host_snapshot" where
  "snap_of c cx s = \<lparr>snap_registers = cx_registers cx (hs_inner s),
     snap_reduction = reduce_hll8 c (cx_registers cx (hs_inner s)) (hs_lg_config_k s)\<rparr>"

definition hll_image :: "hll_env \<Rightarrow> 'o cudax \<Rightarrow> bool \<Rightarrow> 'o hll_sketch \<Rightarrow> u8 list" where
  "hll_image c cx b s = assemble_preamble c (snapshot_fields c b s (snap_of c cx s))
     @ register_bytes (cx_registers cx (hs_inner s))"

lemma hll_serialize_Inr:
  assumes "wf_hll c cx s" and "hll_serialize c cx b s w = (Inr bytes, w')"
  shows "bytes = hll_image c cx b s"
proof -
  obtain snap w1 where snap: "snapshot c cx s w = (Inr snap, w1)"
    and bytes: "bytes = assemble_preamble c (snapshot_fields c b s snap)
      @ map (\<lambda>i. ucast (snap_registers snap ! i)) [0..<2 ^ unat (hs_lg_config_k s)]"
    using assms(2) by (auto simp: hll_serialize_def Let_def)
  have s: "snap = snap_of c cx s" using snapshot_Inr [OF assms(1) snap] by (simp add: snap_of_def)
  have "length (cx_registers cx (hs_inner s)) = 2 ^ unat (hs_lg_config_k s)"
    using assms(1) by (simp add: wf_hll_def num_registers_def)
  then have "map (\<lambda>i. ucast (snap_registers snap ! i) :: u8) [0..<2 ^ unat (hs_lg_config_k s)] =
      register_bytes (cx_registers cx (hs_inner s))"
    by (intro nth_equalityI) (simp_all add: s snap_of_def register_bytes_def)
  with bytes s show ?thesis by (simp add: hll_image_def)
qed

lemma wf_hll_lg: "wf_hll c cx s \<Longrightarrow> 4 \<le> hs_lg_config_k s \<and> hs_lg_config_k s \<le> 21"
  by (auto simp: wf_hll_def valid_lg_k_def table_min_lg_k_def table_max_lg_k_def word_le_nat_alt)

section \<open>Reading registers back\<close>

lemma host_registers_Inr:
  "host_registers vs = Inr rs \<longleftrightarrow> (\<forall>v \<in> set vs. v \<le> 63) \<and> rs = map ucast vs"
proof (induction vs arbitrary: rs)
  case (Cons v vs)
  then show ?case by (auto simp: not_less)
qed auto

lemma host_registers_Inl: "host_registers vs = Inl e \<Longrightarrow> \<not> (\<forall>v \<in> set vs. v \<le> 63)"
  using host_registers_Inr [of vs "map ucast vs"] by auto

lemma ucast_register_bytes:
  assumes "\<forall>r \<in> set regs. unat r \<le> 63"
  shows "map ucast (register_bytes regs) = regs" and "\<forall>v \<in> set (register_bytes regs). v \<le> 63"
proof -
  have u: "unat (ucast r :: u8) = unat r" if "unat r \<le> 63" for r :: register_type
    using that by (simp add: unsigned_ucast_eq take_bit_nat_eq_self)
  have "ucast (ucast r :: u8) = r" if "unat r \<le> 63" for r :: register_type
  proof -
    have "unat (ucast (ucast r :: u8) :: register_type) = unat r"
      using that by (simp add: unsigned_ucast_eq unsigned_take_bit_eq take_bit_nat_eq_self)
    then show ?thesis by (simp only: word_unat_eq_iff)
  qed
  then show "map ucast (register_bytes regs) = regs"
    using assms by (simp add: register_bytes_def map_idI)
  show "\<forall>v \<in> set (register_bytes regs). v \<le> 63"
    using assms u by (simp add: register_bytes_def word_le_nat_alt)
qed

text \<open>The register bytes of an image of the right length.\<close>

lemma image_registers:
  "length bytes = PREAMBLE_BYTES + n \<Longrightarrow>
     map (\<lambda>i. bytes ! (PREAMBLE_BYTES + i)) [0..<n] = drop PREAMBLE_BYTES bytes"
  by (rule nth_equalityI) simp_all

section \<open>Deserialization\<close>

lemma parse_and_validate_Inr:
  "parse_and_validate c bytes = Inr pf \<longleftrightarrow>
     PREAMBLE_BYTES \<le> length bytes \<and> parse_preamble c (take PREAMBLE_BYTES bytes) = Inr pf \<and>
     length bytes = PREAMBLE_BYTES + 2 ^ unat (pf_lgK pf)"
  by (auto simp: parse_and_validate_def Let_def not_less)

lemma hll_deserialize_Inr:
  assumes "cudax_ok cx" and "hll_deserialize c cx bytes w = (Inr s, w')"
  obtains pf where "parse_and_validate c bytes = Inr pf" and "hs_lg_config_k s = pf_lgK pf"
    and "wf_hll c cx s" and "\<forall>v \<in> set (drop PREAMBLE_BYTES bytes). v \<le> 63"
    and "cx_registers cx (hs_inner s) = map ucast (drop PREAMBLE_BYTES bytes)"
proof -
  obtain pf where pf: "parse_and_validate c bytes = Inr pf"
    using assms(2) by (cases "parse_and_validate c bytes") (simp_all add: hll_deserialize_def)
  obtain s0 w1 where con: "hll_construct c cx (pf_lgK pf) (HLL_8 c) w = (Inr s0, w1)"
    and "(case load_registers cx bytes s0 w1 of (Inl e, s', w') \<Rightarrow> (Inl e, w')
      | (Inr _, s', w') \<Rightarrow> (Inr s', w')) = (Inr s, w')"
    using assms(2) pf by (auto simp: hll_deserialize_def)
  then have load: "load_registers cx bytes s0 w1 = (Inr (), s, w')"
    by (auto split: prod.splits sum.splits)
  have canon: "hll_canon c cx (pf_lgK pf) s0 {}" using hll_canon_construct [OF assms(1) con] .
  then have lg: "hs_lg_config_k s0 = pf_lgK pf" and wf: "wf_hll c cx s0"
    by (simp_all add: hll_canon_def)
  have len: "length bytes = PREAMBLE_BYTES + 2 ^ unat (pf_lgK pf)"
    using pf by (simp add: parse_and_validate_Inr)
  obtain regs where regs: "host_registers (drop PREAMBLE_BYTES bytes) = Inr regs"
    and s: "s = s0\<lparr>hs_inner := cx_write cx (hs_inner s0) regs\<rparr>"
    using load image_registers [OF len]
    by (auto simp: load_registers_def Let_def lg split: sum.splits prod.splits)
  have r: "regs = map ucast (drop PREAMBLE_BYTES bytes)" "\<forall>v \<in> set (drop PREAMBLE_BYTES bytes). v \<le> 63"
    using regs by (simp_all add: host_registers_Inr)
  have "length regs = length (cx_registers cx (hs_inner s0))"
    using wf len by (simp add: r wf_hll_def num_registers_def lg)
  note w = cudax_ok_write [OF assms(1) this]
  have "\<forall>x \<in> set regs. unat x \<le> 63"
    using r(2) by (auto simp: r(1) word_le_nat_alt unsigned_ucast_eq take_bit_nat_eq_self)
  with wf w \<open>length regs = _\<close> have "wf_hll c cx s"
    by (simp add: s wf_hll_def num_registers_def)
  with that [OF pf _ _ r(2)] show ?thesis by (simp add: s lg w [unfolded r(1)] r(1))
qed

lemma hll_deserialize_returns:
  assumes "cudax_ok cx" and "no_faults w" and "parse_and_validate c bytes = Inr pf"
    and "valid_lg_k (pf_lgK pf)" and "\<forall>v \<in> set (drop PREAMBLE_BYTES bytes). v \<le> 63"
  shows "\<exists>s w'. hll_deserialize c cx bytes w = (Inr s, w')"
proof -
  obtain inner w1 where new: "cx_new cx (unat (pf_lgK pf)) w = (Inr inner, w1)" and w1: "no_faults w1"
    using cudax_ok_returns [OF assms(1,2), of "unat (pf_lgK pf)"] assms(4)
    by (auto simp: valid_lg_k_iff)
  let ?s = "\<lparr>hs_lg_config_k = pf_lgK pf, hs_tgt = HLL_8 c, hs_inner = inner\<rparr>"
  have con: "hll_construct c cx (pf_lgK pf) (HLL_8 c) w = (Inr ?s, w1)"
    by (simp add: hll_construct_def check_target_def new)
  have "host_registers (drop PREAMBLE_BYTES bytes) = Inr (map ucast (drop PREAMBLE_BYTES bytes))"
    using assms(5) by (simp add: host_registers_Inr)
  then have "\<exists>s'. load_registers cx bytes ?s w1 = (Inr (), s', w1)"
    using assms(3) image_registers [of bytes "2 ^ unat (pf_lgK pf)"]
    by (simp add: load_registers_def parse_and_validate_Inr cuda_try_no_faults [OF w1] Let_def)
  then obtain s' where "load_registers cx bytes ?s w1 = (Inr (), s', w1)" by blast
  with con assms(3) show ?thesis by (simp add: hll_deserialize_def dbind_def)
qed


section \<open>The compact flag\<close>

text \<open>
  Two preambles whose fields differ only in the compact flag differ only in the flags byte:
  every other write is common to both.
\<close>

lemma assemble_preamble_flag:
  assumes "format_ok c" and "i < 40" and "i \<noteq> FLAGS_BYTE c"
  shows "assemble_preamble c (f\<lparr>pf_is_compact := b\<rparr>) ! i = assemble_preamble c f ! i"
proof -
  let ?f = "f\<lparr>pf_is_compact := b\<rparr>"
  note ok = preamble_writes_ok [OF assms(1)]
  have rng: "ranges (preamble_writes c ?f) = ranges (preamble_writes c f)"
    by (simp add: preamble_writes_def)
  show ?thesis
  proof (cases "i \<in> set (ranges (preamble_writes c f))")
    case True
    then obtain off xs j where w: "(off, xs) \<in> set (preamble_writes c f)" "j < length xs" "i = off + j"
      by (fastforce simp: ranges_def dest: le_Suc_ex)
    have "(off, xs) \<noteq> (FLAGS_BYTE c, [pack_flags c f])" using w(2,3) assms(3) by auto
    then have w': "(off, xs) \<in> set (preamble_writes c ?f)"
      using w(1) by (auto simp: preamble_writes_def pack_mode_def)
    show ?thesis
      using nth_write_all [OF ok w(1,2)] nth_write_all [OF ok w' w(2)]
      by (simp add: assemble_preamble_writes [OF assms(1)] w(3))
  next
    case False
    then show ?thesis
      using nth_write_all_other [OF ok(1,2) _ False] nth_write_all_other [OF ok(1,2), of i ?f] assms(2)
      by (simp add: assemble_preamble_writes [OF assms(1)] rng)
  qed
qed

lemma assemble_preamble_flags_byte:
  assumes "format_ok c" shows "assemble_preamble c f ! FLAGS_BYTE c = pack_flags c f"
  by (rule read_preamble(2) [OF assms]) (simp_all add: preamble_writes_def)

lemma pack_flags_compact:
  "pack_flags c (f\<lparr>pf_is_compact := True\<rparr>) =
     pack_flags c (f\<lparr>pf_is_compact := False\<rparr>) OR COMPACT_FLAG_MASK c"
  by (simp add: pack_flags_def Let_def ac_simps)

end
