(* ===== verification/Hll_Accuracy.thy ===== *)
theory Hll_Accuracy
  imports Hll_Finalizer Accuracy
begin

text \<open>
  What the composite estimator computes in double arithmetic: the accuracy of the raw estimate
  of \<^verbatim>\<open>composite_finalizer.cuh\<close>, and the whole estimator on an empty sketch, where the raw
  estimate falls next to the first x value of the row.
\<close>

section \<open>The raw estimate\<close>

definition alpha :: "u8 \<Rightarrow> rat" where
  "alpha lg_k =
     (if lg_k = 4 then 673 / 1000 else if lg_k = 5 then 697 / 1000
      else if lg_k = 6 then 709 / 1000 else 7213 / 10000 / (1 + 1079 / 1000 / 2 ^ unat lg_k))"

lemma two_power_lg_k:
  assumes "valid_lg_k lg_k"
  shows "(16 :: rat) \<le> 2 ^ unat lg_k" and "(2 :: rat) ^ unat lg_k \<le> 2 ^ 18"
  using assms power_increasing [of 4 "unat lg_k" "2 :: rat"] power_increasing [of "unat lg_k" 18 "2 :: rat"]
  by (simp_all add: valid_lg_k_iff)

lemma f_of_config_k:
  assumes "valid_lg_k lg_k" shows "f_of_nat (unat (config_k lg_k)) = Fin (2 ^ unat lg_k)"
proof -
  have "(2 :: nat) ^ unat lg_k \<le> 2 ^ 18" using assms by (intro power_increasing) (simp_all add: valid_lg_k_iff)
  then have "f_of_nat (2 ^ unat lg_k) = Fin (of_nat (2 ^ unat lg_k))" by (intro f_of_nat_exact) simp
  then show ?thesis by (simp add: unat_config_k [OF valid_lg_k_le [OF assms]])
qed

lemma alpha_bounds:
  assumes "valid_lg_k lg_k" shows "1 / 2 \<le> alpha lg_k" and "alpha lg_k \<le> 1"
proof -
  define d :: rat where "d = 1079 / 1000 / 2 ^ unat lg_k"
  have "d \<le> 1079 / 1000 / 16" unfolding d_def
    using two_power_lg_k(1) [OF assms] by (intro divide_left_mono) simp_all
  moreover have "0 < d" by (simp add: d_def)
  ultimately have "1 / 2 \<le> 7213 / 10000 / (1 + d)" "7213 / 10000 / (1 + d) \<le> 1"
    by (simp_all add: le_divide_eq divide_le_eq)
  then show "1 / 2 \<le> alpha lg_k" "alpha lg_k \<le> 1" by (simp_all add: alpha_def d_def)
qed

lemma raw_estimate_near:
  assumes "valid_lg_k lg_k" and "1 / 2 ^ 60 \<le> z" and "z \<le> 2 ^ 21"
  shows "near 8 (alpha lg_k * 2 ^ unat lg_k * 2 ^ unat lg_k / z) (raw_estimate (Fin z) lg_k)"
proof -
  define K where "K = (2 :: rat) ^ unat lg_k"
  have K: "16 \<le> K" "K \<le> 2 ^ 18" "0 < K" using two_power_lg_k [OF assms(1)] by (simp_all add: K_def)
  have z: "0 < z" using assms(2) by (simp add: less_le_trans [of 0 "1 / 2 ^ 60"])
  note k = f_of_config_k [OF assms(1), folded K_def]
  let ?c = "if lg_k = 4 then f_lit (673 / 1000) else if lg_k = 5 then f_lit (697 / 1000)
    else if lg_k = 6 then f_lit (709 / 1000)
    else fdiv (f_lit (7213 / 10000)) (fadd (Fin 1) (fdiv (f_lit (1079 / 1000)) (Fin K)))"
  have lit: "near 1 (673 / 1000) (f_lit (673 / 1000))" "near 1 (697 / 1000) (f_lit (697 / 1000))"
    "near 1 (709 / 1000) (f_lit (709 / 1000))" "near 1 (7213 / 10000) (f_lit (7213 / 10000))"
    "near 1 (1079 / 1000) (f_lit (1079 / 1000))"
    by (intro near_lit; simp)+
  have nearK: "near 0 K (Fin K)" using K(3) by (simp add: near_Fin)
  have dk: "0 < 1079 / 1000 / K" "1079 / 1000 / 2 ^ 18 \<le> 1079 / 1000 / K" "1079 / 1000 / K \<le> 1079 / 1000 / 16"
    using K(3) frac_le [OF _ order_refl K(3,2), of "1079 / 1000"] frac_le [OF _ order_refl _ K(1), of "1079 / 1000"]
    by simp_all
  define D where "D = 1 + 1079 / 1000 / K"
  have D: "0 < D" unfolding D_def using dk(1) by linarith
  have "near 2 (1079 / 1000 / K) (fdiv (f_lit (1079 / 1000)) (Fin K))"
    by (rule near_fdiv [OF lit(5) nearK _ K(3) _ order_trans [OF _ dk(2)] order_trans [OF dk(3)]]) simp_all
  then have "near 3 D (fadd (Fin 1) (fdiv (f_lit (1079 / 1000)) (Fin K)))"
    unfolding D_def by (rule near_one_plus [OF _ dk(1) _ order_trans [OF dk(3)]]) simp_all
  then have "near 5 (7213 / 10000 / D)
      (fdiv (f_lit (7213 / 10000)) (fadd (Fin 1) (fdiv (f_lit (1079 / 1000)) (Fin K))))"
    if "1 / 2 \<le> 7213 / 10000 / D" "7213 / 10000 / D \<le> 1"
    by (rule near_fdiv [OF lit(4) _ _ D _ order_trans [OF _ that(1)] order_trans [OF that(2)]]) simp_all
  then have c: "near 5 (alpha lg_k) ?c"
    using near_mono [OF lit(1), of 5] near_mono [OF lit(2), of 5] near_mono [OF lit(3), of 5]
      alpha_bounds [OF assms(1)]
    unfolding alpha_def K_def [symmetric] D_def [symmetric] by (simp split: if_splits)
  note a = alpha_bounds [OF assms(1)]
  have aK: "1 / 2 \<le> alpha lg_k * K" "alpha lg_k * K \<le> 2 ^ 18"
    using mult_mono [OF a(1), of 1 K] mult_mono [OF a(2) K(2)] a K by simp_all
  have aKK: "1 / 2 \<le> alpha lg_k * K * K" "alpha lg_k * K * K \<le> 2 ^ 36"
    using mult_mono [OF aK(1), of 1 K] mult_mono [OF aK(2) K(2)] aK K by simp_all
  have q: "1 / 2 / 2 ^ 21 \<le> alpha lg_k * K * K / z" "alpha lg_k * K * K / z \<le> 2 ^ 36 / (1 / 2 ^ 60)"
    using aKK z assms(2,3) by (intro frac_le; simp)+
  have pos: "0 < alpha lg_k" "0 < alpha lg_k * K" "0 < alpha lg_k * K * K" using a(1) K(3) by simp_all
  have "near 6 (alpha lg_k * K) (fmul ?c (Fin K))"
    by (rule near_fmul [OF c nearK pos(1) K(3) _ order_trans [OF _ aK(1)] order_trans [OF aK(2)]]) simp_all
  then have "near 7 (alpha lg_k * K * K) (fmul (fmul ?c (Fin K)) (Fin K))"
    by (rule near_fmul [OF _ nearK pos(2) K(3) _ order_trans [OF _ aKK(1)] order_trans [OF aKK(2)]]) simp_all
  then have "near 8 (alpha lg_k * K * K / z) (fdiv (fmul (fmul ?c (Fin K)) (Fin K)) (Fin z))"
    using z by (intro near_fdiv [OF _ near_Fin pos(3) z _ order_trans [OF _ q(1)] order_trans [OF q(2)]]) simp_all
  then show ?thesis unfolding raw_estimate_def Let_def k K_def [symmetric] .
qed

section \<open>The first entries of the rows\<close>

text \<open>A claim on every precision of the tables is checked precision by precision.\<close>

lemma lg_k_cases:
  assumes "valid_lg_k lg_k" and "list_all (\<lambda>n. P (word_of_nat n)) [4..<19]"
  shows "P lg_k"
proof -
  have "unat lg_k \<in> set [4..<19]" using assms(1) unfolding set_upt valid_lg_k_iff atLeastLessThan_iff by linarith
  then have "P (word_of_nat (unat lg_k))" using assms(2) unfolding list_all_iff by blast
  then show ?thesis by simp
qed

lemma row_heads: "map (take 4) x_rows =
  [[10767999803534, 11237701481774, 11722738717438, 12223246391222],
   [22304000309384, 23261989079230, 24249656493833, 25267226901899],
   [45375999854524, 46820948326168, 48298703712049, 49809402685314],
   [91554623, 93970317, 96431113, 98937264],
   [183877784, 188720097, 193652407, 198675131],
   [368528954, 378224619, 388100156, 398155846],
   [737833738, 757236338, 776997875, 797119465],
   [1476444530, 1515260638, 1554794859, 1595048761],
   [2953666722, 3031310137, 3110389526, 3190908699],
   [5908111420, 6063410343, 6221578483, 6382623803],
   [11817000969, 12127609164, 12443958867, 12766059919],
   [23634780143, 24256008404, 24888717596, 25532934303],
   [47270338530, 48512804588, 49778235006, 51066679846],
   [94541455324, 97026403245, 99557280165, 102134178452],
   [189083688921, 194053597973, 199115342781, 204269157017]]"
  by code_simp

text \<open>
  The first entries are about a 32nd of the number of registers apart, and the raw estimate of
  an empty sketch is within \<open>2^-21\<close> above the first entry, if it is above at all.
\<close>

lemma x_exact_heads:
  assumes "valid_lg_k lg_k"
  shows "alpha lg_k * 2 ^ unat lg_k \<le> x_exact lg_k 0 + 1 / 2 ^ 21"
    and "x_exact lg_k 0 + 2 ^ unat lg_k / 60 \<le> x_exact lg_k 1"
    and "x_exact lg_k 1 + 2 ^ unat lg_k / 60 \<le> x_exact lg_k 2"
    and "x_exact lg_k 2 + 2 ^ unat lg_k / 60 \<le> x_exact lg_k 3"
    and "x_exact lg_k 3 \<le> x_exact lg_k 0 + 2 ^ unat lg_k / 10"
proof -
  have nth: "x_rows ! r ! i = map (take 4) x_rows ! r ! i" if "r < 15" "i < 4" for r i
    using that by (simp add: x_rows_split(1))
  have e: "x_exact lg_k i = of_int (map (take 4) x_rows ! (unat lg_k - 4) ! i) * x_unit (unat lg_k - 4)"
    if "i < 4" for i
  proof -
    have "unat lg_k - 4 < 15" using assms by (auto simp: valid_lg_k_iff)
    from nth [OF this that] show ?thesis by (simp add: x_exact_def)
  qed
  have heads: "x_exact lg_k 0 = of_int (map (take 4) x_rows ! (unat lg_k - 4) ! 0) * x_unit (unat lg_k - 4)"
    "x_exact lg_k 1 = of_int (map (take 4) x_rows ! (unat lg_k - 4) ! 1) * x_unit (unat lg_k - 4)"
    "x_exact lg_k 2 = of_int (map (take 4) x_rows ! (unat lg_k - 4) ! 2) * x_unit (unat lg_k - 4)"
    "x_exact lg_k 3 = of_int (map (take 4) x_rows ! (unat lg_k - 4) ! 3) * x_unit (unat lg_k - 4)"
    by (rule e; simp)+
  show "alpha lg_k * 2 ^ unat lg_k \<le> x_exact lg_k 0 + 1 / 2 ^ 21"
    unfolding heads row_heads
    by (rule lg_k_cases [OF assms]) (simp add: upt_rec x_unit_def alpha_def)
  show "x_exact lg_k 0 + 2 ^ unat lg_k / 60 \<le> x_exact lg_k 1"
    "x_exact lg_k 1 + 2 ^ unat lg_k / 60 \<le> x_exact lg_k 2"
    "x_exact lg_k 2 + 2 ^ unat lg_k / 60 \<le> x_exact lg_k 3"
    "x_exact lg_k 3 \<le> x_exact lg_k 0 + 2 ^ unat lg_k / 10"
    unfolding heads row_heads
    by (rule lg_k_cases [OF assms], simp add: upt_rec x_unit_def)+
qed

section \<open>The interpolation next to the first entry\<close>

lemma straddle_first:
  assumes "valid_lg_k lg_k" and "x_values_for lg_k 0 = Fin a" and "x_values_for lg_k 1 = Fin b"
    and "a \<le> r" and "r < b"
  shows "find_straddle (x_values_for lg_k) num_x_values (Fin r) = 0"
    and "\<not> feq (Fin r) (x_values_for lg_k (num_x_values - 1))"
    and "\<not> fless (x_values_for lg_k last_x_offset) (Fin r)"
proof -
  let ?i = "find_straddle (x_values_for lg_k) num_x_values (Fin r)"
  obtain z where z: "x_values_for lg_k 256 = Fin z"
    using x_values_for_Fin [OF assms(1), of 256] by auto
  have "b \<le> z" using x_values_for_mono [OF assms(1) _ _ assms(3) z] by simp
  then have rz: "r < z" using assms(5) by simp
  then show "\<not> feq (Fin r) (x_values_for lg_k (num_x_values - 1))"
    "\<not> fless (x_values_for lg_k last_x_offset) (Fin r)"
    by (simp_all add: last_x_offset_def num_x_values_def z)
  have "fless (Fin r) (x_values_for lg_k last_x_offset)" "\<not> fless (Fin r) (x_values_for lg_k 0)"
    using assms(2,4) rz by (simp_all add: last_x_offset_def num_x_values_def z)
  then have "fleq (x_values_for lg_k 1) (Fin r) \<longleftrightarrow> 1 \<le> ?i"
    using find_straddle_index [OF assms(1) refl _ _ refl] by (simp add: last_x_offset_def num_x_values_def)
  then show "?i = 0" using assms(3,5) by (simp add: fleq_def)
qed

text \<open>
  Lagrange terms next to the first of four entries that are \<open>2^e\<close> to \<open>2^(e + 3)\<close> apart: the
  cubic is small, since the first ordinate is zero and the others have a small factor.
\<close>

lemma cubic_next_to_first:
  assumes "mag (- 20) (fsub x x0)"
    and "mag (e + 3) (fsub x x1)" "mag (e + 3) (fsub x x2)" "mag (e + 3) (fsub x x3)"
    and "band e (e + 3) (fsub x0 x1)" "band e (e + 3) (fsub x0 x2)" "band e (e + 3) (fsub x0 x3)"
    and "band e (e + 3) (fsub x1 x0)" "band e (e + 3) (fsub x1 x2)" "band e (e + 3) (fsub x1 x3)"
    and "band e (e + 3) (fsub x2 x0)" "band e (e + 3) (fsub x2 x1)" "band e (e + 3) (fsub x2 x3)"
    and "band e (e + 3) (fsub x3 x0)" "band e (e + 3) (fsub x3 x1)" "band e (e + 3) (fsub x3 x2)"
    and "mag (- 100) y0" "mag (e + 4) y1" "mag (e + 4) y2" "mag (e + 4) y3" and "\<bar>e\<bar> \<le> 50"
  shows "mag (- 7) (cubic_interpolate x0 y0 x1 y1 x2 y2 x3 y3 x)"
proof -
  have denom: "band (3 * e) (3 * e + 9) (fmul (fmul p q) r)"
    if "band e (e + 3) p" "band e (e + 3) q" "band e (e + 3) r" for p q r
    using band_fmul [OF band_fmul [OF that(1,2)] that(3)] assms(21) by (simp add: algebra_simps)
  have numer: "mag (2 * e - 14) (fmul (fmul (fsub x x0) q) r)"
    if "mag (e + 3) q" "mag (e + 3) r" for q r
    using mag_fmul [OF mag_fmul [OF assms(1) that(1)] that(2)] assms(21) by (simp add: algebra_simps)
  have first: "mag (3 * e + 9) (fmul (fmul (fsub x x1) (fsub x x2)) (fsub x x3))"
    using mag_fmul [OF mag_fmul [OF assms(2,3)] assms(4)] assms(21) by (simp add: algebra_simps)
  have over: "mag (- 10) (fdiv (fmul y n) d)"
    if "mag (e + 4) y" "mag (2 * e - 14) n" "band (3 * e) (3 * e + 9) d" for y n d
    using mag_fdiv [OF mag_fmul [OF that(1,2)] that(3)] assms(21) by (simp add: algebra_simps)
  have t0: "mag (- 10) (fdiv (fmul y0 (fmul (fmul (fsub x x1) (fsub x x2)) (fsub x x3))) d)"
    if "band (3 * e) (3 * e + 9) d" for d
    using mag_mono [OF mag_fdiv [OF mag_fmul [OF assms(17) first] that]] assms(21) by simp
  have up: "mag (- 9) t" "mag (- 8) t" if "mag (- 10) t" for t
    using that by (auto intro: mag_mono)
  have sum: "mag (- 7) (fadd (fadd (fadd t0 t1) t2) t3)"
    if "mag (- 10) t0" "mag (- 10) t1" "mag (- 10) t2" "mag (- 10) t3" for t0 t1 t2 t3
    using mag_fadd [OF mag_fadd [OF mag_fadd [OF that(1,2)]], of t2 t3] up that(3,4) by simp
  show ?thesis unfolding cubic_interpolate_def Let_def
    by (intro sum t0 over numer denom assms)
qed


lemma first_ordinates:
  assumes "valid_lg_k lg_k" and "i \<le> 3"
  shows "mag (int (unat lg_k) - 2) (fmul (f_of_nat (unat (y_stride_for lg_k))) (f_of_nat i))"
proof -
  have s: "unat (y_stride_for lg_k) * 3 \<le> 2 ^ (unat lg_k - 2)"
    by (rule lg_k_cases [OF assms(1)])
      (simp add: upt_rec y_stride_for_def y_strides_def table_min_lg_k_def)
  have "unat (y_stride_for lg_k) * i \<le> unat (y_stride_for lg_k) * 3" using assms(2) by simp
  with s have le: "unat (y_stride_for lg_k) * i \<le> 2 ^ (unat lg_k - 2)" by linarith
  have "(2 :: nat) ^ (unat lg_k - 2) \<le> 2 ^ 16"
    using assms(1) by (intro power_increasing) (auto simp: valid_lg_k_iff)
  with s le have small: "unat (y_stride_for lg_k) < 2 ^ 53" "unat (y_stride_for lg_k) * i < 2 ^ 53"
    by simp_all
  have "fmul (f_of_nat (unat (y_stride_for lg_k))) (f_of_nat i) =
      Fin (of_nat (unat (y_stride_for lg_k) * i))"
    using f_of_nat_exact [OF small(1)] f_of_nat_exact [of i] fmul_of_nat [OF small(2)] assms(2) by simp
  moreover have "(of_nat (unat (y_stride_for lg_k) * i) :: rat) \<le> 2 ^ (unat lg_k - 2)"
    using le by (rule of_nat_le_power)
  moreover have "(2 :: rat) ^ (unat lg_k - 2) = 2 powi (int (unat lg_k) - 2)"
    using assms(1) power_int_of_nat [of "2 :: rat" "unat lg_k - 2"] by (simp add: valid_lg_k_iff of_nat_diff)
  ultimately show ?thesis by (simp del: of_nat_mult)
qed


lemma interpolate_next_to_first:
  assumes "valid_lg_k lg_k" and "x_values_for lg_k 0 = Fin a" and "a \<le> r" and "r \<le> a + 1 / 2 ^ 20"
  shows "mag (- 7) (interpolate_composite (x_values_for lg_k) (y_stride_for lg_k) (Fin r))"
    and "\<not> fless (x_values_for lg_k last_x_offset) (Fin r)"
proof -
  define P where "P = (2 :: rat) ^ unat lg_k"
  define e where "e = int (unat lg_k) - 6"
  have P: "16 \<le> P" using two_power_lg_k(1) [OF assms(1)] by (simp add: P_def)
  have e: "2 powi e = P / 64" "2 powi (e + 3) = P / 8" "\<bar>e\<bar> \<le> 50"
  proof -
    have "2 powi (int n - 6) = (2 :: rat) ^ n / 64" "2 powi (int n - 6 + 3) = (2 :: rat) ^ n / 8"
      for n by (simp_all add: power_int_diff power_int_add)
    then show "2 powi e = P / 64" "2 powi (e + 3) = P / 8" unfolding e_def P_def by blast+
    show "\<bar>e\<bar> \<le> 50" unfolding e_def using assms(1) unfolding valid_lg_k_iff by linarith
  qed
  obtain b where b: "x_values_for lg_k 1 = Fin b" "\<bar>b - x_exact lg_k 1\<bar> \<le> 1 / 2 ^ 32"
    using x_values_for_Fin [OF assms(1), of 1] by auto
  obtain c where c: "x_values_for lg_k 2 = Fin c" "\<bar>c - x_exact lg_k 2\<bar> \<le> 1 / 2 ^ 32"
    using x_values_for_Fin [OF assms(1), of 2] by auto
  obtain d where d: "x_values_for lg_k 3 = Fin d" "\<bar>d - x_exact lg_k 3\<bar> \<le> 1 / 2 ^ 32"
    using x_values_for_Fin [OF assms(1), of 3] by auto
  have a: "\<bar>a - x_exact lg_k 0\<bar> \<le> 1 / 2 ^ 32"
    using x_values_for_Fin [OF assms(1), of 0] assms(2) by auto
  note h = x_exact_heads [OF assms(1), folded P_def]
  have up: "a + P / 64 \<le> b" "b + P / 64 \<le> c" "c + P / 64 \<le> d" "d \<le> a + P / 8"
    using h(2-5) P a b(2) c(2) d(2) unfolding abs_le_iff by (simp_all add: field_simps)
  have r: "r + P / 128 \<le> b" using assms(4) up(1) P by simp
  have gaps: "band e (e + 3) (fsub (Fin v) (Fin w))"
    if "(v, w) \<in> {(a, b), (a, c), (a, d), (b, a), (b, c), (b, d), (c, a), (c, b), (c, d), (d, a), (d, b), (d, c)}" for v w
  proof -
    have "P / 64 \<le> \<bar>v - w\<bar> \<and> \<bar>v - w\<bar> \<le> P / 8" using that up P by (auto simp: abs_if)
    then show ?thesis using e(3) by (intro band_gap) (simp_all add: e(1,2))
  qed
  have far: "mag (e + 3) (fsub (Fin r) (Fin v))" if "v \<in> {b, c, d}" for v
  proof -
    have "\<bar>r - v\<bar> \<le> P / 8" using that up P r assms(3) by (auto simp: abs_if)
    then show ?thesis using e(3) by (intro mag_gap) (simp_all add: e(2))
  qed
  have near0: "mag (- 20) (fsub (Fin r) (Fin a))"
    using assms(3,4) by (intro mag_gap) (simp_all add: power_int_def power_one_over)
  note first = straddle_first [OF assms(1,2) b(1) assms(3)] 
  have rb: "r < b" using r P by linarith
  have y0: "mag (- 100) (fmul (f_of_nat (unat (y_stride_for lg_k))) (f_of_nat 0))"
  proof -
    have "unat (y_stride_for lg_k) \<le> 2 ^ 14" using y_stride_bounds(2) [OF assms(1)] .
    then have "f_of_nat (unat (y_stride_for lg_k)) = Fin (of_nat (unat (y_stride_for lg_k)))"
      by (intro f_of_nat_exact) simp
    then show ?thesis by (simp add: f_of_nat_def fp_round_def mag_def)
  qed
  have y: "mag (e + 4) (fmul (f_of_nat (unat (y_stride_for lg_k))) (f_of_nat i))" if "i \<le> 3" for i
    using first_ordinates [OF assms(1) that] by (simp add: e_def)
  have "mag (- 7) (cubic_interpolate (Fin a) (fmul (f_of_nat (unat (y_stride_for lg_k))) (f_of_nat 0))
      (Fin b) (fmul (f_of_nat (unat (y_stride_for lg_k))) (f_of_nat 1))
      (Fin c) (fmul (f_of_nat (unat (y_stride_for lg_k))) (f_of_nat 2))
      (Fin d) (fmul (f_of_nat (unat (y_stride_for lg_k))) (f_of_nat 3)) (Fin r))"
    using e(3) by (intro cubic_next_to_first [where e = e] near0 gaps far y0 y) simp_all
  then show "mag (- 7) (interpolate_composite (x_values_for lg_k) (y_stride_for lg_k) (Fin r))"
    using first(1,2) [OF rb]
    unfolding interpolate_composite_def Let_def straddle_base_def
    by (simp only: if_True if_False simp_thms add_0 assms(2) b(1) c(1) d(1))
  show "\<not> fless (x_values_for lg_k last_x_offset) (Fin r)"
    by (rule first(3) [OF rb])
qed


section \<open>The estimate of an empty sketch\<close>

text \<open>
  With only zero registers the harmonic sum is the number of registers. The raw estimate is
  below the first entry, and the estimate is zero; or it is just above it, the interpolated
  estimate is below the crossover, and linear counting gives zero.
\<close>

lemma composite_estimate_empty:
  assumes "numerics_ok c" and "valid_lg_k lg_k"
    and "bitmap_estimate c (config_k lg_k) lg_k = Fin 0"
  shows "composite_estimate c (Fin (2 ^ unat lg_k)) (config_k lg_k) lg_k = Fin 0"
proof -
  define P where "P = (2 :: rat) ^ unat lg_k"
  have P: "16 \<le> P" "P \<le> 2 ^ 18" using two_power_lg_k [OF assms(2)] by (simp_all add: P_def)
  note al = alpha_bounds [OF assms(2)]
  have "near 8 (alpha lg_k * P) (raw_estimate (Fin P) lg_k)"
    using raw_estimate_near [OF assms(2), of P] P by (simp add: P_def)
  then obtain r where r: "raw_estimate (Fin P) lg_k = Fin r" "r * shrink ^ 8 \<le> alpha lg_k * P"
    and r': "alpha lg_k * P * shrink ^ 8 \<le> r"
    by (auto simp: near_def)
  obtain a where a: "x_values_for lg_k 0 = Fin a" "\<bar>a - x_exact lg_k 0\<bar> \<le> 1 / 2 ^ 32"
    using x_values_for_Fin [OF assms(2), of 0] by auto
  show ?thesis
  proof (cases "r < a")
    case True
    then show ?thesis by (simp add: composite_estimate_def Let_def flip: P_def) (simp add: r(1) a(1))
  next
    case False
    have ap: "0 < alpha lg_k * P" "alpha lg_k * P \<le> 2 ^ 18"
      using al P mult_mono [OF al(2) P(2)] by simp_all
    have rr: "0 < r" "r \<le> alpha lg_k * P * 2" using near_range(2,3) [OF ap(1) r' r(2)] by simp_all
    have "r * (1 - 8 / 2 ^ 53) \<le> r * shrink ^ 8"
      using shrink_bound [of 8] rr(1) by (intro mult_left_mono) simp_all
    with r(2) rr(2) ap(2) have "r \<le> alpha lg_k * P + 1 / 2 ^ 30" by (simp add: field_simps)
    then have close: "r \<le> a + 1 / 2 ^ 20"
      using x_exact_heads(1) [OF assms(2)] a(2) unfolding abs_le_iff P_def by (simp add: field_simps)
    note i = interpolate_next_to_first [OF assms(2) a(1) _ close]
    let ?y = "interpolate_composite (x_values_for lg_k) (y_stride_for lg_k) (Fin r)"
    have y: "mag (- 7) ?y" using i(1) False by simp
    have "mag (- 6) (fadd ?y (Fin 0))" using mag_fadd [OF y, of "Fin 0"] by simp
    moreover have "band 1 1 (Fin 2)" by (simp add: band_def)
    ultimately have average: "mag (- 7) (fdiv (fadd ?y (Fin 0)) (Fin 2))"
      using mag_fdiv by fastforce
    have "unat (push_bit (unat lg_k) 3 :: u32) = 3 * 2 ^ unat lg_k"
      by (rule lg_k_cases [OF assms(2)]) (simp add: upt_rec push_bit_eq_mult)
    moreover have "(2 :: nat) ^ unat lg_k \<le> 2 ^ 18"
      using assms(2) by (intro power_increasing) (simp_all add: valid_lg_k_iff)
    ultimately have "spans 0 20 (f_of_nat (unat (push_bit (unat lg_k) 3 :: u32)))"
      by (intro spans_of_nat) simp_all
    then have three: "\<not> fless (f_of_nat (unat (push_bit (unat lg_k) 3 :: u32))) ?y"
      using not_fless_mag [OF spans_mono y, of 0 20 _ 20] by simp
    have "spans 1 0 (crossover lg_k)" by (simp add: crossover_def spans_lit)
    from spans_fmul [OF this spans_config_k [OF valid_lg_k_le [OF assms(2)]]]
    have "\<not> fless (fmul (crossover lg_k) (f_of_nat (unat (config_k lg_k)))) (fdiv (fadd ?y (Fin 0)) (Fin 2))"
      using not_fless_mag [OF _ average] by simp
    with three i(2) False show ?thesis
      by (simp add: composite_estimate_def Let_def assms(3) flip: P_def) (simp add: r(1) a(1))
  qed
qed

section \<open>Properties\<close>

text \<open>
  C34: for every precision of the tables and every \<open>z\<close> from \<open>2^-60\<close> to \<open>2^21\<close>, the raw estimate is
  the HyperLogLog estimate \<open>alpha m^2 / z\<close> with a relative error of at most \<open>2^-49\<close>: the
  roundings on the way, up to eight with those of the bias constant, do not add up to more.
\<close>

theorem hll_raw_estimate_accuracy:
  assumes "valid_lg_k lg_k" and "1 / 2 ^ 60 \<le> z" and "z \<le> 2 ^ 21"
    and "y = alpha lg_k * (2 ^ unat lg_k)\<^sup>2 / z"
  shows "\<exists>r. raw_estimate (Fin z) lg_k = Fin r \<and> \<bar>r - y\<bar> \<le> y / 2 ^ 49"
proof -
  have y: "y = alpha lg_k * 2 ^ unat lg_k * 2 ^ unat lg_k / z"
    by (simp add: assms(4) power2_eq_square mult.assoc)
  have "0 < z" using assms(2) by (simp add: less_le_trans [of 0 "1 / 2 ^ 60"])
  then have "0 < y" using alpha_bounds(1) [OF assms(1)] by (simp add: y)
  with near_error [of 8 y] raw_estimate_near [OF assms(1-3)] show ?thesis by (simp add: y)
qed

theorem hll_raw_estimate_accuracy_witness:
  "\<exists>r. raw_estimate (Fin 16) 4 = Fin r \<and> \<bar>r - 1346 / 125\<bar> \<le> 1346 / 125 / 2 ^ 49"
  by (rule hll_raw_estimate_accuracy) (simp_all add: valid_lg_k_iff alpha_def)

end
