(* ===== verification/Hll_Properties.thy ===== *)
theory Hll_Properties
  imports Hll_Image Hll_Accuracy
begin

text \<open>
  The properties of the HLL sketch, each with a witness on the reference instances: the numbers
  of the format, a cudax object that is a list, and the reference platform.
\<close>

section \<open>Instances\<close>

definition idle_device :: world where "idle_device = \<lparr>faults = [], scheds = []\<rparr>"

definition fresh_hll :: "(nat \<times> register_type list) hll_sketch" where
  "fresh_hll = \<lparr>hs_lg_config_k = 4, hs_tgt = 2, hs_inner = (4, replicate (2 ^ 4) 0)\<rparr>"

definition fed_hll :: "key list \<Rightarrow> (nat \<times> register_type list) hll_sketch" where
  "fed_hll keys = fresh_hll\<lparr>hs_inner :=
     (4, foldl (observe_key (hll_policy reference_platform) 4) (replicate (2 ^ 4) 0) keys)\<rparr>"

lemma no_faults_idle_device: "no_faults idle_device"
  by (simp add: no_faults_def idle_device_def)

lemma construct_fresh_hll:
  "hll_construct upstream_format list_cudax 4 2 idle_device = (Inr fresh_hll, idle_device)"
  by (simp add: hll_construct_def check_target_def upstream_format_def list_cudax_def fresh_hll_def
      dbind_def dreturn_def cuda_try_no_faults [OF no_faults_idle_device])

lemma update_fresh_hll:
  "hll_update list_cudax reference_platform keys fresh_hll idle_device =
     (Inr (), fed_hll keys, idle_device)"
  by (simp add: hll_update_def on_inner_def list_cudax_def list_add_def fresh_hll_def fed_hll_def
      cuda_try_no_faults [OF no_faults_idle_device])

lemma fed_hll_canon:
  "hll_canon upstream_format list_cudax 4 (fed_hll keys) (hll_hash reference_platform ` set keys)"
proof -
  have "hll_feed list_cudax reference_platform fresh_hll (hll_hash reference_platform ` set keys)
      (fed_hll keys)"
    unfolding hll_feed_def using update_fresh_hll by blast
  from hll_canon_feed [OF hll_canon_construct [OF cudax_ok_list construct_fresh_hll] this]
  show ?thesis by simp
qed

lemma update_fed:
  "hll_update list_cudax reference_platform keys (fed_hll ks) idle_device =
     (Inr (), fed_hll (ks @ keys), idle_device)"
  by (simp add: hll_update_def on_inner_def list_cudax_def list_add_def fresh_hll_def fed_hll_def
      cuda_try_no_faults [OF no_faults_idle_device])

lemma merge_fed:
  "hll_merge list_cudax (fed_hll ys) (fed_hll xs) idle_device =
     (Inr (), (fed_hll xs)\<lparr>hs_inner := (4, map2 max_register (snd (hs_inner (fed_hll xs)))
        (snd (hs_inner (fed_hll ys))))\<rparr>, idle_device)"
  by (simp add: hll_merge_def on_inner_def list_cudax_def list_merge_def fresh_hll_def fed_hll_def
      cuda_try_no_faults [OF no_faults_idle_device])

section \<open>Updates\<close>

text \<open>A client that updates a sketch batch by batch, stopping at the first exception.\<close>

fun hll_updates :: "'o cudax \<Rightarrow> platform \<Rightarrow> key list list \<Rightarrow> ('o, unit) hll_meth" where
  "hll_updates cx pf [] s w = (Inr (), s, w)"
| "hll_updates cx pf (ks # kss) s w =
     (case hll_update cx pf ks s w of
       (Inl e, s', w') \<Rightarrow> (Inl e, s', w')
     | (Inr _, s', w') \<Rightarrow> hll_updates cx pf kss s' w')"

lemma updates_fed:
  "hll_updates list_cudax reference_platform kss (fed_hll ks) idle_device =
     (Inr (), fed_hll (ks @ concat kss), idle_device)"
  by (induction kss arbitrary: ks) (simp_all add: update_fed)

lemma updates_fresh_hll:
  "hll_updates list_cudax reference_platform kss fresh_hll idle_device =
     (Inr (), fed_hll (concat kss), idle_device)"
proof -
  have "fed_hll [] = fresh_hll" by (simp add: fed_hll_def fresh_hll_def)
  with updates_fed [of kss "[]"] show ?thesis by simp
qed

lemma hll_updates_feeds:
  "hll_updates cx pf kss s w = (Inr (), s', w') \<Longrightarrow>
     hll_summaries.feeds cx pf s (map (\<lambda>ks. hll_hash pf ` set ks) kss) s'"
proof (induction cx pf kss s w rule: hll_updates.induct)
  case (1 cx pf s w)
  then show ?case by (simp add: hll_summaries.feeds.Nil)
next
  case (2 cx pf ks kss s w)
  then obtain s1 w1 where u: "hll_update cx pf ks s w = (Inr (), s1, w1)"
    and rest: "hll_updates cx pf kss s1 w1 = (Inr (), s', w')"
    by (auto split: prod.splits sum.splits)
  have "hll_feed cx pf s (hll_hash pf ` set ks) s1" unfolding hll_feed_def using u by blast
  from hll_summaries.feeds.Cons [OF this "2.IH" [OF u [symmetric] refl refl rest]] u
  show ?case by simp
qed

lemma hll_canon_fresh_update:
  assumes "cudax_ok cx" and "hll_construct c cx lgK tgt w = (Inr s0, w0)"
    and "hll_update cx pf keys s0 w1 = (Inr (), s, w2)"
  shows "hll_canon c cx lgK s (hll_hash pf ` set keys)"
proof -
  have "hll_feed cx pf s0 (hll_hash pf ` set keys) s" unfolding hll_feed_def using assms(3) by blast
  from hll_canon_feed [OF hll_canon_construct [OF assms(1,2)] this] show ?thesis by simp
qed

text \<open>
  C7: what the registers hold after updating a new sketch with any keys, read off the hashes. A key
  falls on the register that is its 128-bit hash modulo \<open>2^lgK\<close>, and reaches the value \<open>r > 0\<close> when the
  high half of the hash is below \<open>2^(65 - r)\<close>, that is when it starts with \<open>r - 1\<close> zero bits. Every
  register is at most 63, and is at least \<open>r\<close> exactly when one of its keys reaches \<open>r\<close>.
\<close>

theorem hll_update_registers:
  fixes pf s cx
  defines "hash \<equiv> \<lambda>k. unat (murmur pf 9001 (canonicalize k))"
    and "register \<equiv> \<lambda>i. unat (cx_registers cx (hs_inner s) ! i)"
  assumes "cudax_ok cx" and "hll_construct c cx lgK tgt w = (Inr s0, w0)"
    and "hll_update cx pf keys s0 w1 = (Inr (), s, w2)" and "i < 2 ^ unat lgK" and "r \<le> 63"
  shows "length (cx_registers cx (hs_inner s)) = 2 ^ unat lgK \<and> register i \<le> 63 \<and>
    (r \<le> register i \<longleftrightarrow>
      r = 0 \<or> (\<exists>k \<in> set keys. hash k mod 2 ^ unat lgK = i \<and> hash k div 2 ^ 64 < 2 ^ (65 - r)))"
proof -
  let ?p = "unat lgK" and ?R = "cx_registers cx (hs_inner s)"
  have hash: "hash k = unat (hll_hash pf k)" for k
    by (simp add: hash_def hll_hash_def normalizing_hash_def default_seed_def)
  have canon: "hll_canon c cx lgK s (hll_hash pf ` set keys)"
    by (rule hll_canon_fresh_update [OF assms(3-5)])
  then have wf: "wf_hll c cx s" and lg: "hs_lg_config_k s = lgK" by (simp_all add: hll_canon_def)
  then have p: "?p \<le> 32" and len: "length ?R = 2 ^ ?p"
    using valid_lg_k_bounds [of lgK] by (auto simp: wf_hll_def num_registers_def)
  define V where "V = insert 0 ((\<lambda>h. unat (register_value h ?p)) `
    {h \<in> hll_hash pf ` set keys. unat (register_index h ?p) = i})"
  have V: "register i = Max V" "finite V" "V \<noteq> {}"
    using canon assms(6) by (simp_all add: V_def register_def hll_canon_def wf_hll_def holds_def
        coupons_def num_registers_def)
  have "V \<subseteq> {..63}" using register_value_range by (auto simp: V_def)
  then have "register i \<le> 63" using Max_in [OF V(2,3)] V(1) by auto
  moreover have "r \<le> register i \<longleftrightarrow> (\<exists>v \<in> V. r \<le> v)" unfolding V(1) by (rule Max_ge_iff [OF V(2,3)])
  moreover have "(\<exists>v \<in> V. r \<le> v) \<longleftrightarrow>
      r = 0 \<or> (\<exists>k \<in> set keys. hash k mod 2 ^ ?p = i \<and> r \<le> unat (register_value (hll_hash pf k) ?p))"
    by (auto simp: V_def hash register_index_hash [OF p])
  ultimately show ?thesis using len register_value_ge_hash [OF _ assms(7)] by (auto simp: hash)
qed

theorem hll_update_registers_witness:
  "length (cx_registers list_cudax (hs_inner (fed_hll [Key_u64 (- 1)]))) = 16 \<and>
   unat (cx_registers list_cudax (hs_inner (fed_hll [Key_u64 (- 1)])) ! 4) = 63 \<and>
   unat (cx_registers list_cudax (hs_inner (fed_hll [Key_u64 (- 1)])) ! 3) = 0"
proof -
  have hash: "unat (murmur reference_platform 9001 (canonicalize (Key_u64 (- 1)))) = 0x61c8864680b5a714"
    by (simp add: reference_platform_def)
  note u = hll_update_registers [OF cudax_ok_list construct_fresh_hll update_fresh_hll, of _ _ "[Key_u64 (- 1)]"]
  show ?thesis using u [of 4 63] u [of 3 1] hash by simp
qed

text \<open>
  C8: the image, the estimate, the bounds and the emptiness of a sketch do not depend on how its
  keys were cut into batches, in which order they came, or how often.
\<close>

theorem hll_batches_irrelevant:
  assumes "cudax_ok cx" and "hll_construct c cx lgK tgt v = (Inr s0, v0)"
    and "hll_construct c cx lgK tgt' w = (Inr t0, w0)"
    and "hll_updates cx pf kss s0 v1 = (Inr (), s, v2)"
    and "hll_updates cx pf lss t0 w1 = (Inr (), t, w2)"
    and "set (concat kss) = set (concat lss)"
  shows "hll_serialize_compact c cx s = hll_serialize_compact c cx t \<and>
    hll_serialize_updatable c cx s = hll_serialize_updatable c cx t \<and>
    hll_get_estimate c cx s = hll_get_estimate c cx t \<and>
    hll_get_lower_bound c cx n s = hll_get_lower_bound c cx n t \<and>
    hll_get_upper_bound c cx n s = hll_get_upper_bound c cx n t \<and>
    hll_is_empty c cx s = hll_is_empty c cx t"
proof -
  have hashes: "\<Union> (set (map (\<lambda>ks. hll_hash pf ` set ks) kss)) = hll_hash pf ` set (concat kss)" for kss
    by auto
  have "hll_observe cx s = hll_observe cx t"
  proof (rule hll_summaries.batches_irrelevant)
    show "hll_canon c cx lgK s0 {}" "hll_canon c cx lgK t0 {}"
      using hll_canon_construct [OF assms(1)] assms(2,3) by blast+
    show "\<Union> (set (map (\<lambda>ks. hll_hash pf ` set ks) kss)) = \<Union> (set (map (\<lambda>ks. hll_hash pf ` set ks) lss))"
      unfolding hashes assms(6) ..
  qed (use hll_updates_feeds assms(4,5) in blast)+
  from reports_observe [OF this] show ?thesis
    by (simp add: hll_serialize_compact_def hll_serialize_updatable_def)
qed

text \<open>
  C9: merging the sketches of two inputs leaves the sketch of both inputs together: image,
  estimate and bounds are those of a sketch updated with the concatenation.
\<close>

theorem hll_merge_union:
  assumes "cudax_ok cx" and "hll_construct c cx lgK tgt w = (Inr s0, w0)"
    and "hll_update cx pf xs s0 w1 = (Inr (), s, w2)" and "hll_update cx pf ys s0 w3 = (Inr (), t, w4)"
    and "hll_update cx pf (xs @ ys) s0 w5 = (Inr (), u, w6)"
    and "hll_merge cx t s w7 = (Inr (), s', w8)"
  shows "hll_serialize_compact c cx s' = hll_serialize_compact c cx u \<and>
    hll_get_estimate c cx s' = hll_get_estimate c cx u \<and>
    hll_get_lower_bound c cx n s' = hll_get_lower_bound c cx n u \<and>
    hll_get_upper_bound c cx n s' = hll_get_upper_bound c cx n u"
proof -
  note canon = hll_canon_fresh_update [OF assms(1,2)]
  have "hll_join cx s t s'" unfolding hll_join_def using assms(6) by blast
  from hll_canon_join [OF canon [OF assms(3)] canon [OF assms(4)] this]
  have "hll_canon c cx lgK s' (hll_hash pf ` set (xs @ ys))" by (simp add: image_Un)
  from hll_summaries.canon_observe [OF this canon [OF assms(5)]]
  show ?thesis using reports_observe by (metis hll_serialize_compact_def)
qed


theorem hll_batches_irrelevant_witness:
  "hll_serialize_compact upstream_format list_cudax (fed_hll [Key_u64 1, Key_i8 2, Key_u64 1]) =
   hll_serialize_compact upstream_format list_cudax (fed_hll [Key_i8 2, Key_u64 1])"
  using hll_batches_irrelevant [OF cudax_ok_list construct_fresh_hll construct_fresh_hll updates_fresh_hll
      updates_fresh_hll, of "[[Key_u64 1], [Key_i8 2, Key_u64 1]]" "[[Key_i8 2, Key_u64 1]]"]
  by (auto simp del: hll_updates.simps)

theorem hll_merge_union_witness:
  "hll_get_estimate upstream_format list_cudax ((fed_hll [Key_u64 1])\<lparr>hs_inner := (4,
     map2 max_register (snd (hs_inner (fed_hll [Key_u64 1]))) (snd (hs_inner (fed_hll [Key_u64 2]))))\<rparr>) =
   hll_get_estimate upstream_format list_cudax (fed_hll [Key_u64 1, Key_u64 2])"
  using hll_merge_union [OF cudax_ok_list construct_fresh_hll update_fresh_hll update_fresh_hll, OF _ merge_fed,
      of "[Key_u64 1]" "[Key_u64 2]"] update_fresh_hll [of "[Key_u64 1, Key_u64 2]"]
  by simp

section \<open>Images\<close>

text \<open>
  C12: a serialized sketch, compact or updatable, is accepted again on a working device, and the
  sketch that comes back has the same precision, target and registers, so it reports the same.
\<close>

theorem hll_sketch_roundtrip:
  assumes "cudax_ok cx" and "format_ok c" and "wf_hll c cx s"
    and "hll_serialize c cx is_compact s w = (Inr bytes, w')" and "no_faults v"
  shows "\<exists>t v'. hll_deserialize c cx bytes v = (Inr t, v') \<and> get_lg_config_k t = get_lg_config_k s \<and>
    get_target_type t = get_target_type s \<and>
    cx_registers cx (hs_inner t) = cx_registers cx (hs_inner s)"
proof -
  let ?f = "snapshot_fields c is_compact s (snap_of c cx s)"
  let ?regs = "register_bytes (cx_registers cx (hs_inner s))"
  have bytes: "bytes = assemble_preamble c ?f @ ?regs"
    using hll_serialize_Inr [OF assms(3,4)] by (simp add: hll_image_def)
  have len: "length (assemble_preamble c ?f) = PREAMBLE_BYTES"
    using length_assemble_preamble [OF assms(2)] by (simp add: PREAMBLE_BYTES_def)
  have "checkLgK c (pf_lgK ?f) = Inr ()"
    using wf_hll_lg [OF assms(3)] assms(2) by (simp add: format_ok_def snapshot_fields_def)
  then have "parse_preamble c (assemble_preamble c ?f) = Inr ?f"
    by (intro parse_assemble [OF assms(2)]) (simp_all add: snapshot_fields_def)
  moreover have "length ?regs = 2 ^ unat (pf_lgK ?f)"
    using assms(3) by (simp add: wf_hll_def num_registers_def register_bytes_def snapshot_fields_def)
  ultimately have pf: "parse_and_validate c bytes = Inr ?f"
    by (simp add: parse_and_validate_Inr bytes len)
  have "\<forall>r \<in> set (cx_registers cx (hs_inner s)). unat r \<le> 63" using assms(3) by (simp add: wf_hll_def)
  note regs = ucast_register_bytes [OF this]
  have drop: "drop PREAMBLE_BYTES bytes = ?regs" by (simp add: bytes len)
  have "valid_lg_k (pf_lgK ?f)" using assms(3) by (simp add: wf_hll_def snapshot_fields_def)
  then obtain t v' where t: "hll_deserialize c cx bytes v = (Inr t, v')"
    using hll_deserialize_returns [OF assms(1,5) pf] regs(2) drop by auto
  obtain pf' where "parse_and_validate c bytes = Inr pf'" "hs_lg_config_k t = pf_lgK pf'"
    "wf_hll c cx t" "cx_registers cx (hs_inner t) = map ucast (drop PREAMBLE_BYTES bytes)"
    using hll_deserialize_Inr [OF assms(1) t] by blast
  with t pf regs(1) assms(3) show ?thesis
    by (auto simp: drop get_lg_config_k_def get_target_type_def wf_hll_def snapshot_fields_def)
qed

text \<open>
  C20: whatever the bytes, a sketch that deserialization returns is well formed, has the precision
  of the preamble and the registers of the image; and on a working device it returns exactly
  for the images with an accepted preamble, a precision up to 18, one byte per register and no
  register above 63. Everything else is an exception.
\<close>

theorem hll_deserialize_sound:
  assumes "cudax_ok cx"
  shows "(\<forall>s w'. hll_deserialize c cx bytes w = (Inr s, w') \<longrightarrow> wf_hll c cx s \<and>
      parse_preamble c (take PREAMBLE_BYTES bytes) \<in> Inr ` {pf. pf_lgK pf = hs_lg_config_k s} \<and>
      cx_registers cx (hs_inner s) = map ucast (drop PREAMBLE_BYTES bytes)) \<and>
    (no_faults w \<longrightarrow> ((\<exists>s w'. hll_deserialize c cx bytes w = (Inr s, w')) \<longleftrightarrow>
      PREAMBLE_BYTES \<le> length bytes \<and>
      (\<exists>pf. parse_preamble c (take PREAMBLE_BYTES bytes) = Inr pf \<and> valid_lg_k (pf_lgK pf) \<and>
         length bytes = PREAMBLE_BYTES + 2 ^ unat (pf_lgK pf)) \<and>
      (\<forall>v \<in> set (drop PREAMBLE_BYTES bytes). v \<le> 63)))"
proof -
  let ?pre = "PREAMBLE_BYTES \<le> length bytes \<and>
      (\<exists>pf. parse_preamble c (take PREAMBLE_BYTES bytes) = Inr pf \<and> valid_lg_k (pf_lgK pf) \<and>
         length bytes = PREAMBLE_BYTES + 2 ^ unat (pf_lgK pf)) \<and>
      (\<forall>v \<in> set (drop PREAMBLE_BYTES bytes). v \<le> 63)"
  have sound: "(wf_hll c cx s \<and>
      parse_preamble c (take PREAMBLE_BYTES bytes) \<in> Inr ` {pf. pf_lgK pf = hs_lg_config_k s} \<and>
      cx_registers cx (hs_inner s) = map ucast (drop PREAMBLE_BYTES bytes)) \<and> ?pre"
    if d: "hll_deserialize c cx bytes w = (Inr s, w')" for s w'
  proof -
    obtain pf where pf: "parse_and_validate c bytes = Inr pf" "hs_lg_config_k s = pf_lgK pf"
      and wf: "wf_hll c cx s" and r: "\<forall>v \<in> set (drop PREAMBLE_BYTES bytes). v \<le> 63"
      "cx_registers cx (hs_inner s) = map ucast (drop PREAMBLE_BYTES bytes)"
      using hll_deserialize_Inr [OF assms d] by blast
    have "valid_lg_k (pf_lgK pf)" using wf pf(2) by (simp add: wf_hll_def)
    with pf wf r show ?thesis by (simp add: parse_and_validate_Inr)
  qed
  have returns: "\<exists>s w'. hll_deserialize c cx bytes w = (Inr s, w')" if "no_faults w" and pre: ?pre
  proof -
    obtain pf where "parse_preamble c (take PREAMBLE_BYTES bytes) = Inr pf" "valid_lg_k (pf_lgK pf)"
      "length bytes = PREAMBLE_BYTES + 2 ^ unat (pf_lgK pf)" using pre by blast
    then show ?thesis
      using pre by (intro hll_deserialize_returns [OF assms \<open>no_faults w\<close>, of c bytes pf])
        (simp_all add: parse_and_validate_Inr)
  qed
  show ?thesis
  proof (intro conjI impI allI)
    show "(\<exists>s w'. hll_deserialize c cx bytes w = (Inr s, w')) \<longleftrightarrow> ?pre" if "no_faults w"
      using sound returns [OF that] by meson
  qed (use sound in meson)+
qed

text \<open>
  C33: the compact and the updatable image of a sketch have the same length and agree in every
  byte but the flags byte, where the compact image has the compact flag and the other has not.
\<close>

theorem hll_compact_updatable:
  assumes "format_ok c" and "wf_hll c cx s"
    and "hll_serialize_compact c cx s w = (Inr a, w')"
    and "hll_serialize_updatable c cx s v = (Inr b, v')"
  shows "length a = length b \<and> (\<forall>i < length a. i \<noteq> FLAGS_BYTE c \<longrightarrow> a ! i = b ! i) \<and>
    a ! FLAGS_BYTE c = b ! FLAGS_BYTE c OR COMPACT_FLAG_MASK c \<and>
    b ! FLAGS_BYTE c AND COMPACT_FLAG_MASK c = 0 \<and> a \<noteq> b"
proof -
  let ?f = "\<lambda>b. snapshot_fields c b s (snap_of c cx s)"
  let ?regs = "register_bytes (cx_registers cx (hs_inner s))"
  have a: "a = assemble_preamble c (?f True) @ ?regs"
    using hll_serialize_Inr [OF assms(2)] assms(3) by (simp add: hll_serialize_compact_def hll_image_def)
  have b: "b = assemble_preamble c (?f False) @ ?regs"
    using hll_serialize_Inr [OF assms(2)] assms(4) by (simp add: hll_serialize_updatable_def hll_image_def)
  have len: "length (assemble_preamble c f) = 40" for f by (rule length_assemble_preamble [OF assms(1)])
  have flags: "FLAGS_BYTE c < 40" using assms(1) by (simp add: format_ok_def field_ranges_def)
  have upd: "?f True = (?f False)\<lparr>pf_is_compact := True\<rparr>" "?f False = (?f False)\<lparr>pf_is_compact := False\<rparr>"
    by (simp_all add: snapshot_fields_def)
  have same: "a ! i = b ! i" if "i \<noteq> FLAGS_BYTE c" for i
    using assemble_preamble_flag [OF assms(1) _ that, where f = "?f False" and b = True] upd(1)
    by (simp add: a b nth_append len)
  have at: "a ! FLAGS_BYTE c = pack_flags c (?f True)" "b ! FLAGS_BYTE c = pack_flags c (?f False)"
    using flags by (simp_all add: a b nth_append len assemble_preamble_flags_byte [OF assms(1)])
  have "pack_flags c (?f True) = pack_flags c (?f False) OR COMPACT_FLAG_MASK c"
    using pack_flags_compact [of c "?f False"] upd by simp
  moreover have m: "pack_flags c (?f True) AND COMPACT_FLAG_MASK c \<noteq> 0"
    "pack_flags c (?f False) AND COMPACT_FLAG_MASK c = 0"
    using flags_apart(2) [OF assms(1), of "?f True"] flags_apart(2) [OF assms(1), of "?f False"]
    by (simp_all add: snapshot_fields_def)
  moreover have "a ! FLAGS_BYTE c \<noteq> b ! FLAGS_BYTE c" using m at by auto
  then have "a \<noteq> b" by auto
  moreover have "length a = length b" by (simp add: a b len)
  ultimately show ?thesis using same by (simp add: at)
qed


section \<open>Reports\<close>

lemma length_filter_all: "length (filter P xs) = length xs \<longleftrightarrow> (\<forall>x \<in> set xs. P x)"
proof (induction xs)
  case (Cons x xs)
  have "length (filter P xs) \<noteq> Suc (length xs)" using length_filter_le [of P xs] by linarith
  with Cons show ?case by simp
qed simp

lemma zeroes_register_bytes:
  assumes "\<forall>r \<in> set regs. unat r \<le> 63"
  shows "zeroes (register_bytes regs) = length (filter (\<lambda>r. r = 0) regs)"
proof -
  have "ucast r = (0 :: u8) \<longleftrightarrow> r = 0" if "unat r \<le> 63" for r :: register_type
    using that by (simp add: word_unat_eq_iff unsigned_ucast_eq take_bit_nat_eq_self)
  then have "filter (\<lambda>r. ucast r = (0 :: u8)) regs = filter (\<lambda>r. r = 0) regs"
    using assms by (intro filter_cong) simp_all
  then show ?thesis by (simp add: zeroes_def register_bytes_def filter_map comp_def)
qed

lemma snap_of_counts:
  assumes "numerics_ok c" and "wf_hll c cx s"
  shows "cur_min (snap_reduction (snap_of c cx s)) = 0"
    and "unat (num_at_cur_min (snap_reduction (snap_of c cx s))) =
      length (filter (\<lambda>r. r = 0) (cx_registers cx (hs_inner s)))"
proof -
  have len: "length (cx_registers cx (hs_inner s)) = 2 ^ unat (hs_lg_config_k s)"
    and regs: "\<forall>r \<in> set (cx_registers cx (hs_inner s)). unat r \<le> 63"
    using assms(2) by (simp_all add: wf_hll_def num_registers_def)
  from hll_reduced [OF assms(1) _ len] wf_hll_lg [OF assms(2)] zeroes_register_bytes [OF regs]
  show "cur_min (snap_reduction (snap_of c cx s)) = 0"
    and "unat (num_at_cur_min (snap_reduction (snap_of c cx s))) =
      length (filter (\<lambda>r. r = 0) (cx_registers cx (hs_inner s)))"
    by (simp_all add: snap_of_def)
qed

lemma snapshot_snap_of:
  "wf_hll c cx s \<Longrightarrow> snapshot c cx s w = (Inr snap, w') \<Longrightarrow> snap = snap_of c cx s"
  using snapshot_Inr by (metis snap_of_def)

lemma zero_registers_iff:
  assumes "hll_canon c cx lgK s (hll_hash pf ` set keys)"
  shows "(\<forall>r \<in> set (cx_registers cx (hs_inner s)). r = 0) \<longleftrightarrow> keys = []"
proof -
  let ?regs = "cx_registers cx (hs_inner s)" and ?H = "hll_hash pf ` set keys"
  have wf: "wf_hll c cx s" and lg: "hs_lg_config_k s = lgK" and h: "holds (unat lgK) ?regs ?H"
    using assms by (simp_all add: hll_canon_def)
  have len: "length ?regs = 2 ^ unat lgK" using h by (simp add: holds_def)
  show ?thesis
  proof
    assume zero: "\<forall>r \<in> set ?regs. r = 0"
    show "keys = []"
    proof (rule ccontr)
      assume "keys \<noteq> []"
      then have k: "hll_hash pf (hd keys) \<in> ?H" by simp
      let ?i = "unat (register_index (hll_hash pf (hd keys)) (unat lgK))"
      have i: "?i < 2 ^ unat lgK"
        using wf lg valid_lg_k_bounds by (intro register_index_less) (auto simp: wf_hll_def)
      have "unat (register_value (hll_hash pf (hd keys)) (unat lgK)) \<le> coupons (unat lgK) ?H ?i"
        unfolding coupons_def by (rule Max_ge) (use k in auto)
      moreover have "coupons (unat lgK) ?H ?i = 0"
      proof -
        have "?regs ! ?i = 0" using zero i len nth_mem [of ?i ?regs] by simp
        then show ?thesis using h i by (metis holds_def unsigned_0)
      qed
      ultimately show False using register_value_range [of "hll_hash pf (hd keys)" "unat lgK"] by simp
    qed
  next
    assume "keys = []"
    then have "unat (?regs ! i) = 0" if "i < 2 ^ unat lgK" for i
      using h that by (simp add: holds_def)
    then show "\<forall>r \<in> set ?regs. r = 0" using len by (auto simp: in_set_conv_nth word_unat_eq_iff)
  qed
qed

text \<open>
  C31: after an update of a new sketch it says it is empty exactly when the update had no key: every
  key leaves a register at 1 or more.
\<close>

theorem hll_is_empty_iff:
  assumes "numerics_ok c" and "cudax_ok cx" and "hll_construct c cx lgK tgt w = (Inr s0, w0)"
    and "hll_update cx pf keys s0 w1 = (Inr (), s, w2)"
    and "hll_is_empty c cx s w3 = (Inr e, w4)"
  shows "e \<longleftrightarrow> keys = []"
proof -
  let ?regs = "cx_registers cx (hs_inner s)" and ?H = "hll_hash pf ` set keys"
  have canon: "hll_canon c cx lgK s ?H" by (rule hll_canon_fresh_update [OF assms(2-4)])
  then have wf: "wf_hll c cx s" and lg: "hs_lg_config_k s = lgK" and h: "holds (unat lgK) ?regs ?H"
    by (simp_all add: hll_canon_def)
  have len: "length ?regs = 2 ^ unat lgK" using h by (simp add: holds_def)
  have "e \<longleftrightarrow> num_at_cur_min (snap_reduction (snap_of c cx s)) = config_k lgK"
    using assms(5) snapshot_snap_of [OF wf] by (auto simp: hll_is_empty_def lg)
  also have "\<dots> \<longleftrightarrow> length (filter (\<lambda>r. r = 0) ?regs) = length ?regs"
    using snap_of_counts(2) [OF assms(1) wf] wf_hll_lg [OF wf]
    by (simp add: word_unat_eq_iff lg unat_config_k len)
  also have "\<dots> \<longleftrightarrow> (\<forall>r \<in> set ?regs. r = 0)"
    by (rule length_filter_all)
  also have "\<dots> \<longleftrightarrow> keys = []" by (rule zero_registers_iff [OF canon])
  finally show ?thesis .
qed

lemma zero_registers_estimate:
  assumes "numerics_ok c" and wf: "wf_hll c cx t"
    and zero: "\<forall>r \<in> set (cx_registers cx (hs_inner t)). r = 0"
    and "hll_get_estimate c cx t w = (Inr e, w')"
  shows "e = Fin 0"
proof -
  let ?regs = "cx_registers cx (hs_inner t)"
  have lg: "hs_lg_config_k t \<le> 21" and valid: "valid_lg_k (hs_lg_config_k t)"
    and len: "length ?regs = 2 ^ unat (hs_lg_config_k t)"
    using wf wf_hll_lg [OF wf] by (simp_all add: wf_hll_def num_registers_def)
  have "?regs = replicate (2 ^ unat (hs_lg_config_k t)) 0"
    using zero len replicate_length_same [of ?regs 0] by simp
  then have z: "fadd (kxq0 (snap_reduction (snap_of c cx t))) (kxq1 (snap_reduction (snap_of c cx t))) =
      Fin (2 ^ unat (hs_lg_config_k t))"
    using empty_z [OF assms(1) lg] by (simp add: snap_of_def)
  have "num_at_cur_min (snap_reduction (snap_of c cx t)) = config_k (hs_lg_config_k t)"
    using snap_of_counts(2) [OF assms(1) wf] zero len unat_config_k [OF lg]
    by (simp add: word_unat_eq_iff)
  moreover have "e = estimate_from c (snap_reduction (snap_of c cx t)) (hs_lg_config_k t)"
    using assms(4) snapshot_snap_of [OF wf] by (auto simp: hll_get_estimate_def)
  ultimately show ?thesis
    using snap_of_counts(1) [OF assms(1) wf] composite_estimate_empty [OF assms(1) valid hll_empty_bitmap [OF assms(1) lg]]
    by (simp add: estimate_from_def composite_finalizer_def Let_def z)
qed

text \<open>
  C38: the estimate of a new sketch, and of one that has been updated with no keys, is exactly
  zero at every precision, through whichever branch of the estimator it comes.
\<close>

theorem hll_empty_estimate:
  assumes "numerics_ok c" and "cudax_ok cx" and "hll_construct c cx lgK tgt w = (Inr s0, w0)"
    and "hll_update cx pf [] s0 w1 = (Inr (), s, w2)" and "t \<in> {s0, s}"
    and "hll_get_estimate c cx t w3 = (Inr e, w4)"
  shows "e = Fin 0"
proof -
  have "hll_canon c cx lgK t (hll_hash pf ` set [])"
    using hll_canon_construct [OF assms(2,3)] hll_canon_fresh_update [OF assms(2-4)] assms(5) by auto
  then show ?thesis
    using zero_registers_iff [of c cx lgK t pf "[]"] zero_registers_estimate [OF assms(1) _ _ assms(6)]
    by (simp add: hll_canon_def)
qed

lemma lower_bound_value:
  assumes "numerics_ok c" and "wf_hll c cx s" and "hll_get_estimate c cx s w = (Inr e, v)"
    and "hll_get_lower_bound c cx n s w = (Inr b, w')"
  shows "b = fmax (fdiv e (fadd (Fin 1) (getRelErr c False True (hs_lg_config_k s) n)))
    (f_of_nat (length (filter (\<lambda>r. r \<noteq> 0) (cx_registers cx (hs_inner s)))))"
proof -
  let ?regs = "cx_registers cx (hs_inner s)"
  have len: "length ?regs = 2 ^ unat (hs_lg_config_k s)"
    using assms(2) by (simp add: wf_hll_def num_registers_def)
  note counts = snap_of_counts [OF assms(1,2)]
  have k: "unat (config_k (hs_lg_config_k s)) = length ?regs"
    using wf_hll_lg [OF assms(2)] by (simp add: unat_config_k len)
  have sum: "length (filter (\<lambda>r. r = 0) ?regs) + length (filter (\<lambda>r. r \<noteq> 0) ?regs) = length ?regs"
    by (rule sum_length_filter_compl)
  then have "num_at_cur_min (snap_reduction (snap_of c cx s)) \<le> config_k (hs_lg_config_k s)"
    using counts(2) k by (simp add: word_le_nat_alt)
  then have "unat (config_k (hs_lg_config_k s) - num_at_cur_min (snap_reduction (snap_of c cx s))) =
      length (filter (\<lambda>r. r \<noteq> 0) ?regs)"
    using counts(2) k sum by (simp add: unat_sub)
  moreover have "e = estimate_from c (snap_reduction (snap_of c cx s)) (hs_lg_config_k s)"
    using assms(3) snapshot_snap_of [OF assms(2)] by (auto simp: hll_get_estimate_def)
  ultimately show ?thesis
    using assms(4) counts(1) snapshot_snap_of [OF assms(2)]
    by (auto simp: hll_get_lower_bound_def Let_def split: sum.splits)
qed

lemma lower_bound_estimate:
  "hll_get_lower_bound c cx n s w = (Inr b, w') \<Longrightarrow> \<exists>e v. hll_get_estimate c cx s w = (Inr e, v)"
  by (auto simp: hll_get_lower_bound_def hll_get_estimate_def dbind_def dreturn_def dthrow_def
      split: sum.splits prod.splits)

text \<open>
  The lower bound is never below the number of registers that have been hit, which is a
  number of distinct keys that is certain.
\<close>

theorem hll_lower_bound_registers:
  assumes "numerics_ok c" and "wf_hll c cx s"
    and "hll_get_lower_bound c cx numStdDev s w = (Inr b, w')"
  shows "\<not> fless b (f_of_nat (length (filter (\<lambda>r. r \<noteq> 0) (cx_registers cx (hs_inner s)))))"
proof -
  obtain e v where "hll_get_estimate c cx s w = (Inr e, v)" using lower_bound_estimate [OF assms(3)] by blast
  moreover have "\<not> fless x x" for x by (cases x) auto
  ultimately show ?thesis
    using lower_bound_value [OF assms(1,2) _ assms(3)] by (auto simp: fmax_def split: if_splits)
qed

text \<open>
  C37: when every register is at 54 or more, the reduction has lost all of the harmonic sum and the
  estimate is infinite, although the sum is positive.
\<close>

theorem hll_saturated_estimate:
  assumes "numerics_ok c" and "wf_hll c cx s"
    and "\<forall>r \<in> set (cx_registers cx (hs_inner s)). 54 \<le> unat r"
    and "hll_get_estimate c cx s w = (Inr e, w')"
  shows "e = FInf False \<and> 0 < harmonic (register_bytes (cx_registers cx (hs_inner s)))"
proof -
  let ?regs = "cx_registers cx (hs_inner s)"
  have len: "length ?regs = 2 ^ unat (hs_lg_config_k s)"
    and le: "\<forall>r \<in> set ?regs. unat r \<le> 63" and valid: "valid_lg_k (hs_lg_config_k s)"
    using assms(2) by (simp_all add: wf_hll_def num_registers_def)
  have high: "\<forall>x \<in> set ?regs. (54 :: u8) \<le> ucast x"
    using assms(3) le by (auto simp: word_le_nat_alt unsigned_ucast_eq take_bit_nat_eq_self)
  note z = saturated_z [OF assms(1) _ len high]
  have lg: "hs_lg_config_k s \<le> 21" using wf_hll_lg [OF assms(2)] by simp
  have "e = estimate_from c (snap_reduction (snap_of c cx s)) (hs_lg_config_k s)"
    using assms(4) snapshot_snap_of [OF assms(2)] by (auto simp: hll_get_estimate_def)
  also have "\<dots> = FInf False"
    using z(1) [OF lg] by (simp add: estimate_from_def snap_of_def composite_finalizer_def
        composite_estimate_zero [OF valid] Let_def)
  finally show ?thesis using z(2) [OF lg] by simp
qed

section \<open>Witnesses\<close>

lemma wf_fed_hll: "wf_hll upstream_format list_cudax (fed_hll keys)"
  using fed_hll_canon by (simp add: hll_canon_def)

lemma snapshot_returns:
  assumes "no_faults w" and "wf_hll c cx s" shows "snapshot c cx s w = (Inr (snap_of c cx s), w)"
  using assms(2) by (simp add: snapshot_def snap_of_def Let_def dbind_def dreturn_def
      cuda_try_no_faults [OF assms(1)] wf_hll_def num_registers_def)

lemma hll_serialize_returns:
  assumes "no_faults w" and "wf_hll c cx s"
  shows "hll_serialize c cx b s w = (Inr (hll_image c cx b s), w)"
proof -
  have "\<exists>bytes. hll_serialize c cx b s w = (Inr bytes, w)"
    by (simp add: hll_serialize_def Let_def dbind_def dreturn_def snapshot_returns [OF assms])
  with hll_serialize_Inr [OF assms(2)] show ?thesis by blast
qed

theorem hll_sketch_roundtrip_witness:
  "\<exists>t v'. hll_deserialize upstream_format list_cudax
      (hll_image upstream_format list_cudax True (fed_hll [Key_u64 1])) idle_device = (Inr t, v') \<and>
     get_lg_config_k t = 4 \<and> get_target_type t = 2 \<and>
     cx_registers list_cudax (hs_inner t) = cx_registers list_cudax (hs_inner (fed_hll [Key_u64 1]))"
proof -
  have "get_lg_config_k (fed_hll [Key_u64 1]) = 4" "get_target_type (fed_hll [Key_u64 1]) = 2"
    by (simp_all add: get_lg_config_k_def get_target_type_def fed_hll_def fresh_hll_def)
  with hll_sketch_roundtrip [OF cudax_ok_list format_ok_upstream wf_fed_hll
      hll_serialize_returns [OF no_faults_idle_device wf_fed_hll] no_faults_idle_device]
  show ?thesis by metis
qed

theorem hll_deserialize_sound_witness:
  "\<nexists>s w'. hll_deserialize upstream_format list_cudax [] idle_device = (Inr s, w')"
  using hll_deserialize_sound [OF cudax_ok_list, of upstream_format "[]" idle_device] no_faults_idle_device
  by (simp add: PREAMBLE_BYTES_def)

theorem hll_compact_updatable_witness:
  "hll_image upstream_format list_cudax True (fed_hll [Key_u64 1]) \<noteq>
   hll_image upstream_format list_cudax False (fed_hll [Key_u64 1])"
  using hll_compact_updatable [OF format_ok_upstream wf_fed_hll]
    hll_serialize_returns [OF no_faults_idle_device wf_fed_hll]
  by (metis hll_serialize_compact_def hll_serialize_updatable_def)

theorem hll_is_empty_iff_witness:
  "hll_is_empty upstream_format list_cudax (fed_hll [Key_u64 7]) idle_device =
   (Inr False, idle_device)"
proof -
  have "\<exists>e. hll_is_empty upstream_format list_cudax (fed_hll [Key_u64 7]) idle_device =
      (Inr e, idle_device)"
    by (simp add: hll_is_empty_def dbind_def dreturn_def snapshot_returns [OF no_faults_idle_device wf_fed_hll])
  with hll_is_empty_iff [OF numerics_ok_upstream cudax_ok_list construct_fresh_hll update_fresh_hll]
  show ?thesis by (metis list.distinct(1))
qed

theorem hll_lower_bound_registers_witness:
  "\<exists>b. hll_get_lower_bound upstream_format list_cudax 2 (fed_hll []) idle_device =
     (Inr b, idle_device) \<and> \<not> fless b (f_of_nat 0)"
proof -
  have "checkNumStdDev upstream_format 2 = Inr ()" by (simp add: upstream_format_def)
  then have "\<exists>b. hll_get_lower_bound upstream_format list_cudax 2 (fed_hll []) idle_device =
      (Inr b, idle_device)"
    by (simp add: hll_get_lower_bound_def dbind_def dreturn_def Let_def
        snapshot_returns [OF no_faults_idle_device wf_fed_hll])
  moreover have "filter (\<lambda>r. r \<noteq> 0) (cx_registers list_cudax (hs_inner (fed_hll []))) = []"
    by (simp add: fed_hll_def list_cudax_def fresh_hll_def)
  ultimately show ?thesis
    using hll_lower_bound_registers [OF numerics_ok_upstream wf_fed_hll, of 2 "[]"] by fastforce
qed

definition saturated_hll :: "(nat \<times> register_type list) hll_sketch" where
  "saturated_hll = \<lparr>hs_lg_config_k = 4, hs_tgt = 2, hs_inner = (4, replicate (2 ^ 4) 63)\<rparr>"

theorem hll_saturated_estimate_witness:
  "hll_get_estimate upstream_format list_cudax saturated_hll idle_device =
   (Inr (FInf False), idle_device)"
proof -
  have wf: "wf_hll upstream_format list_cudax saturated_hll"
    by (simp add: wf_hll_def saturated_hll_def list_cudax_def valid_lg_k_iff num_registers_def
        upstream_format_def)
  have "\<exists>e. hll_get_estimate upstream_format list_cudax saturated_hll idle_device = (Inr e, idle_device)"
    by (simp add: hll_get_estimate_def dbind_def dreturn_def snapshot_returns [OF no_faults_idle_device wf])
  moreover have "\<forall>r \<in> set (cx_registers list_cudax (hs_inner saturated_hll)). 54 \<le> unat r"
    by (simp add: list_cudax_def saturated_hll_def)
  ultimately show ?thesis using hll_saturated_estimate [OF numerics_ok_upstream wf] by blast
qed

theorem hll_empty_estimate_witness:
  "hll_get_estimate upstream_format list_cudax fresh_hll idle_device = (Inr (Fin 0), idle_device)"
proof -
  have "fed_hll [] = fresh_hll" by (simp add: fed_hll_def fresh_hll_def)
  then have wf: "wf_hll upstream_format list_cudax fresh_hll" using wf_fed_hll [of "[]"] by simp
  have "\<exists>e. hll_get_estimate upstream_format list_cudax fresh_hll idle_device = (Inr e, idle_device)"
    by (simp add: hll_get_estimate_def dbind_def dreturn_def snapshot_returns [OF no_faults_idle_device wf])
  with hll_empty_estimate [OF numerics_ok_upstream cudax_ok_list construct_fresh_hll update_fresh_hll, of fresh_hll]
  show ?thesis by blast
qed

end
