(* ===== verification/Hll_Class.thy ===== *)
theory Hll_Class
  imports Hll_Properties
begin

text \<open>
  \<^verbatim>\<open>hll.hpp\<close> and the forwarding members of \<^verbatim>\<open>detail/hll/hll.inl\<close>: the public class
  \<^verbatim>\<open>hll_sketch\<close>, which owns one \<^verbatim>\<open>sketch_impl\<close>, and the sketches a program can get through its
  interface.
\<close>

section \<open>The class\<close>

record 'o hll_class =
  hc_impl :: "'o hll_sketch"

definition hll_forward ::
  "('o, unit) hll_meth \<Rightarrow> 'o hll_class \<Rightarrow> world \<Rightarrow> unit result \<times> 'o hll_class \<times> world" where
  "hll_forward m h w = (case m (hc_impl h) w of (r, s, w') \<Rightarrow> (r, h\<lparr>hc_impl := s\<rparr>, w'))"

definition hll_class_construct :: "hll_env \<Rightarrow> 'o cudax \<Rightarrow> u8 \<Rightarrow> u8 \<Rightarrow> 'o hll_class dev" where
  "hll_class_construct c cx lgK tgt =
     dbind (hll_construct c cx lgK tgt) (\<lambda>s. dreturn \<lparr>hc_impl = s\<rparr>)"

definition hll_class_update ::
  "'o cudax \<Rightarrow> platform \<Rightarrow> key list \<Rightarrow> 'o hll_class \<Rightarrow> world \<Rightarrow> unit result \<times> 'o hll_class \<times> world" where
  "hll_class_update cx pf keys = hll_forward (hll_update cx pf keys)"

definition hll_class_update_async ::
  "'o cudax \<Rightarrow> platform \<Rightarrow> key list \<Rightarrow> 'o hll_class \<Rightarrow> world \<Rightarrow> unit result \<times> 'o hll_class \<times> world" where
  "hll_class_update_async cx pf keys = hll_forward (hll_update_async cx pf keys)"

definition hll_class_get_estimate :: "hll_env \<Rightarrow> 'o cudax \<Rightarrow> 'o hll_class \<Rightarrow> fp dev" where
  "hll_class_get_estimate c cx h = hll_get_estimate c cx (hc_impl h)"

definition hll_class_get_lower_bound :: "hll_env \<Rightarrow> 'o cudax \<Rightarrow> u8 \<Rightarrow> 'o hll_class \<Rightarrow> fp dev" where
  "hll_class_get_lower_bound c cx numStdDev h = hll_get_lower_bound c cx numStdDev (hc_impl h)"

definition hll_class_get_upper_bound :: "hll_env \<Rightarrow> 'o cudax \<Rightarrow> u8 \<Rightarrow> 'o hll_class \<Rightarrow> fp dev" where
  "hll_class_get_upper_bound c cx numStdDev h = hll_get_upper_bound c cx numStdDev (hc_impl h)"

definition hll_class_merge ::
  "'o cudax \<Rightarrow> 'o hll_class \<Rightarrow> 'o hll_class \<Rightarrow> world \<Rightarrow> unit result \<times> 'o hll_class \<times> world" where
  "hll_class_merge cx other = hll_forward (hll_merge cx (hc_impl other))"

definition hll_class_merge_async ::
  "'o cudax \<Rightarrow> 'o hll_class \<Rightarrow> 'o hll_class \<Rightarrow> world \<Rightarrow> unit result \<times> 'o hll_class \<times> world" where
  "hll_class_merge_async cx other = hll_forward (hll_merge_async cx (hc_impl other))"

definition hll_class_get_lg_config_k :: "'o hll_class \<Rightarrow> u8" where
  "hll_class_get_lg_config_k h = get_lg_config_k (hc_impl h)"

definition hll_class_get_target_type :: "'o hll_class \<Rightarrow> u8" where
  "hll_class_get_target_type h = get_target_type (hc_impl h)"

definition hll_class_is_empty :: "hll_env \<Rightarrow> 'o cudax \<Rightarrow> 'o hll_class \<Rightarrow> bool dev" where
  "hll_class_is_empty c cx h = hll_is_empty c cx (hc_impl h)"

definition hll_class_num_registers :: "'o hll_class \<Rightarrow> nat" where
  "hll_class_num_registers h = num_registers (hc_impl h)"

definition hll_class_serialize_compact :: "hll_env \<Rightarrow> 'o cudax \<Rightarrow> 'o hll_class \<Rightarrow> u8 list dev" where
  "hll_class_serialize_compact c cx h = hll_serialize_compact c cx (hc_impl h)"

definition hll_class_serialize_updatable :: "hll_env \<Rightarrow> 'o cudax \<Rightarrow> 'o hll_class \<Rightarrow> u8 list dev" where
  "hll_class_serialize_updatable c cx h = hll_serialize_updatable c cx (hc_impl h)"

text \<open>\<open>deserialize\<close> makes the class from the sketch it loads.\<close>

definition hll_class_deserialize :: "hll_env \<Rightarrow> 'o cudax \<Rightarrow> u8 list \<Rightarrow> 'o hll_class dev" where
  "hll_class_deserialize c cx bytes =
     dbind (hll_deserialize c cx bytes) (\<lambda>s. dreturn \<lparr>hc_impl = s\<rparr>)"

text \<open>The default target of the constructor is HLL_8, the one that is accepted.\<close>

definition hll_class_default :: "hll_env \<Rightarrow> 'o cudax \<Rightarrow> u8 \<Rightarrow> 'o hll_class dev" where
  "hll_class_default c cx lgK = hll_class_construct c cx lgK (HLL_8 c)"

text \<open>
  The defaulted moves copy the scalar members and move the cudax object, which is left holding
  \<open>moved\<close> in the source.
\<close>

definition hll_move_construct :: "'o \<Rightarrow> 'o hll_sketch \<Rightarrow> 'o hll_sketch \<times> 'o hll_sketch" where
  "hll_move_construct moved source = (source, source\<lparr>hs_inner := moved\<rparr>)"

definition hll_move_assign :: "'o \<Rightarrow> 'o hll_sketch \<Rightarrow> 'o hll_sketch \<Rightarrow> 'o hll_sketch \<times> 'o hll_sketch" where
  "hll_move_assign moved target source = (source, source\<lparr>hs_inner := moved\<rparr>)"

section \<open>Reachable sketches\<close>

text \<open>
  What a program gets from calls that return: a sketch of a constructor or of \<open>deserialize\<close>, and
  what a mutating member that returns makes of such a sketch. A program that catches the
  exception of an update or a merge keeps a sketch that is not among these: what cudax leaves
  behind when it throws is not documented.
\<close>

inductive hll_reachable :: "hll_env \<Rightarrow> 'o cudax \<Rightarrow> platform \<Rightarrow> 'o hll_class \<Rightarrow> bool"
  for c :: hll_env and cx :: "'o cudax" and pf :: platform where
  construct: "hll_class_construct c cx lgK tgt w = (Inr h, w') \<Longrightarrow> hll_reachable c cx pf h"
| deserialize: "hll_class_deserialize c cx bytes w = (Inr h, w') \<Longrightarrow> hll_reachable c cx pf h"
| update: "hll_reachable c cx pf h \<Longrightarrow>
    hll_class_update cx pf keys h w = (Inr (), h', w') \<or>
    hll_class_update_async cx pf keys h w = (Inr (), h', w') \<Longrightarrow> hll_reachable c cx pf h'"
| merge: "hll_reachable c cx pf h \<Longrightarrow> hll_reachable c cx pf other \<Longrightarrow>
    hll_class_merge cx other h w = (Inr (), h', w') \<or>
    hll_class_merge_async cx other h w = (Inr (), h', w') \<Longrightarrow> hll_reachable c cx pf h'"

lemma hll_wrap:
  "dbind m (\<lambda>s. dreturn \<lparr>hc_impl = s\<rparr>) w = (Inr h, w') \<Longrightarrow> m w = (Inr (hc_impl h), w')"
  by (auto simp: dbind_def dreturn_def split: prod.splits sum.splits)

lemma hll_forward_impl:
  "hll_forward m h w = (r, h', w') \<Longrightarrow> m (hc_impl h) w = (r, hc_impl h', w')"
  by (auto simp: hll_forward_def split: prod.splits)

lemmas hll_class_ops = hll_class_update_def hll_class_update_async_def hll_class_merge_def
  hll_class_merge_async_def

text \<open>Whatever is in range stays in range when keys are added or arrays are joined.\<close>

abbreviation in_range :: "nat \<Rightarrow> register_type list \<Rightarrow> bool" where
  "in_range n regs \<equiv> length regs = n \<and> (\<forall>r \<in> set regs. unat r \<le> 63)"

lemma in_range_observe:
  assumes "in_range n regs" shows "in_range n (observe_key (hll_policy pf) p regs k)"
proof -
  let ?i = "unat (register_index (hll_hash pf k) p)"
  let ?v = "ucast (register_value (hll_hash pf k) p) :: register_type"
  have v: "unat ?v \<le> 63"
    using register_value_range [of "hll_hash pf k" p] by (simp add: unsigned_ucast_eq take_bit_nat_eq_self)
  have m: "unat (max_register r ?v) \<le> 63" if "unat r \<le> 63" for r
    using unat_max_register [OF that v] that v by simp
  show ?thesis
  proof (cases "?i < length regs")
    case True
    then have "unat (max_register (regs ! ?i) ?v) \<le> 63" using assms by (intro m) simp
    with assms show ?thesis
      by (auto simp: observe_key_def hll_policy_def Let_def dest!: set_update_subset_insert [THEN subsetD])
  qed (use assms in \<open>simp add: observe_key_def hll_policy_def Let_def list_update_beyond\<close>)
qed

lemma in_range_observe_all:
  "in_range n regs \<Longrightarrow> in_range n (foldl (observe_key (hll_policy pf) p) regs keys)"
proof (induction keys arbitrary: regs)
  case (Cons k keys)
  from Cons.IH [OF in_range_observe [OF Cons.prems]] show ?case by simp
qed simp

lemma in_range_merge:
  assumes "in_range n xs" and "in_range n ys" shows "in_range n (map2 max_register xs ys)"
proof -
  have "unat (max_register x y) \<le> 63" if "x \<in> set xs" "y \<in> set ys" for x y
    using that assms by (subst unat_max_register) auto
  with assms show ?thesis by (auto dest: set_zip_leftD set_zip_rightD)
qed

lemma wf_hll_change:
  assumes "wf_hll c cx s" and "cx_precision cx inner = cx_precision cx (hs_inner s)"
    and "in_range (num_registers s) (cx_registers cx inner)"
  shows "wf_hll c cx (s\<lparr>hs_inner := inner\<rparr>)"
  using assms by (simp add: wf_hll_def num_registers_def)

lemma wf_hll_feed:
  assumes "cudax_ok cx" and "wf_hll c cx s" and "hll_feed cx pf s K s'" shows "wf_hll c cx s'"
proof -
  obtain keys inner where s': "s' = s\<lparr>hs_inner := inner\<rparr>"
    and pr: "cx_precision cx inner = cx_precision cx (hs_inner s)"
    and regs: "cx_registers cx inner =
      foldl (observe_key (hll_policy pf) (cx_precision cx (hs_inner s))) (cx_registers cx (hs_inner s)) keys"
    using assms(3) cudax_ok_ops(1,2) [OF assms(1)] unfolding hll_feed_def hll_update_def
      hll_update_async_def on_inner_Inr adds_max_def by (elim exE conjE disjE) metis+
  show ?thesis unfolding s' using assms(2)
    by (intro wf_hll_change [OF assms(2) pr]) (unfold regs, intro in_range_observe_all, simp add: wf_hll_def)
qed

lemma wf_hll_join:
  assumes "cudax_ok cx" and "wf_hll c cx s" and "wf_hll c cx t" and "hll_join cx s t s'"
  shows "wf_hll c cx s'"
proof -
  obtain inner where s': "s' = s\<lparr>hs_inner := inner\<rparr>"
    and pr: "cx_precision cx (hs_inner t) = cx_precision cx (hs_inner s)"
      "cx_precision cx inner = cx_precision cx (hs_inner s)"
    and regs: "cx_registers cx inner =
      map2 max_register (cx_registers cx (hs_inner s)) (cx_registers cx (hs_inner t))"
    using assms(4) cudax_ok_ops(3,4) [OF assms(1)] unfolding hll_join_def hll_merge_def
      hll_merge_async_def on_inner_Inr merges_max_def by (elim exE conjE disjE) metis+
  have "num_registers t = num_registers s" using assms(2,3) pr(1) by (simp add: wf_hll_def num_registers_def)
  then show ?thesis unfolding s' using assms(2,3)
    by (intro wf_hll_change [OF assms(2) pr(2)]) (unfold regs, intro in_range_merge, simp_all add: wf_hll_def)
qed

lemma hll_reachable_wf:
  assumes "cudax_ok cx" and "hll_reachable c cx pf h" shows "wf_hll c cx (hc_impl h)"
  using assms(2)
proof (induction rule: hll_reachable.induct)
  case (construct lgK tgt w h w')
  from hll_canon_construct [OF assms(1) hll_wrap [OF this [unfolded hll_class_construct_def]]]
  show ?case by (simp add: hll_canon_def)
next
  case (deserialize bytes w h w')
  from hll_deserialize_Inr [OF assms(1) hll_wrap [OF this [unfolded hll_class_deserialize_def]]]
  show ?case by metis
next
  case (update h keys w h' w')
  then have "hll_feed cx pf (hc_impl h) (hll_hash pf ` set keys) (hc_impl h')"
    unfolding hll_class_ops hll_feed_def by (blast dest: hll_forward_impl)
  from wf_hll_feed [OF assms(1) update.IH this] show ?case .
next
  case (merge h other w h' w')
  then have "hll_join cx (hc_impl h) (hc_impl other) (hc_impl h')"
    unfolding hll_class_ops hll_join_def by (blast dest: hll_forward_impl)
  from wf_hll_join [OF assms(1) merge.IH this] show ?case .
qed

text \<open>
  C26: every sketch that comes from calls of the public interface that returned, in any order and
  number, has a precision from 4 to 18, the target HLL_8, as many registers as it says, each
  from 0 to 63; and on a working device it can be serialized either way, in 40 bytes and one per
  register. Nothing is claimed of a sketch whose update or merge has thrown.
\<close>

theorem hll_reachable_type:
  assumes "cudax_ok cx" and "format_ok c" and "hll_reachable c cx pf h"
  shows "wf_hll c cx (hc_impl h) \<and>
    4 \<le> unat (hll_class_get_lg_config_k h) \<and> unat (hll_class_get_lg_config_k h) \<le> 18 \<and>
    hll_class_get_target_type h = HLL_8 c \<and>
    length (cx_registers cx (hs_inner (hc_impl h))) = hll_class_num_registers h \<and>
    (\<forall>r \<in> set (cx_registers cx (hs_inner (hc_impl h))). unat r \<le> 63) \<and>
    (no_faults w \<longrightarrow> (\<exists>a b.
      hll_class_serialize_compact c cx h w = (Inr a, w) \<and> length a = 40 + hll_class_num_registers h \<and>
      hll_class_serialize_updatable c cx h w = (Inr b, w) \<and> length b = 40 + hll_class_num_registers h))"
proof -
  have wf: "wf_hll c cx (hc_impl h)" by (rule hll_reachable_wf [OF assms(1,3)])
  then have "length (hll_image c cx b (hc_impl h)) = 40 + hll_class_num_registers h" for b
    using length_assemble_preamble [OF assms(2)]
    by (simp add: hll_image_def register_bytes_def hll_class_num_registers_def wf_hll_def)
  with wf hll_serialize_returns [OF _ wf] show ?thesis
    by (auto simp: wf_hll_def valid_lg_k_iff hll_class_get_lg_config_k_def get_lg_config_k_def
        hll_class_get_target_type_def get_target_type_def hll_class_num_registers_def
        hll_class_serialize_compact_def hll_serialize_compact_def
        hll_class_serialize_updatable_def hll_serialize_updatable_def)
qed

theorem hll_reachable_type_witness:
  "hll_class_num_registers \<lparr>hc_impl = fed_hll [Key_u64 1]\<rparr> = 16 \<and>
   list_all (\<lambda>r. unat r \<le> 63) (cx_registers list_cudax (hs_inner (fed_hll [Key_u64 1])))"
proof -
  let ?r = "hll_reachable upstream_format list_cudax reference_platform"
  have "hll_class_construct upstream_format list_cudax 4 2 idle_device = (Inr \<lparr>hc_impl = fresh_hll\<rparr>, idle_device)"
    by (simp add: hll_class_construct_def dbind_def dreturn_def construct_fresh_hll)
  then have r: "?r \<lparr>hc_impl = fresh_hll\<rparr>" by (rule hll_reachable.construct)
  have "hll_class_update list_cudax reference_platform [Key_u64 1] \<lparr>hc_impl = fresh_hll\<rparr> idle_device =
      (Inr (), \<lparr>hc_impl = fed_hll [Key_u64 1]\<rparr>, idle_device)"
    by (simp add: hll_class_update_def hll_forward_def update_fresh_hll)
  with hll_reachable.update [OF r] have "?r \<lparr>hc_impl = fed_hll [Key_u64 1]\<rparr>" by blast
  from hll_reachable_type [OF cudax_ok_list format_ok_upstream this] show ?thesis
    by (simp add: hll_class_num_registers_def num_registers_def fed_hll_def fresh_hll_def list_all_iff)
qed

end
