(* ===== verification/Hll_Interpolation.thy ===== *)
theory Hll_Interpolation
  imports Hll_Accuracy
begin

text \<open>
  The cubic interpolation of \<^verbatim>\<open>composite_finalizer.cuh\<close> at any x value of its table and anywhere
  between the first and the last: at an x value it returns the ordinate of that value, and it
  never leaves the finite doubles. With the other branches of the estimator this shows that
  an estimate is never NaN.
\<close>

section \<open>Zeros and finite results\<close>

definition is_zero :: "fp \<Rightarrow> bool" where
  "is_zero x \<longleftrightarrow> x = FNegZero \<or> x = Fin 0"

definition finite_fp :: "fp \<Rightarrow> bool" where
  "finite_fp x \<longleftrightarrow> x \<noteq> FNaN \<and> (\<forall>s. x \<noteq> FInf s)"

lemma mag_finite: "mag b x \<Longrightarrow> finite_fp x"
  by (auto simp: mag_def finite_fp_def)

lemma sized_mag: "sized n x \<Longrightarrow> mag (int n) x"
  by (auto simp: sized_def mag_def)

lemma spans_mag:
  assumes "spans a b x" shows "mag (int b) x"
proof -
  obtain v where "x = Fin v" "v \<le> 2 ^ b" "0 < v" using assms by (rule spans_cases)
  then show ?thesis by simp
qed

lemma zero_fmul:
  assumes "mag b y" and "is_zero x" shows "is_zero (fmul x y)" and "is_zero (fmul y x)"
  using assms by (auto elim!: mag_cases simp: is_zero_def fp_round_def split: if_splits)

lemma zero_fdiv:
  assumes "is_zero x" and "band a b y" shows "is_zero (fdiv x y)"
proof -
  obtain w where "y = Fin w" "2 powi a \<le> \<bar>w\<bar>" using assms(2) by (auto simp: band_def)
  moreover from this have "w \<noteq> 0" using powi_pos [of a] by (metis abs_zero not_le)
  ultimately show ?thesis using assms(1) by (auto simp: is_zero_def fp_round_def split: if_splits)
qed

lemma zero_fadd: "is_zero x \<Longrightarrow> is_zero y \<Longrightarrow> is_zero (fadd x y)"
  by (auto simp: is_zero_def fp_round_def)

lemma band_mag: "band a b x \<Longrightarrow> mag b x"
  by (auto simp: band_def)

lemma zero_mag: "is_zero x \<Longrightarrow> mag b x"
  using powi_pos [of b] by (auto simp: is_zero_def mag_def)

text \<open>A double: what a rounding leaves finite is representable and below the overflow.\<close>

definition double :: "fp \<Rightarrow> bool" where
  "double x \<longleftrightarrow> (\<forall>v. x = Fin v \<longrightarrow> fp_round False v = x)"

lemma rnd64_is_representable: "representable (rnd64 x)"
proof (cases "x = 0")
  case False
  let ?m = "round_half_even (x / 2 powi ulp_exp x)" and ?u = "(2 :: rat) powi ulp_exp x"
  have u: "0 < ?u" "- 1074 \<le> ulp_exp x" by (simp_all add: ulp_exp_def)
  have "\<bar>x\<bar> < 2 powi (ilog2 \<bar>x\<bar> + 1)" using False by (intro ilog2_less) simp
  also have "\<dots> \<le> 2 powi (53 + ulp_exp x)" by (intro power_int_increasing) (simp_all add: ulp_exp_def)
  also have "\<dots> = 2 ^ 53 * ?u" by (simp add: power_int_add)
  finally have "\<bar>x / ?u\<bar> < 2 ^ 53" using u(1) by (simp add: abs_div pos_divide_less_eq)
  then have "x / ?u < 2 ^ 53 \<and> - (x / ?u) < 2 ^ 53" by (simp only: abs_less_iff)
  then have "x / ?u \<le> of_int (2 ^ 53)" "- (x / ?u) \<le> of_int (2 ^ 53)" by simp_all
  then have m: "?m \<le> 2 ^ 53" "- ?m \<le> 2 ^ 53"
    using round_half_even_le round_half_even_minus by metis+
  have x: "rnd64 x = of_int ?m * ?u" using False by (simp add: rnd64_def)
  show ?thesis
  proof (cases "\<bar>?m\<bar> < 2 ^ 53")
    case True
    with u(2) show ?thesis unfolding x representable_def by blast
  next
    case False
    then have "?m = 2 ^ 53 \<or> ?m = - (2 ^ 53)" using m by linarith
    then have "rnd64 x = 2 powi (53 + ulp_exp x) \<or> rnd64 x = - (2 powi (53 + ulp_exp x))"
      unfolding x by (auto simp: power_int_add)
    moreover have "representable (2 powi (53 + ulp_exp x))" using u(2) by (intro representable_power) simp
    ultimately show ?thesis by auto
  qed
qed simp

lemma double_round: "double (fp_round neg x)"
proof -
  have "representable (rnd64 x)" by (rule rnd64_is_representable)
  then show ?thesis by (auto simp: double_def fp_round_def Let_def rnd64_representable split: if_splits)
qed

lemma add_zero:
  assumes "double x" and "finite_fp x" and "\<not> is_zero x" and "is_zero t"
  shows "fadd x t = x" and "fadd t x = x"
proof -
  obtain v where "x = Fin v" using assms(2,3) by (cases x) (auto simp: finite_fp_def is_zero_def)
  with assms(1,4) show "fadd x t = x" "fadd t x = x" by (auto simp: double_def is_zero_def)
qed


section \<open>The value at a knot\<close>

text \<open>A product divided by its second factor is the first one again, within two roundings.\<close>

lemma near_cancel:
  assumes "1 / 2 ^ 100 \<le> y" and "y \<le> 2 ^ 100" and "band a b n" and "\<bar>a\<bar> \<le> 100" and "\<bar>b\<bar> \<le> 100"
  shows "near 2 y (fdiv (fmul (Fin y) n) n)"
proof -
  obtain w where w: "n = Fin w" "2 powi a \<le> \<bar>w\<bar>" "\<bar>w\<bar> \<le> 2 powi b" using assms(3) by (auto simp: band_def)
  have w0: "0 < \<bar>w\<bar>" using w(2) powi_pos [of a] by linarith
  have "(2 :: rat) powi (- 100) \<le> 2 powi a" "(2 :: rat) powi b \<le> 2 powi 100"
    using assms(4,5) by (intro power_int_increasing; simp)+
  then have r: "1 / 2 ^ 100 \<le> \<bar>w\<bar>" "\<bar>w\<bar> \<le> 2 ^ 100"
    using w(2,3) by (simp_all add: power_int_def power_one_over)
  have y0: "0 < y" using assms(1) by (rule less_le_trans [rotated]) simp
  have lo: "1 / 2 ^ 200 \<le> y * \<bar>w\<bar>" and hi: "y * \<bar>w\<bar> \<le> 2 ^ 200"
    using mult_mono [OF assms(1) r(1)] mult_mono [OF assms(2) r(2)] y0 by simp_all
  have "near 1 (y * \<bar>w\<bar>) (fp_round False (y * \<bar>w\<bar>))"
    using near_round [of "y * \<bar>w\<bar>" 0 "y * \<bar>w\<bar>"] lo hi by simp
  then obtain v where v: "fp_round False (y * \<bar>w\<bar>) = Fin v"
    "y * \<bar>w\<bar> * shrink \<le> v" "v * shrink \<le> y * \<bar>w\<bar>"
    by (auto simp: near_def)
  have v0: "0 < v" using near_range(3) [of "y * \<bar>w\<bar>" 1 v] v(2,3) y0 w0 by simp
  then have rnd: "rnd64 (y * \<bar>w\<bar>) = v" "v < 2 ^ 1024"
    using v(1) by (auto simp: fp_round_def Let_def split: if_splits)
  have "fmul (Fin y) n = Fin (if w < 0 then - v else v)"
    using rnd v0 y0 by (auto simp: w(1) fp_round_def Let_def rnd64_minus abs_if split: if_splits)
  then have "fdiv (fmul (Fin y) n) n = fp_round False (v / \<bar>w\<bar>)"
    using w0 v0 by (auto simp: w(1) abs_if)
  moreover have "y * shrink ^ 1 \<le> v / \<bar>w\<bar>" "v / \<bar>w\<bar> * shrink ^ 1 \<le> y"
    using v(2,3) w0 by (simp_all add: pos_le_divide_eq pos_divide_le_eq ac_simps)
  then have "near 2 y (fp_round False (v / \<bar>w\<bar>))"
    using near_round [of y 1] order_trans [OF _ assms(1), of "1 / 2 ^ 200"] order_trans [OF assms(2), of "2 ^ 200"]
    by (simp add: numeral_2_eq_2)
  ultimately show ?thesis by simp
qed


lemma double_fdiv: "double (fdiv x y)"
  by (cases x; cases y) (auto simp: double_round, auto simp: double_def fp_round_def)

text \<open>Four points that are told apart, and the differences of any number to them.\<close>

definition apart :: "fp \<Rightarrow> fp \<Rightarrow> fp \<Rightarrow> fp \<Rightarrow> bool" where
  "apart x0 x1 x2 x3 \<longleftrightarrow>
     (\<forall>i < 4. \<forall>j < 4. if i = j then fsub ([x0, x1, x2, x3] ! i) ([x0, x1, x2, x3] ! j) = Fin 0
        else band (- 4) 22 (fsub ([x0, x1, x2, x3] ! i) ([x0, x1, x2, x3] ! j)))"

lemma apartD:
  assumes "apart x0 x1 x2 x3"
  shows "fsub x0 x0 = Fin 0" "fsub x1 x1 = Fin 0" "fsub x2 x2 = Fin 0" "fsub x3 x3 = Fin 0"
    and "band (- 4) 22 (fsub x0 x1)" "band (- 4) 22 (fsub x0 x2)" "band (- 4) 22 (fsub x0 x3)"
    and "band (- 4) 22 (fsub x1 x0)" "band (- 4) 22 (fsub x1 x2)" "band (- 4) 22 (fsub x1 x3)"
    and "band (- 4) 22 (fsub x2 x0)" "band (- 4) 22 (fsub x2 x1)" "band (- 4) 22 (fsub x2 x3)"
    and "band (- 4) 22 (fsub x3 x0)" "band (- 4) 22 (fsub x3 x1)" "band (- 4) 22 (fsub x3 x2)"
  using assms by (simp_all add: apart_def All_less_Suc numeral_eq_Suc)

lemma band_three:
  "band (- 4) 22 p \<Longrightarrow> band (- 4) 22 q \<Longrightarrow> band (- 4) 22 r \<Longrightarrow> band (- 12) 66 (fmul (fmul p q) r)"
  using band_fmul [of "- 8" 44 "fmul p q" "- 4" 22 r] band_fmul [of "- 4" 22 p "- 4" 22 q] by simp

lemma mag_three: "mag 22 p \<Longrightarrow> mag 22 q \<Longrightarrow> mag 22 r \<Longrightarrow> mag 66 (fmul (fmul p q) r)"
  using mag_fmul [of 44 "fmul p q" 22 r] mag_fmul [of 22 p 22 q] by simp

lemma zero_three:
  assumes "mag 22 p" "mag 22 q" "mag 22 r" and "is_zero p \<or> is_zero q \<or> is_zero r"
  shows "is_zero (fmul (fmul p q) r)"
  using assms mag_fmul [of 22 p 22 q] by (auto intro: zero_fmul)

lemma zero_term:
  "mag 22 y \<Longrightarrow> is_zero n \<Longrightarrow> band (- 12) 66 d \<Longrightarrow> is_zero (fdiv (fmul y n) d)"
  by (intro zero_fdiv zero_fmul(2))

lemma sum_of_zeros:
  assumes "near 2 y t" and "double t" and "0 < y" and "is_zero a" "is_zero b" "is_zero c"
  shows "fadd (fadd (fadd a t) b) c = t" and "fadd (fadd (fadd a b) t) c = t"
proof -
  obtain v where v: "t = Fin v" "y * shrink ^ 2 \<le> v" "v * shrink ^ 2 \<le> y"
    using assms(1) by (auto simp: near_def)
  then have t: "finite_fp t" "\<not> is_zero t"
    using near_range(3) [OF assms(3) v(2,3)] by (simp_all add: finite_fp_def is_zero_def)
  note add = add_zero [OF assms(2) t]
  show "fadd (fadd (fadd a t) b) c = t" "fadd (fadd (fadd a b) t) c = t"
    using add assms(4-6) zero_fadd [of a b] by simp_all
qed

lemma cubic_at_knots:
  assumes "apart x0 x1 x2 x3" and "mag 22 y0" "mag 22 y1" "mag 22 y2" "mag 22 y3"
  shows "is_zero y0 \<Longrightarrow> is_zero (cubic_interpolate x0 y0 x1 y1 x2 y2 x3 y3 x0)"
    and "y1 = Fin y \<Longrightarrow> 1 \<le> y \<Longrightarrow> near 2 y (cubic_interpolate x0 y0 x1 y1 x2 y2 x3 y3 x1)"
    and "y2 = Fin y \<Longrightarrow> 1 \<le> y \<Longrightarrow> near 2 y (cubic_interpolate x0 y0 x1 y1 x2 y2 x3 y3 x2)"
proof -
  note a = apartD [OF assms(1)]
  have z: "is_zero (Fin 0)" by (simp add: is_zero_def)
  note m = band_mag [OF a(5)] band_mag [OF a(6)] band_mag [OF a(7)] band_mag [OF a(8)]
    band_mag [OF a(9)] band_mag [OF a(10)] band_mag [OF a(11)] band_mag [OF a(12)] band_mag [OF a(13)]
    band_mag [OF a(14)] band_mag [OF a(15)] band_mag [OF a(16)] zero_mag [OF z]
  have d: "band (- 12) 66 (fmul (fmul (fsub x0 x1) (fsub x0 x2)) (fsub x0 x3))"
    "band (- 12) 66 (fmul (fmul (fsub x1 x0) (fsub x1 x2)) (fsub x1 x3))"
    "band (- 12) 66 (fmul (fmul (fsub x2 x0) (fsub x2 x1)) (fsub x2 x3))"
    "band (- 12) 66 (fmul (fmul (fsub x3 x0) (fsub x3 x1)) (fsub x3 x2))"
    by (intro band_three a)+
  have y: "near 2 y (fdiv (fmul (Fin y) n) n)" if "1 \<le> y" "Fin y \<in> {y1, y2}" "band (- 12) 66 n" for n
  proof -
    have "y \<le> 2 ^ 22" using that(1,2) assms(3,4) by auto
    with that(1) have "1 / 2 ^ 100 \<le> y" "y \<le> 2 ^ 100" by (simp_all add: divide_le_eq)
    then show ?thesis using that(3) by (rule near_cancel) simp_all
  qed
  show "is_zero (cubic_interpolate x0 y0 x1 y1 x2 y2 x3 y3 x0)" if "is_zero y0"
  proof -
    have "is_zero (fdiv (fmul y0 (fmul (fmul (fsub x0 x1) (fsub x0 x2)) (fsub x0 x3)))
        (fmul (fmul (fsub x0 x1) (fsub x0 x2)) (fsub x0 x3)))"
      by (rule zero_fdiv [OF zero_fmul(1) [OF band_mag [OF d(1)] that] d(1)])
    from this show ?thesis unfolding cubic_interpolate_def Let_def a(1)
      by (intro zero_fadd) (assumption, (intro zero_term assms d zero_three m disjI1 z)+)
  qed
  show "near 2 y (cubic_interpolate x0 y0 x1 y1 x2 y2 x3 y3 x1)" if "y1 = Fin y" "1 \<le> y"
  proof -
    have n: "near 2 y (fdiv (fmul (Fin y) n) n)" if "n = fmul (fmul (fsub x1 x0) (fsub x1 x2)) (fsub x1 x3)" for n
      using y [OF \<open>1 \<le> y\<close>, of n] d(2) that \<open>y1 = Fin y\<close> by simp
    note sum = sum_of_zeros(1) [OF n [OF refl] double_fdiv]
    show ?thesis unfolding cubic_interpolate_def Let_def a(2) that(1)
      using that(2) by (subst sum) (auto intro!: n zero_term zero_three assms d m z)
  qed
  show "near 2 y (cubic_interpolate x0 y0 x1 y1 x2 y2 x3 y3 x2)" if "y2 = Fin y" "1 \<le> y"
  proof -
    have n: "near 2 y (fdiv (fmul (Fin y) n) n)" if "n = fmul (fmul (fsub x2 x0) (fsub x2 x1)) (fsub x2 x3)" for n
      using y [OF \<open>1 \<le> y\<close>, of n] d(3) that \<open>y2 = Fin y\<close> by simp
    note sum = sum_of_zeros(2) [OF n [OF refl] double_fdiv]
    show ?thesis unfolding cubic_interpolate_def Let_def a(3) that(1)
      using that(2) by (subst sum) (auto intro!: n zero_term zero_three assms d m z)
  qed
qed


section \<open>Knots of the table\<close>

lemma x_values_gap:
  assumes "valid_lg_k lg_k" and "i \<le> 256" and "j \<le> 256"
  shows "if i = j then fsub (x_values_for lg_k i) (x_values_for lg_k j) = Fin 0
    else band (- 4) 22 (fsub (x_values_for lg_k i) (x_values_for lg_k j))"
proof -
  obtain v where v: "x_values_for lg_k i = Fin v" "\<bar>v - x_exact lg_k i\<bar> \<le> 1 / 2 ^ 32"
    using x_values_for_Fin [OF assms(1,2)] .
  obtain w where w: "x_values_for lg_k j = Fin w" "\<bar>w - x_exact lg_k j\<bar> \<le> 1 / 2 ^ 32"
    using x_values_for_Fin [OF assms(1,3)] .
  have row: "unat lg_k - 4 < 15" using assms(1) by (auto simp: valid_lg_k_iff)
  have range: "1 / 10 \<le> x_exact lg_k m" "x_exact lg_k m \<le> 3 * 10 ^ 6" if "m \<le> 256" for m
    using x_row_entry(2,3) [OF row that] by (simp_all add: x_exact_def)
  show ?thesis
  proof (cases "i = j")
    case False
    then have "x_exact lg_k i + 1 / 10 \<le> x_exact lg_k j \<or> x_exact lg_k j + 1 / 10 \<le> x_exact lg_k i"
      using x_exact_spaced [OF assms(1)] assms(2,3) by (metis nat_neq_iff)
    then have "1 / 10 - 1 / 2 ^ 31 \<le> \<bar>v - w\<bar>" using v(2) w(2) by (auto simp: abs_if split: if_splits)
    then have "2 powi (- 4) \<le> \<bar>v - w\<bar>" by (simp add: power_int_def power_one_over)
    moreover have "\<bar>v - w\<bar> \<le> 2 powi 22"
      using v(2) w(2) range [OF assms(2)] range [OF assms(3)] unfolding abs_le_iff by simp
    ultimately have "band (- 4) 22 (fsub (Fin v) (Fin w))" by (intro band_gap) simp_all
    with False show ?thesis by (simp add: v(1) w(1))
  qed (simp add: w(1) fsub_Fin fp_round_def)
qed

lemma x_values_apart:
  assumes "valid_lg_k lg_k" and "b + 3 \<le> 256"
  shows "apart (x_values_for lg_k b) (x_values_for lg_k (b + 1)) (x_values_for lg_k (b + 2))
    (x_values_for lg_k (b + 3))"
proof -
  have nth: "[x_values_for lg_k b, x_values_for lg_k (b + 1), x_values_for lg_k (b + 2),
      x_values_for lg_k (b + 3)] ! i = x_values_for lg_k (b + i)" if "i < 4" for i
    using that by (auto simp: less_Suc_eq numeral_eq_Suc)
  show ?thesis unfolding apart_def
  proof (intro allI impI)
    fix i j :: nat assume "i < 4" "j < 4"
    have "b + i \<le> 256" "b + j \<le> 256" using \<open>i < 4\<close> \<open>j < 4\<close> assms(2) by simp_all
    from x_values_gap [OF assms(1) this]
    show "if i = j then fsub ([x_values_for lg_k b, x_values_for lg_k (b + 1), x_values_for lg_k (b + 2),
        x_values_for lg_k (b + 3)] ! i) ([x_values_for lg_k b, x_values_for lg_k (b + 1),
        x_values_for lg_k (b + 2), x_values_for lg_k (b + 3)] ! j) = Fin 0
      else band (- 4) 22 (fsub ([x_values_for lg_k b, x_values_for lg_k (b + 1), x_values_for lg_k (b + 2),
        x_values_for lg_k (b + 3)] ! i) ([x_values_for lg_k b, x_values_for lg_k (b + 1),
        x_values_for lg_k (b + 2), x_values_for lg_k (b + 3)] ! j))"
      by (simp only: nth [OF \<open>i < 4\<close>] nth [OF \<open>j < 4\<close>] add_left_cancel)
  qed
qed

lemma ordinate:
  assumes "valid_lg_k lg_k" and "j \<le> 256"
  shows "fmul (f_of_nat (unat (y_stride_for lg_k))) (f_of_nat j) = Fin (of_nat (unat (y_stride_for lg_k) * j))"
    and "mag 22 (fmul (f_of_nat (unat (y_stride_for lg_k))) (f_of_nat j))"
proof -
  let ?s = "unat (y_stride_for lg_k)"
  have s: "?s \<le> 2 ^ 14" using y_stride_bounds(2) [OF assms(1)] .
  have le: "?s * j \<le> 2 ^ 14 * 2 ^ 8" using s assms(2) by (intro mult_mono) simp_all
  then show eq: "fmul (f_of_nat ?s) (f_of_nat j) = Fin (of_nat (?s * j))"
    using f_of_nat_exact [of ?s] f_of_nat_exact [of j] fmul_of_nat [of ?s j] s assms(2) by simp
  have "(of_nat (?s * j) :: rat) \<le> 2 ^ 22" using le by (intro of_nat_le_power) simp
  then show "mag 22 (fmul (f_of_nat ?s) (f_of_nat j))" unfolding eq by (simp del: of_nat_mult)
qed


lemma find_straddle_knot:
  assumes "valid_lg_k lg_k" and "i < 256"
  shows "find_straddle (x_values_for lg_k) num_x_values (x_values_for lg_k i) = i"
    and "\<not> feq (x_values_for lg_k i) (x_values_for lg_k (num_x_values - 1))"
proof -
  let ?xv = "x_values_for lg_k"
  obtain v where v: "?xv i = Fin v" using x_values_for_Fin [OF assms(1), of i] assms(2) by auto
  obtain a where a: "?xv 0 = Fin a" using x_values_for_Fin [OF assms(1), of 0] by auto
  obtain z where z: "?xv 256 = Fin z" using x_values_for_Fin [OF assms(1), of 256] by auto
  have order: "a \<le> v" "v < z"
    using x_values_for_mono [OF assms(1) _ _ a v] x_values_for_less [OF assms(1,2) _ v z] assms(2) by simp_all
  then show "\<not> feq (?xv i) (?xv (num_x_values - 1))" by (simp add: num_x_values_def v z)
  let ?k = "find_straddle ?xv num_x_values (?xv i)"
  have "\<not> fless (?xv i) (?xv 0)" "fless (?xv i) (?xv last_x_offset)"
    using order by (simp_all add: last_x_offset_def num_x_values_def v a z)
  from find_straddle_index [OF assms(1) v this refl]
  have k: "?k < 256" "\<And>j. j \<le> 256 \<Longrightarrow> fleq (?xv j) (?xv i) \<longleftrightarrow> j \<le> ?k"
    by (simp_all add: last_x_offset_def num_x_values_def)
  have "i \<le> ?k" using k(2) [of i] assms(2) by (simp add: v fleq_def)
  moreover have "?k \<le> i"
  proof (rule ccontr)
    assume "\<not> ?k \<le> i"
    obtain u where u: "?xv ?k = Fin u" using x_values_for_Fin [OF assms(1), of ?k] k(1) by auto
    have "v < u" using x_values_for_less [OF assms(1) _ _ v u] k(1) \<open>\<not> ?k \<le> i\<close> by simp
    moreover have "fleq (Fin u) (?xv i)" using k(2) [of ?k] k(1) unfolding u by simp
    ultimately show False by (simp add: v fleq_def)
  qed
  ultimately show "?k = i" by simp
qed

lemma interpolate_knot:
  assumes "valid_lg_k lg_k" and "1 \<le> i" and "i < 256"
  shows "near 2 (of_nat (unat (y_stride_for lg_k) * i))
    (interpolate_composite (x_values_for lg_k) (y_stride_for lg_k) (x_values_for lg_k i))"
proof -
  let ?xv = "x_values_for lg_k" and ?y = "\<lambda>j. fmul (f_of_nat (unat (y_stride_for lg_k))) (f_of_nat j)"
  define b where "b = straddle_base i"
  have b: "b + 3 \<le> 256" "b + 1 = i \<or> b + 2 = i"
    using assms(2,3) by (auto simp: b_def straddle_base_def num_x_values_def)
  have eq: "interpolate_composite ?xv (y_stride_for lg_k) (?xv i) =
      cubic_interpolate (?xv b) (?y b) (?xv (b + 1)) (?y (b + 1)) (?xv (b + 2)) (?y (b + 2))
        (?xv (b + 3)) (?y (b + 3)) (?xv i)"
    using find_straddle_knot [OF assms(1,3)] by (simp add: interpolate_composite_def Let_def b_def)
  note knots = cubic_at_knots(2,3) [OF x_values_apart [OF assms(1) b(1)] ordinate(2) ordinate(2) ordinate(2) ordinate(2)]
  have "1 \<le> unat (y_stride_for lg_k) * i" using y_stride_bounds(1) [OF assms(1)] assms(2) by simp
  then have "1 \<le> (of_nat (unat (y_stride_for lg_k) * i) :: rat)" by (metis of_nat_1 of_nat_le_iff)
  with knots [OF assms(1) _ assms(1) _ assms(1) _ assms(1) _ ordinate(1) [OF assms(1)]] b show ?thesis
    unfolding eq by (elim disjE) (auto simp del: of_nat_mult)
qed

text \<open>
  C23: at every x value of a row the interpolation returns the ordinate of that x value, the
  stride times the index, with a relative error of at most \<open>2^-49\<close>: the Lagrange weights of the
  other three points vanish in double arithmetic and that of the point itself is one.
\<close>

theorem hll_interpolation_knots:
  assumes "valid_lg_k lg_k" and "i \<le> last_x_offset"
    and "r = interpolate_composite (x_values_for lg_k) (y_stride_for lg_k) (x_values_for lg_k i)"
    and "y = of_nat (unat (y_stride_for lg_k) * i)"
  shows "finite_fp r \<and> \<bar>fval r - y\<bar> \<le> y / 2 ^ 49"
proof -
  have i: "i \<le> 256" using assms(2) by (simp add: last_x_offset_def num_x_values_def)
  consider "i = 256" | "i = 0" | "1 \<le> i" "i < 256" using i by linarith
  then show ?thesis
  proof cases
    case 1
    obtain z where z: "x_values_for lg_k 256 = Fin z" using x_values_for_Fin [OF assms(1), of 256] by auto
    have "r = Fin y" using ordinate(1) [OF assms(1), of 256] 1
      by (simp add: assms(3,4) interpolate_composite_def Let_def num_x_values_def z)
    moreover have "0 \<le> y" unfolding assms(4) by (rule of_nat_0_le_iff)
    ultimately show ?thesis by (simp add: finite_fp_def)
  next
    case 2
    let ?y = "\<lambda>j. fmul (f_of_nat (unat (y_stride_for lg_k))) (f_of_nat j)"
    have "is_zero (?y 0)" using ordinate(1) [OF assms(1), of 0] by (simp add: is_zero_def)
    with cubic_at_knots(1) [OF x_values_apart [OF assms(1), of 0]] ordinate(2) [OF assms(1)]
    have "is_zero r" using find_straddle_knot [OF assms(1), of 0]
      by (simp add: assms(3) 2 interpolate_composite_def Let_def straddle_base_def)
    then show ?thesis using 2 by (auto simp: is_zero_def finite_fp_def assms(4))
  next
    case 3
    have "0 < unat (y_stride_for lg_k) * i" using y_stride_bounds(1) [OF assms(1)] 3 by simp
    then have "0 < y" unfolding assms(4) by (simp only: of_nat_0_less_iff)
    with near_error [OF interpolate_knot [OF assms(1) 3]] show ?thesis
      by (auto simp: assms(3,4) finite_fp_def)
  qed
qed

theorem hll_interpolation_knots_witness:
  "\<exists>r. interpolate_composite (x_values_for 12) (y_stride_for 12) (x_values_for 12 100) = r \<and>
     \<bar>fval r - 16000\<bar> \<le> 16000 / 2 ^ 49"
proof -
  have "(16000 :: rat) = of_nat (unat (y_stride_for 12) * 100)"
    by (simp add: y_stride_for_def y_strides_def table_min_lg_k_def)
  from hll_interpolation_knots [OF _ _ refl this] show ?thesis
    by (simp add: valid_lg_k_iff last_x_offset_def num_x_values_def)
qed


section \<open>Estimates are numbers\<close>

lemma cubic_finite:
  assumes "apart x0 x1 x2 x3" and "mag 22 y0" "mag 22 y1" "mag 22 y2" "mag 22 y3"
    and "mag 22 (fsub x x0)" "mag 22 (fsub x x1)" "mag 22 (fsub x x2)" "mag 22 (fsub x x3)"
  shows "mag 103 (cubic_interpolate x0 y0 x1 y1 x2 y2 x3 y3 x)"
proof -
  have t: "mag 100 (fdiv (fmul y n) d)" if "mag 22 y" "mag 66 n" "band (- 12) 66 d" for y n d
    using mag_fdiv [OF mag_fmul [OF that(1,2)] that(3)] by simp
  have sum: "mag 103 (fadd (fadd (fadd a b) c) d)" if "mag 100 a" "mag 100 b" "mag 100 c" "mag 100 d" for a b c d
    using mag_fadd [OF mag_fadd [OF mag_fadd [OF that(1,2)] mag_mono [OF that(3)]] mag_mono [OF that(4)]] by simp
  show ?thesis unfolding cubic_interpolate_def Let_def
    by (intro sum t assms(2-9) mag_three band_three apartD [OF assms(1)])
qed

lemma interpolate_finite:
  assumes "valid_lg_k lg_k" and "x = Fin r"
    and "\<not> fless x (x_values_for lg_k 0)" and "\<not> fless (x_values_for lg_k last_x_offset) x"
  shows "mag 103 (interpolate_composite (x_values_for lg_k) (y_stride_for lg_k) x)"
proof -
  let ?xv = "x_values_for lg_k"
  have row: "unat lg_k - 4 < 15" using assms(1) by (auto simp: valid_lg_k_iff)
  have val: "\<exists>v. ?xv j = Fin v \<and> 0 < v \<and> v \<le> 2 ^ 22" if j: "j \<le> 256" for j
  proof -
    obtain v where v: "?xv j = Fin v" "\<bar>v - x_exact lg_k j\<bar> \<le> 1 / 2 ^ 32"
      using x_values_for_Fin [OF assms(1) j] by blast
    moreover have "x_exact lg_k j \<le> 3 * 10 ^ 6" using x_row_entry(3) [OF row j] by (simp add: x_exact_def)
    then have "v \<le> 2 ^ 22" using v(2) unfolding abs_le_iff by simp
    ultimately show ?thesis using x_values_for_pos [OF assms(1) j] by blast
  qed
  have r: "0 < r" "r \<le> 2 ^ 22"
    using val [of 0] val [of 256] assms(2-4) by (auto simp: last_x_offset_def num_x_values_def)
  have gap: "mag 22 (fsub x (?xv j))" if j: "j \<le> 256" for j
  proof -
    obtain v where v: "?xv j = Fin v" "0 < v" "v \<le> 2 ^ 22" using val [OF j] by blast
    then have "\<bar>r - v\<bar> \<le> 2 powi 22" using r by (simp add: abs_le_iff)
    then show ?thesis unfolding assms(2) v(1) by (rule mag_gap) simp
  qed
  show ?thesis
  proof (cases "feq x (?xv (num_x_values - 1))")
    case True
    then show ?thesis using mag_mono [OF ordinate(2) [OF assms(1), of 256], of 103]
      by (simp add: interpolate_composite_def Let_def num_x_values_def)
  next
    case False
    define b where "b = straddle_base (find_straddle ?xv num_x_values x)"
    have "find_straddle ?xv num_x_values x < 256"
      using straddle_loop_bound [of 0 256 ?xv x] by (simp add: find_straddle_def num_x_values_def)
    then have b: "b + 3 \<le> 256" using straddle_base_bound [of "find_straddle ?xv num_x_values x"]
      by (simp add: b_def num_x_values_def)
    from cubic_finite [OF x_values_apart [OF assms(1) b]] ordinate(2) [OF assms(1)] gap b False
    show ?thesis by (simp add: interpolate_composite_def Let_def b_def)
  qed
qed

lemma bitmap_finite:
  assumes "numerics_ok c" and "lg_k \<le> 21" and "unat n \<le> 2 ^ 21"
  shows "mag 70 (bitmap_estimate c n lg_k)"
proof -
  have k: "mag 21 (f_of_nat (unat (config_k lg_k)))"
    using spans_mag [OF spans_config_k [OF assms(2)]] by simp
  have le: "unat (config_k lg_k) \<le> 2 ^ 21"
    unfolding unat_config_k [OF assms(2)] using assms(2)
    by (intro power_increasing) (simp_all add: word_le_nat_alt)
  have "sized 31 (fsub (harmonic_number c (config_k lg_k)) (harmonic_number c n))"
    using sized_fsub [OF sized_harmonic_number [OF assms(1) le] sized_harmonic_number [OF assms(1,3)]]
    by (simp add: numeral_eq_Suc)
  from mag_fmul [OF k sized_mag [OF this]]
  have hit: "mag 52 (fmul (f_of_nat (unat (config_k lg_k)))
      (fsub (harmonic_number c (config_k lg_k)) (harmonic_number c n)))" by simp
  obtain u where u: "f_of_nat (unat (config_k lg_k)) = Fin u" "1 / 2 ^ 0 \<le> u" "u \<le> 2 ^ 21"
    using spans_config_k [OF assms(2)] by (rule spans_cases)
  then have "spans 0 22 (fp_round False (u / (1 / 2)))" by (intro spans_round) simp_all
  then obtain v where v: "fdiv (f_of_nat (unat (config_k lg_k))) (Fin (1 / 2)) = Fin v" "v \<le> 2 ^ 22" "1 \<le> v"
    using u by (auto simp: spans_def)
  obtain l where "flog c (Fin v) = Fin l" "0 \<le> l" "l \<le> v" using assms(1) v(3) unfolding numerics_ok_def by blast
  then have "mag 22 (flog c (fdiv (f_of_nat (unat (config_k lg_k))) (Fin (1 / 2))))" using v by simp
  from mag_fmul [OF k this]
  have "mag 43 (fmul (f_of_nat (unat (config_k lg_k))) (flog c (fdiv (f_of_nat (unat (config_k lg_k))) (Fin (1 / 2)))))"
    by simp
  with hit show ?thesis by (auto simp: bitmap_estimate_def Let_def elim: mag_mono)
qed


lemma fp_round_positive:
  assumes "0 \<le> q" shows "fp_round False q = FInf False \<or> (\<exists>r \<ge> 0. fp_round False q = Fin r)"
proof -
  have "0 \<le> rnd64 q" using rnd64_ge [OF representable_0 assms] .
  then show ?thesis using assms by (auto simp: fp_round_def Let_def)
qed

lemma composite_estimate_cases:
  assumes "numerics_ok c" and "valid_lg_k lg_k" and "unat n \<le> 2 ^ 21"
    and "raw_estimate z lg_k = Fin r" and "0 \<le> r"
  shows "mag 103 (composite_estimate c z n lg_k) \<or>
    (\<exists>w. spans 22 26 w \<and> composite_estimate c z n lg_k = fmul (Fin r) w)"
proof -
  let ?xv = "x_values_for lg_k"
  have lin: "mag 103 (bitmap_estimate c n lg_k)"
    using mag_mono [OF bitmap_finite [OF assms(1) valid_lg_k_le [OF assms(2)] assms(3)]] by simp
  show ?thesis
  proof (cases "fless (Fin r) (?xv 0)")
    case True
    then show ?thesis by (simp add: composite_estimate_def Let_def assms(4))
  next
    case low: False
    show ?thesis
    proof (cases "fless (?xv last_x_offset) (Fin r)")
      case True
      with low show ?thesis using extrapolation_factor [OF assms(2)]
        by (auto simp: composite_estimate_def Let_def assms(4))
    next
      case False
      with low lin interpolate_finite [OF assms(2) refl low False] show ?thesis
        by (simp add: composite_estimate_def Let_def assms(4))
    qed
  qed
qed

lemma composite_estimate_defined:
  assumes "numerics_ok c" and "valid_lg_k lg_k" and "unat n \<le> 2 ^ 21" and "0 \<le> v"
  shows "finite_fp (composite_estimate c (Fin v) n lg_k) \<or> composite_estimate c (Fin v) n lg_k = FInf False"
    and "1 / 2 ^ 60 \<le> v \<Longrightarrow> v \<le> 2 ^ 21 \<Longrightarrow> finite_fp (composite_estimate c (Fin v) n lg_k)"
proof -
  let ?e = "composite_estimate c (Fin v) n lg_k"
  have scaled: "finite_fp (fmul (Fin r) w) \<or> fmul (Fin r) w = FInf False" if r: "0 \<le> r" and s: "spans 22 26 w" for r w
  proof -
    obtain q where "w = Fin q" "0 < q" using s by (rule spans_cases)
    then show ?thesis using fp_round_positive [of "r * q"] r by (auto simp: finite_fp_def not_less)
  qed
  show "finite_fp ?e \<or> ?e = FInf False"
  proof (cases "v = 0")
    case True
    then show ?thesis using composite_estimate_zero [OF assms(2)] by simp
  next
    case False
    obtain N where N: "0 < N" "\<And>z. raw_estimate z lg_k = fdiv (Fin N) z"
      using raw_estimate_numerator [OF valid_lg_k_le [OF assms(2)]] by metis
    have raw: "raw_estimate (Fin v) lg_k = fp_round False (N / v)"
      using False N assms(4) by simp
    consider "raw_estimate (Fin v) lg_k = FInf False" | r where "0 \<le> r" "raw_estimate (Fin v) lg_k = Fin r"
      using fp_round_positive [of "N / v"] N(1) assms(4) unfolding raw by auto
    then show ?thesis
    proof cases
      case 1
      obtain a where a: "x_values_for lg_k 0 = Fin a" using x_values_for_Fin [OF assms(2), of 0] by auto
      obtain b where b: "x_values_for lg_k last_x_offset = Fin b"
        using x_values_for_Fin [OF assms(2), of 256] by (auto simp: last_x_offset_def num_x_values_def)
      obtain q where "fdiv (fmul (f_of_nat (unat (y_stride_for lg_k))) (f_of_nat last_x_offset))
          (x_values_for lg_k last_x_offset) = Fin q" "0 < q"
        using extrapolation_factor [OF assms(2)] by (rule spans_cases)
      then show ?thesis by (simp add: composite_estimate_def Let_def 1 a b)
    next
      case 2
      from composite_estimate_cases [OF assms(1-3) 2(2,1)] scaled [OF 2(1)] mag_finite show ?thesis by metis
    qed
  qed
  show "finite_fp ?e" if v: "1 / 2 ^ 60 \<le> v" "v \<le> 2 ^ 21"
  proof -
    let ?y = "alpha lg_k * 2 ^ unat lg_k * 2 ^ unat lg_k / v"
    note al = alpha_bounds [OF assms(2)] and K = two_power_lg_k [OF assms(2)]
    have "0 < v" using v(1) by (rule less_le_trans [rotated]) simp
    obtain r where r: "raw_estimate (Fin v) lg_k = Fin r" "\<bar>r - ?y\<bar> \<le> ?y / 2 ^ 49"
      using near_error [OF raw_estimate_near [OF assms(2) v]] al \<open>0 < v\<close> by auto
    have "alpha lg_k * 2 ^ unat lg_k \<le> 1 * 2 ^ 18" using al K by (intro mult_mono) simp_all
    then have "alpha lg_k * 2 ^ unat lg_k * 2 ^ unat lg_k \<le> 1 * 2 ^ 18 * 2 ^ 18" using al K by (intro mult_mono) simp_all
    with v(1) al \<open>0 < v\<close> have "?y \<le> 2 ^ 36 / (1 / 2 ^ 60)" by (intro frac_le) simp_all
    moreover have "0 < ?y" using al \<open>0 < v\<close> by simp
    ultimately have y: "?y \<le> 2 ^ 36 / (1 / 2 ^ 60)" "0 < ?y" by blast+
    have "0 \<le> r" "r \<le> 2 ^ 100" using r(2) y unfolding abs_le_iff by simp_all
    then have m: "mag 100 (Fin r)" by simp
    from composite_estimate_cases [OF assms(1-3) r(1) \<open>0 \<le> r\<close>] show ?thesis
      using mag_finite mag_finite [OF mag_fmul [OF m spans_mag]] by fastforce
  qed
qed

end
