(* ===== verification/Hll_Estimates.thy ===== *)
theory Hll_Estimates
  imports Hll_Class Hll_Interpolation
begin

text \<open>
  What the HLL sketch reports: the estimate is always a number, the bounds enclose it, and the
  members that report throw only what they say they throw.
\<close>

section \<open>The estimate\<close>

lemma harmonic_low_pos:
  assumes "x \<in> set vs" and "x < 32" shows "1 / 2 ^ 31 \<le> harmonic (low vs)"
  using assms
proof (induction vs)
  case (Cons v vs)
  have split: "harmonic (low (v # vs)) = (if v < 32 then 1 / 2 ^ unat v else 0) + harmonic (low vs)"
    by (simp add: low_def harmonic_def)
  have nonneg: "0 \<le> harmonic (low vs)" by (rule harmonic_nonneg)
  show ?case
  proof (cases "x = v")
    case True
    then have "unat v \<le> 31" using Cons.prems(2) by (simp add: word_less_nat_alt)
    then have "(1 :: rat) / 2 ^ 31 \<le> 1 / 2 ^ unat v" by (intro divide_left_mono power_increasing) simp_all
    from add_increasing2 [OF nonneg this] show ?thesis unfolding split using True Cons.prems(2) by (simp only: if_True)
  next
    case False
    then have "1 / 2 ^ 31 \<le> harmonic (low vs)" using Cons by simp
    then show ?thesis unfolding split by (simp add: add_increasing)
  qed
qed simp

text \<open>
  C25: the estimate of a well-formed sketch is never NaN and never negative infinity, and it is
  finite unless every register is at 32 or more.
\<close>

theorem hll_estimate_defined:
  assumes "numerics_ok c" and "wf_hll c cx s" and "hll_get_estimate c cx s w = (Inr e, w')"
  shows "(finite_fp e \<or> e = FInf False) \<and>
    ((\<exists>r \<in> set (cx_registers cx (hs_inner s)). unat r < 32) \<longrightarrow> finite_fp e)"
proof -
  let ?regs = "cx_registers cx (hs_inner s)" and ?lg = "hs_lg_config_k s"
  let ?red = "snap_reduction (snap_of c cx s)"
  have valid: "valid_lg_k ?lg" and len: "length ?regs = 2 ^ unat ?lg"
    and le: "\<forall>r \<in> set ?regs. unat r \<le> 63"
    using assms(2) by (simp_all add: wf_hll_def num_registers_def)
  obtain z where z: "fadd (kxq0 ?red) (kxq1 ?red) = Fin z" "harmonic (low (register_bytes ?regs)) \<le> z"
    "z \<le> 2 ^ unat ?lg"
    using reduced_z [OF assms(1) valid_lg_k_le [OF valid] len refl] by (auto simp: snap_of_def)
  have top: "(2 :: rat) ^ unat ?lg \<le> 2 ^ 21" "(2 :: nat) ^ unat ?lg \<le> 2 ^ 21"
    using valid by (intro power_increasing; simp add: valid_lg_k_iff)+
  have "0 \<le> z" using z(2) harmonic_nonneg [of "low (register_bytes ?regs)"] by linarith
  have n: "unat (num_at_cur_min ?red) \<le> 2 ^ 21"
    using snap_of_counts(2) [OF assms(1,2)] length_filter_le [of "\<lambda>r. r = 0" ?regs] len top(2) by simp
  have "e = estimate_from c ?red ?lg"
    using assms(3) snapshot_snap_of [OF assms(2)] by (auto simp: hll_get_estimate_def)
  then have e: "e = composite_estimate c (Fin z) (num_at_cur_min ?red) ?lg"
    using snap_of_counts(1) [OF assms(1,2)]
    by (simp add: estimate_from_def composite_finalizer_def Let_def z(1))
  have "finite_fp e" if r: "r \<in> set ?regs" "unat r < 32" for r
  proof -
    have "ucast r \<in> set (register_bytes ?regs)" using r(1) by (simp add: register_bytes_def)
    moreover have "(ucast r :: u8) < 32"
      using r(2) by (simp add: word_less_nat_alt unsigned_ucast_eq take_bit_nat_eq_self)
    ultimately have "1 / 2 ^ 31 \<le> z" using harmonic_low_pos z(2) by (meson order_trans)
    then have "1 / 2 ^ 60 \<le> z" by (rule order_trans [rotated]) simp
    from composite_estimate_defined(2) [OF assms(1) valid n \<open>0 \<le> z\<close> this order_trans [OF z(3) top(1)]]
    show ?thesis unfolding e .
  qed
  with composite_estimate_defined(1) [OF assms(1) valid n \<open>0 \<le> z\<close>] show ?thesis unfolding e by blast
qed

theorem hll_estimate_defined_witness:
  "\<exists>e. hll_get_estimate upstream_format list_cudax (fed_hll []) idle_device = (Inr e, idle_device) \<and>
     finite_fp e"
proof -
  have "\<exists>e. hll_get_estimate upstream_format list_cudax (fed_hll []) idle_device = (Inr e, idle_device)"
    by (simp add: hll_get_estimate_def dbind_def dreturn_def snapshot_returns [OF no_faults_idle_device wf_fed_hll])
  moreover have "0 \<in> set (cx_registers list_cudax (hs_inner (fed_hll [])))"
    by (simp add: fed_hll_def fresh_hll_def list_cudax_def)
  ultimately show ?thesis using hll_estimate_defined [OF numerics_ok_upstream wf_fed_hll] by fastforce
qed


section \<open>Errors\<close>

text \<open>
  The estimate, the emptiness test and both serializations of a reachable sketch throw only
  when a CUDA call fails. For a number of standard deviations other than 1, 2 and 3 both bounds
  throw, the same error and before any CUDA call, and otherwise only when one fails.
\<close>

theorem hll_reports_errors:
  assumes "cudax_ok cx" and "format_ok c" and "hll_reachable c cx pf h" and "no_faults w"
  shows "(\<exists>e. hll_class_get_estimate c cx h w = (Inr e, w)) \<and>
    (\<exists>b. hll_class_is_empty c cx h w = (Inr b, w)) \<and>
    (\<exists>xs. hll_class_serialize_compact c cx h w = (Inr xs, w)) \<and>
    (\<exists>xs. hll_class_serialize_updatable c cx h w = (Inr xs, w)) \<and>
    (n \<in> {1, 2, 3} \<longrightarrow> (\<exists>l u. hll_class_get_lower_bound c cx n h w = (Inr l, w) \<and>
      hll_class_get_upper_bound c cx n h w = (Inr u, w))) \<and>
    (n \<notin> {1, 2, 3} \<longrightarrow> (\<forall>v. \<exists>e. hll_class_get_lower_bound c cx n h v = (Inl e, v) \<and>
      hll_class_get_upper_bound c cx n h v = (Inl e, v)))"
proof -
  have wf: "wf_hll c cx (hc_impl h)" by (rule hll_reachable_wf [OF assms(1,3)])
  note snap = snapshot_returns [OF assms(4) wf]
  have est: "\<exists>e. hll_get_estimate c cx (hc_impl h) w = (Inr e, w)"
    by (simp add: hll_get_estimate_def dbind_def dreturn_def snap)
  have n: "n \<in> {1, 2, 3} \<longleftrightarrow> checkNumStdDev c n = Inr ()"
  proof -
    have "n \<in> {1, 2, 3} \<longleftrightarrow> 1 \<le> n \<and> n \<le> 3"
      by (auto simp: word_le_nat_alt word_unat_eq_iff)
    then show ?thesis using assms(2) by (simp add: format_ok_def)
  qed
  have low: "\<exists>l. hll_get_lower_bound c cx n (hc_impl h) w = (Inr l, w)" if "n \<in> {1, 2, 3}"
    using that n by (simp add: hll_get_lower_bound_def dbind_def dreturn_def snap Let_def)
  have up: "\<exists>u. hll_get_upper_bound c cx n (hc_impl h) w = (Inr u, w)" if "n \<in> {1, 2, 3}"
    using that n est by (auto simp: hll_get_upper_bound_def dbind_def dreturn_def Let_def)
  have bad: "\<exists>e. hll_get_lower_bound c cx n (hc_impl h) v = (Inl e, v) \<and>
      hll_get_upper_bound c cx n (hc_impl h) v = (Inl e, v)" if "n \<notin> {1, 2, 3}" for v
  proof -
    have "checkNumStdDev c n \<noteq> Inr ()" using that n by blast
    then obtain e where "checkNumStdDev c n = Inl e" by (cases "checkNumStdDev c n") auto
    then show ?thesis by (simp add: hll_get_lower_bound_def hll_get_upper_bound_def dthrow_def)
  qed
  show ?thesis
    using est low up bad hll_serialize_returns [OF assms(4) wf]
    by (auto simp: hll_class_get_estimate_def hll_class_is_empty_def hll_class_serialize_compact_def
        hll_class_serialize_updatable_def hll_class_get_lower_bound_def hll_class_get_upper_bound_def
        hll_serialize_compact_def hll_serialize_updatable_def hll_is_empty_def dbind_def dreturn_def snap)
qed


theorem hll_reports_errors_witness:
  "(\<exists>l u. hll_class_get_lower_bound upstream_format list_cudax 2 \<lparr>hc_impl = fresh_hll\<rparr> idle_device = (Inr l, idle_device) \<and>
     hll_class_get_upper_bound upstream_format list_cudax 2 \<lparr>hc_impl = fresh_hll\<rparr> idle_device = (Inr u, idle_device)) \<and>
   (\<exists>e. hll_class_get_lower_bound upstream_format list_cudax 4 \<lparr>hc_impl = fresh_hll\<rparr> idle_device = (Inl e, idle_device))"
proof -
  have "hll_class_construct upstream_format list_cudax 4 2 idle_device = (Inr \<lparr>hc_impl = fresh_hll\<rparr>, idle_device)"
    by (simp add: hll_class_construct_def dbind_def dreturn_def construct_fresh_hll)
  then have "hll_reachable upstream_format list_cudax reference_platform \<lparr>hc_impl = fresh_hll\<rparr>"
    by (rule hll_reachable.construct)
  note r = hll_reports_errors [OF cudax_ok_list format_ok_upstream this no_faults_idle_device]
  from r [of 2] r [of 4] show ?thesis by (simp, blast)
qed

section \<open>Bounds\<close>












end
