(* ===== verification/Spec2Isabelle.thy ===== *)
theory Spec2Isabelle
  imports Theta_Class Theta_Objects Theta_Statistics Hasher_Properties Hll_Distribution Hll_Estimates
begin

text \<open>
  A verification library for DataSketches CUDA, a header-only C++/CUDA library with two
  cardinality sketches: \<^verbatim>\<open>theta_sketch\<close> (\<^verbatim>\<open>theta.hpp\<close>, \<^verbatim>\<open>detail/theta/\<close>) and \<^verbatim>\<open>hll_sketch\<close>
  (\<^verbatim>\<open>hll.hpp\<close>, \<^verbatim>\<open>detail/hll/\<close>), over a common key hasher and error handling. All paths below
  are relative to \<^verbatim>\<open>src/include/datasketches/cuda/\<close>.

  \<^bold>\<open>How the parts interact.\<close> Both sketches reduce a key to a canonical 64-bit pattern and hash
  it with MurmurHash3. A Theta sketch keeps the nonzero 63-bit hashes below a threshold theta as
  an ascending device array. An update cuts its range into chunks, screens each chunk on the
  device with a kernel that drops hashes not below theta and most duplicates, sorts and merges
  the survivors into the array and trims it to the nominal size; when the kernel finds more
  survivors than the buffer holds, the chunk is halved and tried again. Merge, intersection,
  difference and the compact image work on the same arrays. An HLL sketch keeps one register per
  index, the largest rho seen, inside a third-party cudax object; every report copies the
  registers to the host, reduces them, and either runs the composite estimator over the
  reduction or writes the 40-byte preamble and the registers.

  \<^bold>\<open>Foundations.\<close> \<^theory_text>\<open>Prelude\<close>: words of each width, errors as values (\<open>error\<close>, \<open>'a result\<close>),
  ascending lists. \<^theory_text>\<open>Device\<close>: a host operation is a function of a world that carries the outcome
  of every CUDA call to come and the schedule of every kernel launch to come; the CUB algorithms,
  MurmurHash3 and the contents of uninitialised buffers are fields of the parameter \<open>platform\<close>,
  with their documented contracts in \<open>cub_ok\<close>. \<^theory_text>\<open>Floating\<close> and \<^theory_text>\<open>Double\<close>: IEEE binary64 with
  round to nearest even, subnormals, infinities, NaN and negative zero, over exact rationals,
  with bit patterns both ways. \<^theory_text>\<open>Rounding\<close> and \<^theory_text>\<open>Magnitude\<close>: rounding is monotone up to
  representable numbers, and bounds on the magnitude of results as rules over the operations.
  \<^theory_text>\<open>Bytes\<close>: \<^verbatim>\<open>memcpy\<close> of integers, as a locale \<open>codec\<close> interpreted at 2, 4 and 8 bytes.

  \<^bold>\<open>Keys.\<close> \<^theory_text>\<open>Normalizing_Hasher\<close> models \<^verbatim>\<open>detail/common/normalizing_hasher.cuh\<close>;
  \<^theory_text>\<open>Hasher_Properties\<close> shows that doubles hash alike exactly when they compare equal or are both
  NaN, that floats follow their double value, and that integers keep their signed value.

  \<^bold>\<open>Theta.\<close> \<^theory_text>\<open>Theta_Policy\<close> models \<^verbatim>\<open>policy.cuh\<close> and \<^verbatim>\<open>tuning.cuh\<close>. \<^theory_text>\<open>Theta_Kernel\<close> models
  \<^verbatim>\<open>screen.cuh\<close> as a transition system over the warps of the whole grid, with relaxed loads that
  may see any value their cell has held, and \<^theory_text>\<open>Theta_Screen\<close> proves it for every interleaving: it
  terminates, and counts and writes every surviving hash (locale \<open>screening\<close>, interpreted by the
  kernel). \<^theory_text>\<open>Theta_Preamble\<close> models \<^verbatim>\<open>preamble.hpp\<close>. \<^theory_text>\<open>Theta_Sketch\<close> models every member of
  \<^verbatim>\<open>sketch_impl.hpp\<close> and \<^verbatim>\<open>theta.inl\<close>: a member that changes the sketch takes it and returns it
  with the result, also when it throws. \<^theory_text>\<open>Theta_Spec\<close> is the specification without buffers: the
  sample of a set at a threshold and the summary a sketch of a given nominal size keeps.
  \<^theory_text>\<open>Theta_Ops\<close>, \<^theory_text>\<open>Theta_Chunk\<close>, \<^theory_text>\<open>Theta_Update\<close>, \<^theory_text>\<open>Theta_Operations\<close>, \<^theory_text>\<open>Theta_Config\<close> and
  \<^theory_text>\<open>Theta_Storage\<close> prove the members against it, bottom up (locale \<open>strong_guarantee\<close>: an
  exception leaves the sketch untouched). \<^theory_text>\<open>Theta_Contract\<close> and \<^theory_text>\<open>Theta_Meaning\<close> say what set a
  sketch stands for and interpret the two contracts of \<^theory_text>\<open>Sketch_Contract\<close>: \<open>set_sketch\<close>
  (expressions of unions, intersections and differences) and \<open>mergeable\<close> (batching, order and
  repetition are irrelevant, merging is the summary of the union). \<^theory_text>\<open>Theta_Properties\<close> holds the
  properties with their applications. \<^theory_text>\<open>Theta_Class\<close> is the public class \<^verbatim>\<open>theta_sketch\<close> with
  the members that forward to \<^verbatim>\<open>impl_\<close>, and the set \<open>theta_reachable\<close> of the sketches a program
  can get through them, exceptions included. \<^theory_text>\<open>Theta_Built\<close> defines \<open>built\<close>, the sketches that
  updates and merges make at one nominal size, seed and sampling probability;
  \<^theory_text>\<open>Theta_Estimates\<close> shows what such a sketch retains, and that without sampling its estimate is
  exact while the hashes fit; afterwards it is within \<open>2^-49\<close> of its quotient. \<^theory_text>\<open>Theta_Objects\<close> runs the
  members that take another sketch by reference on a store of objects: a reference is as good as
  a copy, also when it is the sketch itself. \<^theory_text>\<open>Order_Statistics\<close> counts the subsets in which an
  element has a given rank, and \<^theory_text>\<open>Theta_Statistics\<close> derives from it what the sketch is for: over all
  ways in which distinct keys can get distinct hashes the estimate is unbiased, with a relative
  standard error of \<open>1 / sqrt (2^lg_k - 1)\<close>. These two theorems are for sketches without sampling
  (probability 1) whose merges are all at one nominal size, and at most \<open>2^62\<close> keys. Means are finite sums of rational numbers; no
  probability theory is needed.

  \<^bold>\<open>HLL.\<close> \<^theory_text>\<open>Hll_Env\<close> collects what the code takes from datasketches-cpp (the constants of the
  image, argument checks, relative errors, the table of inverse powers of two) and from the
  mathematical library (the logarithm), as the parameter \<open>hll_env\<close> with the laws \<open>format_ok\<close> and
  \<open>numerics_ok\<close>. \<^theory_text>\<open>Hll_Policy\<close> models the slicing of hashes (\<^verbatim>\<open>policy.cuh\<close>),
  \<^theory_text>\<open>Hll_Distribution\<close> counts the hashes that offer a value to a register, \<^theory_text>\<open>Hll_Preamble\<close>
  \<^verbatim>\<open>preamble.hpp\<close>, \<^theory_text>\<open>Hll_Reduction\<close> \<^verbatim>\<open>reduction_state.hpp\<close> with exact and bounded results of
  its floating-point sums, \<^theory_text>\<open>Hll_Table_Data\<close> and \<^theory_text>\<open>Hll_Table\<close> the interpolation tables,
  \<^theory_text>\<open>Hll_Finalizer\<close> the composite estimator (\<^verbatim>\<open>composite_finalizer.cuh\<close>, \<^verbatim>\<open>composite_finalizer.hpp\<close>),
  and \<^theory_text>\<open>Hll_Sketch\<close> every member of \<^verbatim>\<open>sketch_impl.hpp\<close> and \<^verbatim>\<open>hll.inl\<close> over a cudax object of
  arbitrary type. \<^theory_text>\<open>Hll_Contract\<close> states the contract \<open>cudax_ok\<close> of that object, the invariant
  \<open>wf_hll\<close> and the meaning \<open>hll_canon\<close> of a sketch, and interprets \<open>mergeable\<close>. \<^theory_text>\<open>Hll_Image\<close>
  proves what is written and read back, \<^theory_text>\<open>Hll_Properties\<close> the properties of the sketch.
  \<^theory_text>\<open>Accuracy\<close> follows relative errors and magnitudes through floating-point expressions;
  \<^theory_text>\<open>Hll_Accuracy\<close> bounds the raw estimate with it, and \<^theory_text>\<open>Hll_Interpolation\<close> shows that the
  cubic meets its table points and that no intermediate result is NaN or overflows. \<^theory_text>\<open>Hll_Class\<close>
  is the public class \<^verbatim>\<open>hll_sketch\<close> with the set \<open>hll_reachable\<close> of the sketches
  that come from calls that returned, since what cudax leaves behind when it throws is not
  documented, and
  \<^theory_text>\<open>Hll_Estimates\<close> what its reports say: the estimate is a number, the bounds enclose it when the
  relative errors of datasketches-cpp have the right sign (\<open>relerr_ok\<close>), and errors are raised
  only where they should be.

  \<^bold>\<open>Bounds and loops.\<close> The chunk loop and the retry loop of a Theta update are partial functions,
  and \<open>theta_update_returns\<close> proves that both end for every input, world and schedule; ranges
  have fewer than \<open>2^63\<close> keys, as \<^verbatim>\<open>std::distance\<close> requires. The kernel takes no fuel: its steps
  lower a rank. The binary searches are total functions with a measure. The HLL reduction is
  exact up to precision 21, the estimator is modelled for the precisions 4 to 18 of its tables,
  and a table or buffer index outside is undefined in the code and not spoken of here.

  \<^bold>\<open>Not modelled.\<close> The texts of CUDA error messages; streams and memory resources other than as
  calls that may fail; iterators other than as the keys they give; timing and performance; the
  inside of CUB, cudax, MurmurHash3, \<^verbatim>\<open>binomial_bounds\<close> and \<^verbatim>\<open>HllUtil\<close>, which are parameters;
  fused multiply-add, which the device compiler may use in the estimator. An asynchronous HLL
  call is modelled with the effect it has once its stream is synchronised. What a move leaves in
  the buffer or the cudax object of its source is a parameter, so that a moved-from sketch is not
  among the reachable ones. The statistics take the hashes as uniform, which is a matter of
  MurmurHash3, and say nothing about the HLL estimator, whose tables are empirical. The tests, benchmarks
  and build files only use the library.
\<close>

end
